(* ===== verification/Prelude.thy ===== *)
theory Prelude
  imports Main "HOL-Library.Word"
begin

text \<open>
  Shared vocabulary of the Aurora LTFS development.

  C's unsigned 64 bit and 32 bit integers that are used as offsets, counts and block numbers
  are natural numbers here, and every addition, subtraction and multiplication of the source
  is written with the wrap-around operations \<open>u64\<close>, \<open>u64_sub\<close> and \<open>u32\<close> below, so that
  an overflow of the code is an overflow of the model.  Code that works on bits (the base64
  decoder, the byte order macros) uses machine words instead.

  The theory holds the collections of simplification rules the component theories share, the
  lemmas on wrap-around arithmetic and on lists, and the locale \<open>codec\<close>, the contract of an
  encoder and the decoder that undoes it.
\<close>

unbundle bit_operations_syntax

type_synonym byte = "8 word"

named_theorems u64_simps \<open>wrap-around arithmetic that does not wrap\<close>
named_theorems unfold_ops \<open>defining equations of the modelled operations\<close>

section \<open>Wrap-around arithmetic\<close>

definition two64 :: nat where
  "two64 = 18446744073709551616"

definition two32 :: nat where
  "two32 = 4294967296"

definition u64 :: "nat \<Rightarrow> nat" where
  "u64 n = n mod two64"

definition u64_sub :: "nat \<Rightarrow> nat \<Rightarrow> nat" where
  "u64_sub a b = u64 (a + two64 - b)"

definition u32 :: "nat \<Rightarrow> nat" where
  "u32 n = n mod two32"

lemma two64_pos [simp]: "0 < two64"
  by (simp add: two64_def)

lemma two32_pos [simp]: "0 < two32"
  by (simp add: two32_def)

lemma two32_less_two64 [simp]: "two32 < two64"
  by (simp add: two32_def two64_def)

lemma u64_id [u64_simps]: "n < two64 \<Longrightarrow> u64 n = n"
  by (simp add: u64_def)

lemma u64_less [simp, intro]: "u64 n < two64"
  by (simp add: u64_def)

lemma u64_0 [simp]: "u64 0 = 0"
  by (simp add: u64_def)

lemma u64_idem [simp]: "u64 (u64 n) = u64 n"
  by (simp add: u64_def)

lemma u64_add_left [simp]: "u64 (u64 a + b) = u64 (a + b)"
  by (simp add: u64_def mod_add_left_eq)

lemma u64_add_right [simp]: "u64 (a + u64 b) = u64 (a + b)"
  by (simp add: u64_def mod_add_right_eq)

lemma u64_sub_id [u64_simps]:
  assumes "b \<le> a" "a < two64"
  shows "u64_sub a b = a - b"
proof -
  have "a + two64 - b = (a - b) + two64" using assms by linarith
  then have "u64_sub a b = (a - b) mod two64"
    by (simp add: u64_sub_def u64_def)
  then show ?thesis using assms by simp
qed

lemma u64_sub_less [simp, intro]: "u64_sub a b < two64"
  by (simp add: u64_sub_def)

text \<open>A subtraction that wraps is undone by the addition that wraps back.\<close>

lemma u64_sub_add:
  assumes "b \<le> two64" "b \<le> a + c" "a + c - b < two64"
  shows "u64 (u64_sub a b + c) = a + c - b"
proof -
  have "u64 (u64_sub a b + c) = (a + two64 - b + c) mod two64"
    by (simp add: u64_sub_def u64_def mod_add_left_eq)
  also have "a + two64 - b + c = (a + c - b) + two64"
    using assms by linarith
  finally show ?thesis using assms(3) by simp
qed

lemma u64_sub_int: "b \<le> two64 \<Longrightarrow> int (u64_sub a b) = (int a - int b) mod int two64"
proof -
  assume "b \<le> two64"
  then have "int (u64_sub a b) = ((int a - int b) + int two64) mod int two64"
    by (simp add: u64_sub_def u64_def of_nat_mod of_nat_diff algebra_simps)
  then show ?thesis by simp
qed

lemma u64_sub_sub:
  assumes "b \<le> two64" "a \<le> x + b" "x + b - a < two64"
  shows "u64_sub x (u64_sub a b) = x + b - a"
proof -
  have "u64_sub a b \<le> two64" by (rule less_imp_le) (rule u64_sub_less)
  then have "int (u64_sub x (u64_sub a b)) = (int x - (int a - int b) mod int two64) mod int two64"
    using u64_sub_int assms(1) by presburger
  also have "\<dots> = (int x - (int a - int b)) mod int two64"
    by (simp add: mod_diff_right_eq)
  also have "int x - (int a - int b) = int (x + b - a)" using assms(2) by linarith
  also have "int (x + b - a) mod int two64 = int (x + b - a)" using assms(3) by simp
  finally show ?thesis by simp
qed

lemma u32_id [u64_simps]: "n < two32 \<Longrightarrow> u32 n = n"
  by (simp add: u32_def)

lemma u32_less [simp, intro]: "u32 n < two32"
  by (simp add: u32_def)

section \<open>Lists\<close>

text \<open>A write into a C buffer: \<open>None\<close> is a write outside of it.\<close>

definition poke :: "'a list \<Rightarrow> nat \<Rightarrow> 'a \<Rightarrow> 'a list option" where
  "poke buf i v = (if i < length buf then Some (buf[i := v]) else None)"

lemma poke_Some [simp]: "i < length buf \<Longrightarrow> poke buf i v = Some (buf[i := v])"
  by (simp add: poke_def)

lemma poke_append [simp]:
  "i = length xs \<Longrightarrow> poke (xs @ y # ys) i v = Some (xs @ v # ys)"
  by (simp add: poke_def)

lemma drop_eq_ConsD: "drop n xs = y # ys \<Longrightarrow> n < length xs \<and> y = xs ! n \<and> ys = drop (Suc n) xs"
  by (metis Cons_nth_drop_Suc drop_all leI list.discI list.inject)

lemma length_filter_split: "length xs = length (filter P xs) + length (filter (\<lambda>x. \<not> P x) xs)"
  by (induction xs) auto

section \<open>Encoders and decoders\<close>

text \<open>
  An encoder, its decoder and the values the encoder is used for.  The contract is that
  decoding undoes encoding; what a client needs of it is that distinct values stay distinct
  on the medium.
\<close>

locale codec =
  fixes encode :: "'a \<Rightarrow> 'b list"
    and decode :: "'b list \<Rightarrow> 'a option"
    and valid :: "'a \<Rightarrow> bool"
  assumes decode_encode: "valid x \<Longrightarrow> decode (encode x) = Some x"
begin

lemma encode_inj_on: "inj_on encode {x. valid x}"
  by (rule inj_onI) (metis decode_encode mem_Collect_eq option.inject)

lemma encode_eq_iff: "valid x \<Longrightarrow> valid y \<Longrightarrow> encode x = encode y \<longleftrightarrow> x = y"
  by (metis decode_encode option.inject)

lemma decode_unique: "valid x \<Longrightarrow> s = encode x \<Longrightarrow> decode s = Some y \<Longrightarrow> y = x"
  by (simp add: decode_encode)

end

end
