(* ===== verification/Extents.thy ===== *)
theory Extents
  imports Prelude
begin

text \<open>
  The extent list of a file, \<open>_ltfs_fsraw_add_extent_unlocked\<close> and \<open>ltfs_fsraw_truncate\<close> of
  \<open>src/src/libltfs/ltfs_fsops_raw.c\<close>.

  An extent maps a range of the file to a range of the tape.  What a list of extents stands for is
  the function \<open>byte_loc\<close>, which takes a file offset to the place of its byte on the tape: a
  partition and a byte address (block number times block size plus offset in the block).  The
  theorems say how each operation changes that function.
\<close>

section \<open>Extents\<close>

record extent_info =
  ext_block :: nat
  ext_partition :: char
  byteoffset :: nat
  bytecount :: nat
  fileoffset :: nat

definition fileoffset_end :: "extent_info \<Rightarrow> nat" where
  "fileoffset_end e = u64 (fileoffset e + bytecount e)"

definition byteoffset_end :: "extent_info \<Rightarrow> nat" where
  "byteoffset_end e = u64 (byteoffset e + bytecount e)"

text \<open>The truncation of an entry from its beginning, by \<open>diff\<close> bytes.\<close>

definition cut_front :: "nat \<Rightarrow> nat \<Rightarrow> extent_info \<Rightarrow> extent_info" where
  "cut_front blocksize diff e =
     (let byteoffset_mod = u64 (diff + byteoffset e) in
      e\<lparr>ext_block := u64 (ext_block e + byteoffset_mod div blocksize),
        byteoffset := u32 (byteoffset_mod mod blocksize),
        bytecount := u64_sub (bytecount e) diff,
        fileoffset := u64 (fileoffset e + diff)\<rparr>)"

text \<open>
  The second part of the loop body: whether the new extent continues the tape blocks of the entry.
\<close>

definition continues :: "nat \<Rightarrow> extent_info \<Rightarrow> nat \<Rightarrow> extent_info \<Rightarrow> bool" where
  "continues blocksize entry entry_end ext \<longleftrightarrow>
     fileoffset ext = entry_end \<and> ext_partition entry = ext_partition ext \<and>
     byteoffset_end entry mod blocksize = 0 \<and>
     u64 (ext_block entry + byteoffset_end entry div blocksize) = ext_block ext \<and>
     byteoffset ext = 0"

text \<open>
  The loop of \<open>_ltfs_fsraw_add_extent_unlocked\<close>, which walks the list from its tail.  \<open>front\<close> holds
  the entries not visited yet, last one first, \<open>tail\<close> the list behind them.  The result is the list,
  the new real size and whether the extent has been put in; \<open>None\<close> is the failed allocation of the
  third extent of a split, with the list as it is then.
\<close>

fun add_extent_loop ::
  "nat \<Rightarrow> bool \<Rightarrow> extent_info \<Rightarrow> extent_info list \<Rightarrow> extent_info list \<Rightarrow> nat \<Rightarrow>
   extent_info list \<times> (nat \<times> bool) option" where
  "add_extent_loop blocksize split_ok ext [] tail realsize_new = (tail, Some (realsize_new, False))"
| "add_extent_loop blocksize split_ok ext (entry # front) tail realsize_new =
     (let ext_end = fileoffset_end ext;
          entry_end = fileoffset_end entry;
          finish = (\<lambda>entry entry_end tail realsize_new.
            if continues blocksize entry entry_end ext
            then (rev front @ entry\<lparr>bytecount := u64 (bytecount entry + bytecount ext)\<rparr> # tail,
                  Some (u64 (realsize_new + bytecount ext), True))
            else if entry_end \<le> fileoffset ext
            then (rev front @ entry # ext # tail, Some (u64 (realsize_new + bytecount ext), True))
            else add_extent_loop blocksize split_ok ext front (entry # tail) realsize_new) in
      if fileoffset ext \<le> fileoffset entry \<and> fileoffset entry < ext_end then
        if entry_end \<le> ext_end
        then add_extent_loop blocksize split_ok ext front tail (u64_sub realsize_new (bytecount entry))
        else let diff = u64_sub ext_end (fileoffset entry) in
             finish (cut_front blocksize diff entry) entry_end tail (u64_sub realsize_new diff)
      else if fileoffset entry < fileoffset ext \<and> fileoffset ext < entry_end then
        if entry_end \<le> ext_end
        then let entry' = entry\<lparr>bytecount := u64_sub (fileoffset ext) (fileoffset entry)\<rparr> in
             finish entry' (fileoffset_end entry') tail
               (u64_sub realsize_new (u64_sub entry_end (fileoffset ext)))
        else if \<not> split_ok then (rev front @ entry # tail, None)
        else let diff = u64_sub ext_end (fileoffset entry);
                 splitentry = (cut_front blocksize diff entry)\<lparr>fileoffset := ext_end\<rparr>;
                 entry' = entry\<lparr>bytecount := u64_sub (fileoffset ext) (fileoffset entry)\<rparr> in
             finish entry' (fileoffset_end entry') (splitentry # tail)
               (u64_sub realsize_new (bytecount ext))
      else finish entry entry_end tail realsize_new)"

text \<open>
  The loop of \<open>ltfs_fsraw_truncate\<close>, which removes or shortens the extents behind the new end.
\<close>

fun truncate_loop ::
  "nat \<Rightarrow> extent_info list \<Rightarrow> extent_info list \<Rightarrow> nat \<Rightarrow> extent_info list \<times> nat" where
  "truncate_loop ulength [] tail new_realsize = (tail, new_realsize)"
| "truncate_loop ulength (entry # front) tail new_realsize =
     (let last = fileoffset_end entry in
      if ulength \<le> fileoffset entry \<or> ulength = 0
      then truncate_loop ulength front tail (u64_sub new_realsize (bytecount entry))
      else if ulength < last
      then truncate_loop ulength front
             (entry\<lparr>bytecount := u64_sub ulength (fileoffset entry)\<rparr> # tail)
             (u64_sub new_realsize (u64_sub last ulength))
      else (rev front @ entry # tail, new_realsize))"

section \<open>What an extent list stands for\<close>

definition covers :: "extent_info \<Rightarrow> nat \<Rightarrow> bool" where
  "covers e i \<longleftrightarrow> fileoffset e \<le> i \<and> i < fileoffset e + bytecount e"

definition addr :: "nat \<Rightarrow> extent_info \<Rightarrow> nat \<Rightarrow> char \<times> nat" where
  "addr blocksize e i = (ext_partition e, ext_block e * blocksize + byteoffset e + (i - fileoffset e))"

fun byte_loc :: "nat \<Rightarrow> extent_info list \<Rightarrow> nat \<Rightarrow> (char \<times> nat) option" where
  "byte_loc blocksize [] i = None"
| "byte_loc blocksize (e # es) i = (if covers e i then Some (addr blocksize e i) else byte_loc blocksize es i)"

text \<open>
  File offsets come from an \<open>off_t\<close> and are below \<open>2 ^ 63\<close>; block numbers do not run past 64 bits.
\<close>

definition max_off :: nat where
  "max_off = 9223372036854775808"

definition ext_ok :: "nat \<Rightarrow> extent_info \<Rightarrow> bool" where
  "ext_ok blocksize e \<longleftrightarrow> fileoffset e + bytecount e < max_off \<and> byteoffset e < two32 \<and>
     ext_block e + (byteoffset e + bytecount e) div blocksize < two64"

text \<open>The extents are in the order of the file and do not overlap.\<close>

definition precedes :: "extent_info \<Rightarrow> extent_info \<Rightarrow> bool" where
  "precedes e e' \<longleftrightarrow> fileoffset e + bytecount e \<le> fileoffset e'"

definition wf_extents :: "nat \<Rightarrow> extent_info list \<Rightarrow> bool" where
  "wf_extents blocksize es \<longleftrightarrow> list_all (ext_ok blocksize) es \<and> sorted_wrt precedes es"

definition ext_bytes :: "extent_info list \<Rightarrow> nat" where
  "ext_bytes es = sum_list (map bytecount es)"

lemma max_off_less: "max_off + two32 < two64" "n < max_off \<Longrightarrow> n < two64"
  by (simp_all add: max_off_def two32_def two64_def)

lemma ext_ok_bounds:
  assumes "ext_ok blocksize e"
  shows "fileoffset e + bytecount e < two64" "byteoffset e + bytecount e < two64"
  using assms max_off_less by (auto simp: ext_ok_def)

lemma ends [u64_simps]:
  "ext_ok blocksize e \<Longrightarrow> fileoffset_end e = fileoffset e + bytecount e"
  "ext_ok blocksize e \<Longrightarrow> byteoffset_end e = byteoffset e + bytecount e"
  by (simp_all add: fileoffset_end_def byteoffset_end_def ext_ok_bounds u64_id)

lemma byte_loc_Some:
  "wf_extents blocksize es \<Longrightarrow>
   byte_loc blocksize es i = Some a \<longleftrightarrow> (\<exists>e \<in> set es. covers e i \<and> a = addr blocksize e i)"
proof (induction es)
  case (Cons e es)
  have "\<not> covers e' i" if "covers e i" "e' \<in> set es" for e'
    using Cons.prems that by (auto simp: wf_extents_def precedes_def covers_def)
  with Cons show ?case by (auto simp: wf_extents_def)
qed simp

lemma byte_loc_eqI:
  assumes "wf_extents blocksize es" "wf_extents blocksize es'"
    "\<And>a. (\<exists>e \<in> set es'. covers e i \<and> a = addr blocksize e i) \<longleftrightarrow>
      (if covers x i then a = addr blocksize x i else \<exists>e \<in> set es. covers e i \<and> a = addr blocksize e i)"
  shows "byte_loc blocksize es' i = (if covers x i then Some (addr blocksize x i) else byte_loc blocksize es i)"
proof -
  have "byte_loc blocksize es' i = Some a \<longleftrightarrow>
      (if covers x i then Some (addr blocksize x i) else byte_loc blocksize es i) = Some a" for a
    using assms byte_loc_Some by (auto split: if_split_asm)
  then show ?thesis by (metis not_Some_eq)
qed

lemma wf_extents_Cons: "wf_extents bs (e # es) \<longleftrightarrow>
   ext_ok bs e \<and> wf_extents bs es \<and> (\<forall>x \<in> set es. precedes e x)"
  by (auto simp: wf_extents_def)

lemma wf_extents_append: "wf_extents bs (xs @ ys) \<longleftrightarrow>
   wf_extents bs xs \<and> wf_extents bs ys \<and> (\<forall>x \<in> set xs. \<forall>y \<in> set ys. precedes x y)"
  by (auto simp: wf_extents_def sorted_wrt_append)

lemma ext_bytes_simps [simp]:
  "ext_bytes [] = 0" "ext_bytes (e # es) = bytecount e + ext_bytes es"
  "ext_bytes (es @ es') = ext_bytes es + ext_bytes es'" "ext_bytes (rev es) = ext_bytes es"
  by (simp_all add: ext_bytes_def rev_map [symmetric])

text \<open>The bytes of disjoint extents fit into 64 bits.\<close>

lemma ext_bytes_bound:
  "wf_extents bs es \<Longrightarrow> \<forall>e \<in> set es. lo \<le> fileoffset e \<Longrightarrow> lo < max_off \<Longrightarrow> lo + ext_bytes es < max_off"
proof (induction es arbitrary: lo)
  case (Cons e es)
  have "fileoffset e + bytecount e + ext_bytes es < max_off"
    using Cons.prems by (intro Cons.IH) (auto simp: wf_extents_Cons precedes_def ext_ok_def)
  with Cons.prems show ?case by auto
qed simp

lemma cut_front_ok:
  assumes "ext_ok bs e" "diff \<le> bytecount e" "0 < bs" "bs < two32"
  shows "ext_ok bs (cut_front bs diff e)" "fileoffset (cut_front bs diff e) = fileoffset e + diff"
    "bytecount (cut_front bs diff e) = bytecount e - diff"
    "ext_partition (cut_front bs diff e) = ext_partition e"
    "fileoffset e + diff \<le> i \<Longrightarrow> addr bs (cut_front bs diff e) i = addr bs e i"
proof -
  let ?m = "diff + byteoffset e"
  have m: "u64 ?m = ?m" "u32 (?m mod bs) = ?m mod bs" "u64 (fileoffset e + diff) = fileoffset e + diff"
      "u64_sub (bytecount e) diff = bytecount e - diff"
    using assms ext_ok_bounds [OF assms(1)]
    by (auto simp: u64_id u32_id u64_sub_id less_trans [OF mod_less_divisor])
  have "?m div bs \<le> (byteoffset e + bytecount e) div bs" using assms(2) by (intro div_le_mono) simp
  then have blk: "u64 (ext_block e + ?m div bs) = ext_block e + ?m div bs"
    using assms(1) by (auto simp: ext_ok_def intro!: u64_id)
  obtain r where r: "bytecount e = diff + r" using assms(2) le_Suc_ex by blast
  have "byteoffset e + bytecount e = (?m mod bs + r) + ?m div bs * bs" by (simp add: r)
  then have "(byteoffset e + bytecount e) div bs = ?m div bs + (?m mod bs + r) div bs"
    using assms(3) by (simp only: div_mult_self1)
  moreover have "?m mod bs < two32" using assms(3,4) by (meson less_trans mod_less_divisor)
  ultimately show "ext_ok bs (cut_front bs diff e)"
    using assms(1) m blk by (auto simp: ext_ok_def cut_front_def Let_def r)
  show "fileoffset (cut_front bs diff e) = fileoffset e + diff"
    "bytecount (cut_front bs diff e) = bytecount e - diff"
    "ext_partition (cut_front bs diff e) = ext_partition e"
    using m by (simp_all add: cut_front_def Let_def)
  show "addr bs (cut_front bs diff e) i = addr bs e i" if "fileoffset e + diff \<le> i"
  proof -
    have "?m div bs * bs + ?m mod bs = ?m" by simp
    with that m blk show ?thesis by (simp add: addr_def cut_front_def Let_def add_mult_distrib)
  qed
qed


section \<open>Adding an extent\<close>

text \<open>
  The state of the loop: the entries visited so far start behind the new extent.  \<open>added\<close> says what
  has been reached when the loop ends, the new extent still to be put in front of the list if it has
  not been used.
\<close>

definition add_pre :: "nat \<Rightarrow> extent_info \<Rightarrow> extent_info list \<Rightarrow> extent_info list \<Rightarrow> nat \<Rightarrow> bool" where
  "add_pre bs ext front tail realsize \<longleftrightarrow> 0 < bs \<and> bs < two32 \<and> ext_ok bs ext \<and>
     wf_extents bs (rev front @ tail) \<and> (\<forall>e \<in> set tail. precedes ext e) \<and>
     realsize = ext_bytes (rev front @ tail)"

definition bounded :: "nat \<Rightarrow> extent_info list \<Rightarrow> bool" where
  "bounded m es \<longleftrightarrow> (\<forall>e \<in> set es. fileoffset e + bytecount e \<le> m)"

definition added :: "nat \<Rightarrow> extent_info \<Rightarrow> extent_info list \<Rightarrow> extent_info list \<Rightarrow> nat \<Rightarrow> bool" where
  "added bs ext es es' realsize \<longleftrightarrow> wf_extents bs es' \<and> realsize = ext_bytes es' \<and>
     (\<forall>i. byte_loc bs es' i = (if covers ext i then Some (addr bs ext i) else byte_loc bs es i)) \<and>
     (\<forall>m. bounded m (ext # es) \<longrightarrow> bounded m es')"

text \<open>What each round leaves of the list for the next: nothing outside the new extent has moved.\<close>

definition trimmed :: "nat \<Rightarrow> extent_info \<Rightarrow> extent_info list \<Rightarrow> extent_info list \<Rightarrow> bool" where
  "trimmed bs ext es es' \<longleftrightarrow> (\<forall>i. \<not> covers ext i \<longrightarrow> byte_loc bs es' i = byte_loc bs es i) \<and>
     (\<forall>m. bounded m (ext # es) \<longrightarrow> bounded m es')"

lemma bounded_simps [simp]:
  "bounded m []" "bounded m (e # es) \<longleftrightarrow> fileoffset e + bytecount e \<le> m \<and> bounded m es"
  "bounded m (es @ es') \<longleftrightarrow> bounded m es \<and> bounded m es'" "bounded m (rev es) = bounded m es"
  by (auto simp: bounded_def)

lemma addedI:
  assumes "wf_extents bs es" "wf_extents bs es'" "realsize = ext_bytes es'"
    "\<And>i a. (\<exists>e \<in> set es'. covers e i \<and> a = addr bs e i) \<longleftrightarrow>
      (if covers ext i then a = addr bs ext i else \<exists>e \<in> set es. covers e i \<and> a = addr bs e i)"
    "\<And>m. bounded m (ext # es) \<Longrightarrow> bounded m es'"
  shows "added bs ext es es' realsize"
  using assms byte_loc_eqI [OF assms(1,2)] unfolding added_def by blast

lemma added_trans: "trimmed bs ext es es1 \<Longrightarrow> added bs ext es1 es2 r \<Longrightarrow> added bs ext es es2 r"
  by (auto simp: added_def trimmed_def)

lemma trimmed_refl: "trimmed bs ext es es"
  by (simp add: trimmed_def)

lemma addr_front: "addr bs (e\<lparr>bytecount := n\<rparr>) = addr bs e"
  by (simp add: addr_def fun_eq_iff)

lemma ext_ok_shorter: "ext_ok bs e \<Longrightarrow> n \<le> bytecount e \<Longrightarrow> ext_ok bs (e\<lparr>bytecount := n\<rparr>)"
proof -
  assume "ext_ok bs e" "n \<le> bytecount e"
  then have "(byteoffset e + n) div bs \<le> (byteoffset e + bytecount e) div bs" by (intro div_le_mono) simp
  with \<open>ext_ok bs e\<close> \<open>n \<le> bytecount e\<close> show ?thesis by (auto simp: ext_ok_def)
qed

text \<open>The extent that continues an entry makes one extent with it.\<close>

lemma continues_merge:
  assumes "continues bs e (fileoffset e + bytecount e) ext" "ext_ok bs e" "ext_ok bs ext" "0 < bs"
  shows "ext_ok bs (e\<lparr>bytecount := bytecount e + bytecount ext\<rparr>)"
    "covers (e\<lparr>bytecount := bytecount e + bytecount ext\<rparr>) i \<longleftrightarrow> covers e i \<or> covers ext i"
    "covers ext i \<Longrightarrow> addr bs e i = addr bs ext i"
proof -
  have c: "fileoffset ext = fileoffset e + bytecount e" "ext_partition e = ext_partition ext"
      "(byteoffset e + bytecount e) mod bs = 0" "byteoffset ext = 0"
      "ext_block ext = ext_block e + (byteoffset e + bytecount e) div bs"
    using assms(1,2) by (auto simp: continues_def ends [OF assms(2)] ext_ok_def u64_id)
  have whole: "(byteoffset e + bytecount e) div bs * bs = byteoffset e + bytecount e"
    using c(3) by auto
  have "(byteoffset e + (bytecount e + bytecount ext)) div bs =
      (bytecount ext + (byteoffset e + bytecount e) div bs * bs) div bs"
    unfolding whole by (simp add: ac_simps)
  also have "\<dots> = (byteoffset e + bytecount e) div bs + bytecount ext div bs" using assms(4) by simp
  finally show "ext_ok bs (e\<lparr>bytecount := bytecount e + bytecount ext\<rparr>)"
    using assms(2,3) c by (auto simp: ext_ok_def)
  show "covers (e\<lparr>bytecount := bytecount e + bytecount ext\<rparr>) i \<longleftrightarrow> covers e i \<or> covers ext i"
    using c(1) by (auto simp: covers_def)
  show "addr bs e i = addr bs ext i" if "covers ext i"
    using that c whole by (auto simp: addr_def covers_def add_mult_distrib)
qed

lemma byte_loc_cong:
  assumes "wf_extents bs es" "wf_extents bs es'"
    "\<And>a. (\<exists>e \<in> set es. covers e i \<and> a = addr bs e i) \<longleftrightarrow> (\<exists>e \<in> set es'. covers e i \<and> a = addr bs e i)"
  shows "byte_loc bs es i = byte_loc bs es' i"
proof -
  have "byte_loc bs es i = Some a \<longleftrightarrow> byte_loc bs es' i = Some a" for a
    using assms by (simp add: byte_loc_Some)
  then show ?thesis by (metis not_Some_eq)
qed

text \<open>The replacement of one entry of a list by others that say the same where it matters.\<close>

lemma byte_loc_replace:
  assumes "wf_extents bs (xs @ ms @ ys)" "wf_extents bs (xs @ ms' @ ys)"
    "\<And>a. (\<exists>e \<in> set ms. covers e i \<and> a = addr bs e i) \<longleftrightarrow> (\<exists>e \<in> set ms'. covers e i \<and> a = addr bs e i)"
  shows "byte_loc bs (xs @ ms @ ys) i = byte_loc bs (xs @ ms' @ ys) i"
  by (rule byte_loc_cong [OF assms(1,2)]) (simp only: set_append bex_Un assms(3))

lemma put_behind:
  assumes "wf_extents bs (xs @ e # ys)" "ext_ok bs ext" "precedes e ext" "\<forall>y \<in> set ys. precedes ext y" "0 < bs"
  shows "added bs ext (xs @ e # ys) (xs @ e # ext # ys) (ext_bytes (xs @ e # ys) + bytecount ext)"
    "continues bs e (fileoffset e + bytecount e) ext \<Longrightarrow>
     added bs ext (xs @ e # ys) (xs @ e\<lparr>bytecount := bytecount e + bytecount ext\<rparr> # ys)
       (ext_bytes (xs @ e # ys) + bytecount ext)"
proof -
  have xs: "\<forall>x \<in> set xs. precedes x ext"
    using assms(1,3) by (fastforce simp: wf_extents_append precedes_def)
  have nocov: "covers ext i \<Longrightarrow> z \<in> set (xs @ e # ys) \<Longrightarrow> \<not> covers z i" for i z
    using xs assms(3,4) by (fastforce simp: precedes_def covers_def)
  show "added bs ext (xs @ e # ys) (xs @ e # ext # ys) (ext_bytes (xs @ e # ys) + bytecount ext)"
  proof (rule addedI [OF assms(1)])
    show "wf_extents bs (xs @ e # ext # ys)"
      using assms xs by (auto simp: wf_extents_append wf_extents_Cons)
    show "(\<exists>z \<in> set (xs @ e # ext # ys). covers z i \<and> a = addr bs z i) \<longleftrightarrow>
      (if covers ext i then a = addr bs ext i else \<exists>z \<in> set (xs @ e # ys). covers z i \<and> a = addr bs z i)" for i a
      using nocov [of i] by auto
  qed simp_all
  assume c: "continues bs e (fileoffset e + bytecount e) ext"
  have "ext_ok bs e" using assms(1) by (simp add: wf_extents_append wf_extents_Cons)
  note m = continues_merge [OF c this assms(2,5)]
  have end': "fileoffset ext = fileoffset e + bytecount e" using c by (simp add: continues_def)
  show "added bs ext (xs @ e # ys) (xs @ e\<lparr>bytecount := bytecount e + bytecount ext\<rparr> # ys)
       (ext_bytes (xs @ e # ys) + bytecount ext)"
  proof (rule addedI [OF assms(1)])
    show "wf_extents bs (xs @ e\<lparr>bytecount := bytecount e + bytecount ext\<rparr> # ys)"
      using assms(1,4) m(1) end' by (auto simp: wf_extents_append wf_extents_Cons precedes_def)
    show "(\<exists>z \<in> set (xs @ e\<lparr>bytecount := bytecount e + bytecount ext\<rparr> # ys). covers z i \<and> a = addr bs z i) \<longleftrightarrow>
      (if covers ext i then a = addr bs ext i else \<exists>z \<in> set (xs @ e # ys). covers z i \<and> a = addr bs z i)" for i a
      using nocov [of i] m(2) [of i] m(3) [of i] by (auto simp: addr_front)
  qed (simp_all add: end')
qed

text \<open>The last step of the loop when the entry ends before the new extent.\<close>

definition put_in ::
  "nat \<Rightarrow> extent_info \<Rightarrow> extent_info list \<Rightarrow> extent_info \<Rightarrow> extent_info list \<Rightarrow> nat \<Rightarrow>
   extent_info list \<times> (nat \<times> bool) option" where
  "put_in bs ext front e tail rs =
     (if continues bs e (fileoffset e + bytecount e) ext
      then (rev front @ e\<lparr>bytecount := u64 (bytecount e + bytecount ext)\<rparr> # tail, Some (u64 (rs + bytecount ext), True))
      else (rev front @ e # ext # tail, Some (u64 (rs + bytecount ext), True)))"

lemma put_in_added:
  assumes "add_pre bs ext (e # front) tail rs" "precedes e ext" "put_in bs ext front e tail rs = (es', Some (rs', used))"
  shows "used \<and> added bs ext (rev front @ e # tail) es' rs'"
proof -
  have wf: "wf_extents bs (rev front @ e # tail)" "ext_ok bs ext" "\<forall>y \<in> set tail. precedes ext y" "0 < bs"
    and rs: "rs = ext_bytes (rev front @ e # tail)"
    using assms(1) by (simp_all add: add_pre_def)
  note p = put_behind [OF wf(1,2) assms(2) wf(3,4)]
  have "wf_extents bs (rev front @ e # ext # tail)" using p(1) by (simp add: added_def)
  then have "ext_bytes (rev front @ e # ext # tail) < max_off"
    using ext_bytes_bound [of bs "rev front @ e # ext # tail" 0] by (simp add: max_off_def)
  then have b: "rs + bytecount ext < two64" "bytecount e + bytecount ext < two64"
    using max_off_less(2) rs by auto
  show ?thesis
    using assms(3) p b rs by (auto simp: put_in_def u64_id split: if_split_asm)
qed

lemma add_preD:
  assumes "add_pre bs ext (entry # front) tail rs"
  shows "0 < bs" "bs < two32" "ext_ok bs ext" "ext_ok bs entry" "wf_extents bs (rev front @ [entry] @ tail)"
    "wf_extents bs (rev front @ tail)" "\<forall>e \<in> set tail. precedes ext e"
    "rs = ext_bytes front + bytecount entry + ext_bytes tail" "rs < two64"
proof -
  show wf: "wf_extents bs (rev front @ [entry] @ tail)" using assms by (simp add: add_pre_def)
  show "0 < bs" "bs < two32" "ext_ok bs ext" "\<forall>e \<in> set tail. precedes ext e"
    and rs: "rs = ext_bytes front + bytecount entry + ext_bytes tail"
    using assms by (simp_all add: add_pre_def)
  show "ext_ok bs entry" "wf_extents bs (rev front @ tail)"
    using wf by (simp_all add: wf_extents_append wf_extents_Cons)
  show "rs < two64"
    using rs ext_bytes_bound [OF wf, of 0] max_off_less(2) by (simp add: max_off_def)
qed

text \<open>The replacement of the current entry by its remains before and behind the new extent.\<close>

lemma entry_replaced:
  assumes "wf_extents bs (rev front @ [entry] @ tail)" "list_all (ext_ok bs) es" "sorted_wrt precedes es"
    "\<And>e. e \<in> set es \<Longrightarrow> fileoffset entry \<le> fileoffset e \<and>
       fileoffset e + bytecount e \<le> fileoffset entry + bytecount entry"
  shows "wf_extents bs (rev front @ es @ tail)"
  using assms by (fastforce simp: wf_extents_def sorted_wrt_append precedes_def)

lemma trimmedI:
  assumes "add_pre bs ext (entry # front) tail rs" "wf_extents bs (rev front @ es @ tail)"
    "\<And>i a. \<not> covers ext i \<Longrightarrow>
      (\<exists>e \<in> set es. covers e i \<and> a = addr bs e i) \<longleftrightarrow> covers entry i \<and> a = addr bs entry i"
    "\<And>e. e \<in> set es \<Longrightarrow> fileoffset e + bytecount e \<le> fileoffset entry + bytecount entry"
    "es' = rev front @ es @ tail"
  shows "trimmed bs ext (rev front @ entry # tail) es'"
proof -
  have "byte_loc bs (rev front @ es @ tail) i = byte_loc bs (rev front @ [entry] @ tail) i" if "\<not> covers ext i" for i
    by (rule byte_loc_replace [OF assms(2) add_preD(5) [OF assms(1)]]) (use assms(3) [OF that] in simp)
  then show ?thesis using assms(4,5) by (auto simp: trimmed_def bounded_def intro: order_trans)
qed

text \<open>
  The rounds of the loop: an entry inside the new extent goes away; one that reaches behind it is
  cut at its front; one that starts before it is cut at its end, and in two if it also reaches
  behind it; the others stay.
\<close>

lemma del_step:
  assumes pre: "add_pre bs ext (entry # front) tail rs"
    and "fileoffset ext \<le> fileoffset entry" "fileoffset entry < fileoffset ext + bytecount ext"
      "fileoffset entry + bytecount entry \<le> fileoffset ext + bytecount ext"
  shows "add_extent_loop bs split_ok ext (entry # front) tail rs =
      add_extent_loop bs split_ok ext front tail (rs - bytecount entry)"
    "add_pre bs ext front tail (rs - bytecount entry)"
    "trimmed bs ext (rev front @ entry # tail) (rev front @ tail)"
proof -
  note p = add_preD [OF pre]
  have "u64_sub rs (bytecount entry) = rs - bytecount entry" using p(8,9) by (simp add: u64_sub_id)
  then show "add_extent_loop bs split_ok ext (entry # front) tail rs =
      add_extent_loop bs split_ok ext front tail (rs - bytecount entry)"
    using assms(2-4) by (simp add: Let_def ends [OF p(3)] ends [OF p(4)])
  show "add_pre bs ext front tail (rs - bytecount entry)" using p by (simp add: add_pre_def)
  show "trimmed bs ext (rev front @ entry # tail) (rev front @ tail)"
    by (rule trimmedI [OF pre, of "[]"]) (use p(6) assms(2-4) in \<open>auto simp: covers_def\<close>)
qed

lemma cut_step:
  assumes pre: "add_pre bs ext (entry # front) tail rs"
    and c: "fileoffset ext \<le> fileoffset entry" "fileoffset entry < fileoffset ext + bytecount ext"
      "fileoffset ext + bytecount ext < fileoffset entry + bytecount entry"
    and d: "d = fileoffset ext + bytecount ext - fileoffset entry" and e: "e = cut_front bs d entry"
  shows "add_extent_loop bs split_ok ext (entry # front) tail rs =
      add_extent_loop bs split_ok ext front (e # tail) (rs - d)"
    "add_pre bs ext front (e # tail) (rs - d)"
    "trimmed bs ext (rev front @ entry # tail) (rev front @ e # tail)"
proof -
  note p = add_preD [OF pre]
  have d': "u64_sub (fileoffset ext + bytecount ext) (fileoffset entry) = d" "d \<le> bytecount entry" "u64_sub rs d = rs - d"
    using c p(8,9) ext_ok_bounds [OF p(3)] by (auto simp: u64_sub_id d)
  note f = cut_front_ok [OF p(4) d'(2) p(1,2), folded e]
  show "add_extent_loop bs split_ok ext (entry # front) tail rs =
      add_extent_loop bs split_ok ext front (e # tail) (rs - d)"
    using c d' by (simp add: Let_def continues_def ends [OF p(3)] ends [OF p(4)] e)
  have wf: "wf_extents bs (rev front @ [e] @ tail)"
    using c d by (intro entry_replaced [OF p(5)]) (auto simp: f)
  then show "add_pre bs ext front (e # tail) (rs - d)"
    using p f c d by (auto simp: add_pre_def precedes_def)
  show "trimmed bs ext (rev front @ entry # tail) (rev front @ e # tail)"
    by (rule trimmedI [OF pre wf]) (use f c d in \<open>auto simp: covers_def\<close>)
qed

lemma trunc_step:
  assumes pre: "add_pre bs ext (entry # front) tail rs"
    and c: "fileoffset entry < fileoffset ext" "fileoffset ext < fileoffset entry + bytecount entry"
      "fileoffset entry + bytecount entry \<le> fileoffset ext + bytecount ext"
    and d: "d = fileoffset entry + bytecount entry - fileoffset ext"
    and e: "e = entry\<lparr>bytecount := fileoffset ext - fileoffset entry\<rparr>"
  shows "add_extent_loop bs split_ok ext (entry # front) tail rs = put_in bs ext front e tail (rs - d)"
    "add_pre bs ext (e # front) tail (rs - d)" "precedes e ext"
    "trimmed bs ext (rev front @ entry # tail) (rev front @ e # tail)"
proof -
  note p = add_preD [OF pre]
  have d': "u64_sub (fileoffset ext) (fileoffset entry) = fileoffset ext - fileoffset entry"
      "u64_sub (fileoffset entry + bytecount entry) (fileoffset ext) = d" "u64_sub rs d = rs - d"
    using c p(8,9) ext_ok_bounds [OF p(3)] ext_ok_bounds [OF p(4)] by (auto simp: u64_sub_id d)
  have ok: "ext_ok bs e" unfolding e using c p(4) by (intro ext_ok_shorter) auto
  have end': "fileoffset_end e = fileoffset ext" "fileoffset e + bytecount e = fileoffset ext"
    using ends(1) [OF ok] c by (simp_all add: e)
  show "add_extent_loop bs split_ok ext (entry # front) tail rs = put_in bs ext front e tail (rs - d)"
    using c d' end' unfolding e by (simp add: Let_def put_in_def ends [OF p(3)] ends [OF p(4)])
  have wf: "wf_extents bs (rev front @ [e] @ tail)"
    using c ok by (intro entry_replaced [OF p(5)]) (auto simp: e)
  then show "add_pre bs ext (e # front) tail (rs - d)"
    using p c d by (auto simp: add_pre_def e)
  show "precedes e ext" using end' by (simp add: precedes_def)
  show "trimmed bs ext (rev front @ entry # tail) (rev front @ e # tail)"
    by (rule trimmedI [OF pre wf]) (use c in \<open>auto simp: covers_def e addr_front\<close>)
qed

lemma split_step:
  assumes pre: "add_pre bs ext (entry # front) tail rs"
    and c: "fileoffset entry < fileoffset ext" "fileoffset ext < fileoffset entry + bytecount entry"
      "fileoffset ext + bytecount ext < fileoffset entry + bytecount entry"
    and e: "e = entry\<lparr>bytecount := fileoffset ext - fileoffset entry\<rparr>"
    and s: "s = cut_front bs (fileoffset ext + bytecount ext - fileoffset entry) entry"
  shows "add_extent_loop bs True ext (entry # front) tail rs = put_in bs ext front e (s # tail) (rs - bytecount ext)"
    "add_pre bs ext (e # front) (s # tail) (rs - bytecount ext)" "precedes e ext"
    "trimmed bs ext (rev front @ entry # tail) (rev front @ e # s # tail)"
proof -
  note p = add_preD [OF pre]
  let ?d = "fileoffset ext + bytecount ext - fileoffset entry"
  have d': "u64_sub (fileoffset ext + bytecount ext) (fileoffset entry) = ?d" "?d \<le> bytecount entry"
      "u64_sub (fileoffset ext) (fileoffset entry) = fileoffset ext - fileoffset entry"
      "u64_sub rs (bytecount ext) = rs - bytecount ext"
    using c p(8,9) ext_ok_bounds [OF p(3)] by (auto simp: u64_sub_id)
  note f = cut_front_ok [OF p(4) d'(2) p(1,2), folded s]
  have s': "s\<lparr>fileoffset := fileoffset ext + bytecount ext\<rparr> = s" using f(2) c by simp
  have ok: "ext_ok bs e" unfolding e using c p(4) by (intro ext_ok_shorter) auto
  have end': "fileoffset_end e = fileoffset ext" "fileoffset e + bytecount e = fileoffset ext"
    using ends(1) [OF ok] c by (simp_all add: e)
  show "add_extent_loop bs True ext (entry # front) tail rs = put_in bs ext front e (s # tail) (rs - bytecount ext)"
    using c d' end' s' unfolding e s by (simp add: Let_def put_in_def ends [OF p(3)] ends [OF p(4)])
  have wf: "wf_extents bs (rev front @ [e, s] @ tail)"
    using c ok f by (intro entry_replaced [OF p(5)]) (auto simp: e precedes_def)
  then show "add_pre bs ext (e # front) (s # tail) (rs - bytecount ext)"
    using p c f by (auto simp: add_pre_def precedes_def e)
  show "precedes e ext" using end' by (simp add: precedes_def)
  show "trimmed bs ext (rev front @ entry # tail) (rev front @ e # s # tail)"
    by (rule trimmedI [OF pre wf]) (use c f in \<open>auto simp: covers_def e addr_front\<close>)
qed

lemma keep_step:
  assumes pre: "add_pre bs ext (entry # front) tail rs"
  shows "fileoffset entry + bytecount entry \<le> fileoffset ext \<Longrightarrow>
      fileoffset entry < fileoffset ext \<or> fileoffset ext + bytecount ext \<le> fileoffset entry \<Longrightarrow>
      add_extent_loop bs split_ok ext (entry # front) tail rs = put_in bs ext front entry tail rs"
    "fileoffset ext + bytecount ext \<le> fileoffset entry \<Longrightarrow> fileoffset ext < fileoffset entry + bytecount entry \<Longrightarrow>
      add_extent_loop bs split_ok ext (entry # front) tail rs = add_extent_loop bs split_ok ext front (entry # tail) rs \<and>
      add_pre bs ext front (entry # tail) rs"
proof -
  note p = add_preD [OF pre]
  show "add_extent_loop bs split_ok ext (entry # front) tail rs = put_in bs ext front entry tail rs"
    if "fileoffset entry + bytecount entry \<le> fileoffset ext"
      "fileoffset entry < fileoffset ext \<or> fileoffset ext + bytecount ext \<le> fileoffset entry"
    using that by (auto simp: Let_def put_in_def ends [OF p(3)] ends [OF p(4)])
  show "add_extent_loop bs split_ok ext (entry # front) tail rs = add_extent_loop bs split_ok ext front (entry # tail) rs \<and>
      add_pre bs ext front (entry # tail) rs"
    if "fileoffset ext + bytecount ext \<le> fileoffset entry" "fileoffset ext < fileoffset entry + bytecount entry"
    using that p by (auto simp: Let_def continues_def ends [OF p(3)] ends [OF p(4)] add_pre_def precedes_def)
qed

lemma add_extent_loop_added:
  assumes "add_pre bs ext front tail rs"
    "add_extent_loop bs split_ok ext front tail rs = (es', Some (rs', used))"
  shows "if used then added bs ext (rev front @ tail) es' rs'
    else added bs ext (rev front @ tail) (ext # es') (rs' + bytecount ext)"
  using assms
proof (induction front arbitrary: tail rs)
  case Nil
  then have "wf_extents bs (ext # tail)" by (auto simp: add_pre_def wf_extents_Cons)
  with Nil show ?case by (auto simp: add_pre_def added_def wf_extents_Cons)
next
  case (Cons entry front)
  note pre = Cons.prems(1) and run = Cons.prems(2)
  have goal: ?case if "if used then added bs ext es es' rs' else added bs ext es (ext # es') (rs' + bytecount ext)"
    "trimmed bs ext (rev front @ entry # tail) es" for es
    using that added_trans [of bs ext _ es] by (auto split: if_split_asm)
  let ?fo = "fileoffset entry" and ?xo = "fileoffset ext"
  let ?fe = "?fo + bytecount entry" and ?xe = "?xo + bytecount ext"
  consider (del) "?xo \<le> ?fo" "?fo < ?xe" "?fe \<le> ?xe" | (cut) "?xo \<le> ?fo" "?fo < ?xe" "?xe < ?fe"
    | (trunc) "?fo < ?xo" "?xo < ?fe" "?fe \<le> ?xe" | (split) "?fo < ?xo" "?xo < ?fe" "?xe < ?fe"
    | (before) "?fe \<le> ?xo" "?fo < ?xo \<or> ?xe \<le> ?fo" | (behind) "?xe \<le> ?fo" "?xo < ?fe"
    by linarith
  then show ?case
  proof cases
    case del
    note st = del_step [OF pre del]
    show ?thesis by (rule goal [OF Cons.IH [OF st(2) run [unfolded st(1)]] st(3)])
  next
    case cut
    note st = cut_step [OF pre cut refl refl]
    show ?thesis by (rule goal [OF Cons.IH [OF st(2) run [unfolded st(1)]] st(3)])
  next
    case trunc
    note st = trunc_step [OF pre trunc refl refl]
    show ?thesis using put_in_added [OF st(2,3) run [unfolded st(1)]] by (intro goal [OF _ st(4)]) simp
  next
    case split
    note st = split_step [OF pre split refl refl]
    have "split_ok" using run split add_preD(3,4) [OF pre] by (auto simp: Let_def ends split: if_split_asm)
    then have "add_extent_loop bs True ext (entry # front) tail rs = (es', Some (rs', used))" using run by simp
    then show ?thesis using put_in_added [OF st(2,3)] unfolding st(1) by (intro goal [OF _ st(4)]) simp
  next
    case before
    then have "precedes entry ext" by (simp add: precedes_def)
    then show ?thesis
      using put_in_added [OF pre _ run [unfolded keep_step(1) [OF pre before]]] by (intro goal [OF _ trimmed_refl]) simp
  next
    case behind
    note st = keep_step(2) [OF pre behind, of split_ok]
    show ?thesis
      by (rule goal [OF Cons.IH [OF conjunct2 [OF st] run [unfolded conjunct1 [OF st]]]]) (simp add: trimmed_refl)
  qed
qed

text \<open>
  A failed allocation leaves the list as it was: an entry that has to be split is the only one the
  new extent overlaps.
\<close>

lemma add_extent_loop_None:
  assumes "add_pre bs ext front tail rs" "add_extent_loop bs split_ok ext front tail rs = (es', None)"
  shows "\<not> split_ok \<and> es' = rev front @ tail \<and>
    (\<exists>e \<in> set front. fileoffset e < fileoffset ext \<and>
       fileoffset ext + bytecount ext < fileoffset e + bytecount e)"
  using assms
proof (induction front arbitrary: tail rs)
  case Nil
  then show ?case by simp
next
  case (Cons entry front)
  note pre = add_preD [OF Cons.prems(1)]
  let ?fo = "fileoffset entry" and ?xo = "fileoffset ext"
  let ?fe = "?fo + bytecount entry" and ?xe = "?xo + bytecount ext"
  note ends' = ends [OF pre(3)] ends [OF pre(4)]
  note lt = ext_ok_bounds [OF pre(3)] ext_ok_bounds [OF pre(4)]
  have no_split: "\<not> (fileoffset e < ?xo \<and> ?xe < fileoffset e + bytecount e)"
    if "e \<in> set front" "?fo < ?xe" for e
    using that pre(5) by (auto simp: wf_extents_append precedes_def)
  consider (del) "?xo \<le> ?fo" "?fo < ?xe" "?fe \<le> ?xe" | (cut) "?xo \<le> ?fo" "?fo < ?xe" "?xe < ?fe"
    | (trunc) "?fo < ?xo" "?xo < ?fe" "?fe \<le> ?xe" | (split) "?fo < ?xo" "?xo < ?fe" "?xe < ?fe"
    | (before) "?fe \<le> ?xo" "?fo < ?xo \<or> ?xe \<le> ?fo" | (behind) "?xe \<le> ?fo" "?xo < ?fe"
    by linarith
  then show ?case
  proof cases
    case del
    have "add_extent_loop bs split_ok ext front tail (u64_sub rs (bytecount entry)) = (es', None)"
      using Cons.prems(2) del ends' by (simp add: Let_def)
    moreover have "add_pre bs ext front tail (u64_sub rs (bytecount entry))"
      using pre Cons.prems(1) by (simp add: add_pre_def u64_sub_id)
    ultimately show ?thesis using Cons.IH no_split del by blast
  next
    case cut
    let ?d = "?xe - ?fo" and ?e = "cut_front bs (?xe - ?fo) entry"
    have d: "u64_sub ?xe ?fo = ?d" "?d \<le> bytecount entry" "u64_sub rs ?d = rs - ?d"
      using cut lt pre(8,9) by (auto simp: u64_sub_id)
    note c = cut_front_ok [OF pre(4) d(2) pre(1,2)]
    have wf: "wf_extents bs (rev front @ [?e] @ tail)"
      using cut by (intro entry_replaced [OF pre(5)]) (auto simp: c)
    have "add_extent_loop bs split_ok ext front (?e # tail) (rs - ?d) = (es', None)"
      using Cons.prems(2) cut ends' d by (simp add: Let_def continues_def)
    moreover have "add_pre bs ext front (?e # tail) (rs - ?d)"
      using pre wf c cut by (auto simp: add_pre_def precedes_def)
    ultimately show ?thesis using Cons.IH no_split cut by blast
  next
    case trunc
    let ?e = "entry\<lparr>bytecount := ?xo - ?fo\<rparr>"
    have "ext_ok bs ?e" using trunc pre(4) by (intro ext_ok_shorter) auto
    moreover have "u64_sub ?xo ?fo = ?xo - ?fo" using trunc lt by (simp add: u64_sub_id)
    ultimately show ?thesis
      using Cons.prems(2) trunc by (simp add: Let_def ends' ends(1) split: if_split_asm)
  next
    case split
    let ?e = "entry\<lparr>bytecount := ?xo - ?fo\<rparr>"
    have "ext_ok bs ?e" using split pre(4) by (intro ext_ok_shorter) auto
    moreover have "u64_sub ?xo ?fo = ?xo - ?fo" using split lt by (simp add: u64_sub_id)
    ultimately show ?thesis
      using Cons.prems(2) split by (auto simp: Let_def ends' ends(1) split: if_split_asm)
  next
    case before
    then show ?thesis using Cons.prems(2) ends' by (auto simp: Let_def split: if_split_asm)
  next
    case behind
    have "add_extent_loop bs split_ok ext front (entry # tail) rs = (es', None)"
      using Cons.prems(2) behind ends' by (simp add: Let_def continues_def)
    moreover have "add_pre bs ext front (entry # tail) rs"
      using pre behind by (auto simp: add_pre_def precedes_def)
    ultimately show ?thesis using Cons.IH by fastforce
  qed
qed

section \<open>Truncating\<close>

definition trunc_pre :: "nat \<Rightarrow> nat \<Rightarrow> extent_info list \<Rightarrow> extent_info list \<Rightarrow> nat \<Rightarrow> bool" where
  "trunc_pre bs len front tail rs \<longleftrightarrow> wf_extents bs (rev front @ tail) \<and> rs = ext_bytes (rev front @ tail) \<and>
     len < max_off \<and> (\<forall>e \<in> set tail. fileoffset e + bytecount e \<le> len)"

lemma trunc_preD:
  assumes "trunc_pre bs len (entry # front) tail rs"
  shows "ext_ok bs entry" "wf_extents bs (rev front @ [entry] @ tail)" "wf_extents bs (rev front @ tail)"
    "rs = ext_bytes front + bytecount entry + ext_bytes tail" "rs < two64" "len < two64"
    "\<forall>e \<in> set tail. fileoffset e + bytecount e \<le> len"
proof -
  show wf: "wf_extents bs (rev front @ [entry] @ tail)" using assms by (simp add: trunc_pre_def)
  then show "ext_ok bs entry" "wf_extents bs (rev front @ tail)"
    by (simp_all add: wf_extents_append wf_extents_Cons)
  show rs: "rs = ext_bytes front + bytecount entry + ext_bytes tail"
    and "len < two64" "\<forall>e \<in> set tail. fileoffset e + bytecount e \<le> len"
    using assms max_off_less(2) by (auto simp: trunc_pre_def)
  show "rs < two64" using rs ext_bytes_bound [OF wf, of 0] max_off_less(2) by (simp add: max_off_def)
qed

lemma byte_loc_past:
  assumes "wf_extents bs es" "\<forall>e \<in> set es. fileoffset e + bytecount e \<le> len" "\<not> i < len"
  shows "byte_loc bs es i = None"
proof (rule ccontr)
  assume "byte_loc bs es i \<noteq> None"
  then obtain e where "e \<in> set es" "covers e i" using byte_loc_Some [OF assms(1)] by auto
  with assms(2,3) show False by (auto simp: covers_def)
qed

lemma truncate_loop_ok:
  assumes "trunc_pre bs len front tail rs" "truncate_loop len front tail rs = (es', rs')"
  shows "wf_extents bs es' \<and> rs' = ext_bytes es' \<and> (\<forall>e \<in> set es'. fileoffset e + bytecount e \<le> len) \<and>
    (\<forall>i. byte_loc bs es' i = (if i < len then byte_loc bs (rev front @ tail) i else None))"
  using assms
proof (induction front arbitrary: tail rs)
  case Nil
  then show ?case using byte_loc_past by (auto simp: trunc_pre_def)
next
  case (Cons entry front)
  note pre = trunc_preD [OF Cons.prems(1)]
  let ?fo = "fileoffset entry"
  let ?fe = "?fo + bytecount entry"
  note lt = ext_ok_bounds [OF pre(1)] and end' = ends(1) [OF pre(1)]
  consider (drop) "len \<le> ?fo" | (cut) "?fo < len" "len < ?fe" | (keep) "?fo < len" "?fe \<le> len" by linarith
  then show ?case
  proof cases
    case drop
    have "truncate_loop len front tail (u64_sub rs (bytecount entry)) = (es', rs')"
      using Cons.prems(2) drop by (simp add: Let_def)
    moreover have "trunc_pre bs len front tail (u64_sub rs (bytecount entry))"
      using pre Cons.prems(1) by (simp add: trunc_pre_def u64_sub_id)
    ultimately have "wf_extents bs es' \<and> rs' = ext_bytes es' \<and> (\<forall>e \<in> set es'. fileoffset e + bytecount e \<le> len) \<and>
      (\<forall>i. byte_loc bs es' i = (if i < len then byte_loc bs (rev front @ tail) i else None))"
      using Cons.IH by blast
    moreover have "byte_loc bs (rev front @ tail) i = byte_loc bs (rev front @ [entry] @ tail) i" if "i < len" for i
      using byte_loc_replace [of bs "rev front" "[]" tail "[entry]" i] pre(2,3) that drop by (auto simp: covers_def)
    ultimately show ?thesis by simp
  next
    case cut
    let ?e = "entry\<lparr>bytecount := len - ?fo\<rparr>"
    have d: "u64_sub len ?fo = len - ?fo" "u64_sub ?fe len = ?fe - len" "u64_sub rs (?fe - len) = rs - (?fe - len)"
      using cut lt pre(4,5,6) by (auto simp: u64_sub_id)
    have ok: "ext_ok bs ?e" using cut pre(1) by (intro ext_ok_shorter) auto
    have wf: "wf_extents bs (rev front @ ?e # tail)"
      using cut ok pre(2) by (fastforce simp: wf_extents_append wf_extents_Cons precedes_def)
    have "truncate_loop len front (?e # tail) (rs - (?fe - len)) = (es', rs')"
      using Cons.prems(2) cut by (simp add: Let_def end' d)
    moreover have "trunc_pre bs len front (?e # tail) (rs - (?fe - len))"
      using pre wf cut Cons.prems(1) by (auto simp: trunc_pre_def)
    ultimately have "wf_extents bs es' \<and> rs' = ext_bytes es' \<and> (\<forall>e \<in> set es'. fileoffset e + bytecount e \<le> len) \<and>
      (\<forall>i. byte_loc bs es' i = (if i < len then byte_loc bs (rev front @ ?e # tail) i else None))"
      using Cons.IH by blast
    moreover have "byte_loc bs (rev front @ ?e # tail) i = byte_loc bs (rev front @ [entry] @ tail) i" if "i < len" for i
      using byte_loc_replace [of bs "rev front" "[?e]" tail "[entry]" i] pre(2) wf that cut
      by (auto simp: covers_def addr_front)
    ultimately show ?thesis by simp
  next
    case keep
    have es': "es' = rev front @ entry # tail" "rs' = rs" using Cons.prems(2) keep end' by (auto simp: Let_def)
    have le: "\<forall>e \<in> set es'. fileoffset e + bytecount e \<le> len"
      using pre(2,7) keep es' by (fastforce simp: wf_extents_append wf_extents_Cons precedes_def)
    moreover have wf: "wf_extents bs es'" using pre(2) es' by simp
    ultimately show ?thesis using es' pre(4) byte_loc_past by auto
  qed
qed

end
