(* ===== verification/TapeOps.thy ===== *)
theory TapeOps
  imports Prelude
begin

text \<open>
  What the tape layers share: the error codes of \<open>src/src/libltfs/ltfs_error.h\<close> that the modelled
  functions return, the tape position \<open>struct tc_position\<close> and the backend interface
  \<open>struct tape_ops\<close> of \<open>src/src/libltfs/tape_ops.h\<close>.

  A C function that returns a negative code or a non-negative value is a function into
  \<open>error + 'a\<close>: \<open>Inl e\<close> stands for the return value \<open>-e\<close>.  A backend function takes the private
  state of the backend and the position the caller passes by reference and returns both, changed,
  beside its result, on the error paths too.  The buffer of a read is passed and returned as well.
  \<open>C_UNDEFINED\<close> is no code of the source: it is the result of a read outside of a buffer, and of a
  loop whose bound in the model is exhausted.
\<close>

datatype (plugins only: code) error =
    LTFS_NULL_ARG | LTFS_NO_MEMORY | LTFS_MUTEX_INVALID | LTFS_MUTEX_UNLOCKED | LTFS_DEVICE_FENCED
  | LTFS_BAD_ARG | LTFS_BAD_PARTNUM | LTFS_BAD_LOCATE | LTFS_LOCATE_ERROR | LTFS_BAD_DEVICE_DATA
  | LTFS_WRITE_PROTECT | LTFS_WRITE_ERROR | LTFS_NO_SPACE | LTFS_LESS_SPACE | LTFS_RDONLY_DEN_DRV
  | LTFS_LARGE_BLOCKSIZE | LTFS_SMALL_BLOCK | LTFS_REVAL_FAILED | LTFS_LABEL_MISMATCH
  | LTFS_LABEL_INVALID | LTFS_UNEXPECTED_VALUE | LTFS_POLICY_EMPTY_RULE | LTFS_POLICY_INVALID
  | LTFS_NAMETOOLONG | LTFS_INVALID_PATH | LTFS_ICU_ERROR | LTFS_XML_EMPTY | LTFS_KEY_NOT_FOUND | LTFS_INVALID_SEQUENCE
  | EDEV_NO_SENSE | EDEV_BOP_DETECTED | EDEV_NOT_READY | EDEV_NEED_INITIALIZE | EDEV_NO_MEDIUM
  | EDEV_RW_PERM | EDEV_CM_PERM | EDEV_MEDIUM_FORMAT_ERROR | EDEV_MEDIUM_FORMAT_CORRUPTED
  | EDEV_READ_PERM | EDEV_WRITE_PERM | EDEV_ILLEGAL_REQUEST | EDEV_INVALID_FIELD_CDB
  | EDEV_MEDIUM_MAY_BE_CHANGED | EDEV_POR_OR_BUS_RESET | EDEV_MEDIUM_REMOVAL_REQ
  | EDEV_RESERVATION_PREEMPTED | EDEV_REGISTRATION_PREEMPTED | EDEV_DATA_PROTECT
  | EDEV_WRITE_PROTECTED | EDEV_WRITE_PROTECTED_WORM | EDEV_EOD_DETECTED | EDEV_EOD_NOT_FOUND
  | EDEV_CRYPTO_ERROR | EDEV_KEY_REQUIRED | EDEV_INTERNAL_ERROR | EDEV_NO_MEMORY
  | EDEV_INVALID_ARG | EDEV_NEED_FAILOVER | EDEV_REAL_POWER_ON_RESET | C_UNDEFINED

definition IS_WRITE_PERM :: "error \<Rightarrow> bool" where
  "IS_WRITE_PERM e \<longleftrightarrow> e = EDEV_RW_PERM \<or> e = EDEV_WRITE_PERM \<or> e = EDEV_MEDIUM_FORMAT_CORRUPTED"

definition NEED_REVAL :: "error \<Rightarrow> bool" where
  "NEED_REVAL e \<longleftrightarrow> e = EDEV_POR_OR_BUS_RESET \<or> e = EDEV_MEDIUM_MAY_BE_CHANGED \<or>
     e = EDEV_RESERVATION_PREEMPTED \<or> e = EDEV_REGISTRATION_PREEMPTED \<or>
     e = EDEV_REAL_POWER_ON_RESET \<or> e = EDEV_NEED_FAILOVER"

definition IS_UNEXPECTED_MOVE :: "error \<Rightarrow> bool" where
  "IS_UNEXPECTED_MOVE e \<longleftrightarrow> e = EDEV_MEDIUM_REMOVAL_REQ"

record tc_position =
  pos_block :: nat
  pos_filemarks :: nat
  pos_partition :: nat
  pos_early_warning :: bool
  pos_programmable_early_warning :: bool

definition TAPE_BLOCK_MAX :: nat where
  "TAPE_BLOCK_MAX = two64 - 1"

record tc_remaining_cap =
  remaining_p0 :: nat
  remaining_p1 :: nat
  max_p0 :: nat
  max_p1 :: nat

datatype format_type = TC_FORMAT_DEFAULT | TC_FORMAT_PARTITION | TC_FORMAT_DEST_PART | TC_FORMAT_MAX

datatype space_type = TC_SPACE_EOD | TC_SPACE_FM_F | TC_SPACE_FM_B | TC_SPACE_F | TC_SPACE_B

type_synonym ('s, 'r) dev_res = "(error + 'r) \<times> tc_position \<times> 's"

record 's tape_ops =
  op_read :: "'s \<Rightarrow> byte list \<Rightarrow> nat \<Rightarrow> tc_position \<Rightarrow> bool \<Rightarrow> (error + nat) \<times> byte list \<times> tc_position \<times> 's"
  op_write :: "'s \<Rightarrow> byte list \<Rightarrow> tc_position \<Rightarrow> ('s, nat) dev_res"
  op_writefm :: "'s \<Rightarrow> nat \<Rightarrow> tc_position \<Rightarrow> bool \<Rightarrow> ('s, unit) dev_res"
  op_rewind :: "'s \<Rightarrow> tc_position \<Rightarrow> ('s, unit) dev_res"
  op_locate :: "'s \<Rightarrow> tc_position \<Rightarrow> tc_position \<Rightarrow> ('s, unit) dev_res"
  op_space :: "'s \<Rightarrow> nat \<Rightarrow> space_type \<Rightarrow> tc_position \<Rightarrow> ('s, unit) dev_res"
  op_erase :: "'s \<Rightarrow> tc_position \<Rightarrow> bool \<Rightarrow> ('s, unit) dev_res"
  op_readpos :: "'s \<Rightarrow> tc_position \<Rightarrow> ('s, unit) dev_res"
  op_remaining_capacity :: "'s \<Rightarrow> tc_remaining_cap \<Rightarrow> (error + unit) \<times> tc_remaining_cap"
  op_is_readonly :: "'s \<Rightarrow> bool"
  op_allow_overwrite :: "'s \<Rightarrow> tc_position \<Rightarrow> error + unit"
  op_format :: "'s \<Rightarrow> format_type \<Rightarrow> (error + unit) \<times> 's"
  op_read_attribute :: "'s \<Rightarrow> nat \<Rightarrow> nat \<Rightarrow> byte list \<Rightarrow> (error + unit) \<times> byte list"
  op_get_worm_status :: "'s \<Rightarrow> error + bool"
  op_get_next_block_to_xfer :: "'s \<Rightarrow> tc_position \<Rightarrow> (error + unit) \<times> tc_position"
  op_write_attribute :: "'s \<Rightarrow> nat \<Rightarrow> byte list \<Rightarrow> (error + unit) \<times> 's"

text \<open>The functions of the same table that load the cartridge and set the drive's modes.\<close>

record 's drive_ops =
  op_load :: "'s \<Rightarrow> tc_position \<Rightarrow> ('s, unit) dev_res"
  op_setcap :: "'s \<Rightarrow> nat \<Rightarrow> (error + unit) \<times> 's"
  op_test_unit_ready :: "'s \<Rightarrow> error + unit"
  op_set_compression :: "'s \<Rightarrow> bool \<Rightarrow> tc_position \<Rightarrow> ('s, unit) dev_res"

lemma TAPE_BLOCK_MAX_less [simp]: "TAPE_BLOCK_MAX < two64"
  using two64_pos by (simp add: TAPE_BLOCK_MAX_def)

lemma not_need_reval [simp]:
  "\<not> NEED_REVAL EDEV_RW_PERM" "\<not> NEED_REVAL EDEV_NO_MEMORY" "\<not> NEED_REVAL EDEV_INVALID_ARG"
  "\<not> NEED_REVAL EDEV_NOT_READY" "\<not> NEED_REVAL EDEV_WRITE_PERM" "\<not> NEED_REVAL LTFS_NO_SPACE"
  "\<not> NEED_REVAL LTFS_LESS_SPACE" "\<not> NEED_REVAL LTFS_BAD_LOCATE" "\<not> NEED_REVAL LTFS_SMALL_BLOCK"
  "\<not> NEED_REVAL LTFS_NO_MEMORY"
  by (simp_all add: NEED_REVAL_def)

section \<open>The contract of a backend\<close>

text \<open>
  What the layers above a backend rely on.  A backend in working order (\<open>good\<close>) stands for a tape:
  \<open>tape_of s p\<close> is the list of the records and filemarks of partition \<open>p\<close>, \<open>at s\<close> the partition and
  block the head is at, \<open>limit s\<close> the largest block it writes, and \<open>roomy s p b\<close> says that block \<open>b\<close> is
  before the early warning zones.  Writing a block or a filemark drops everything behind it.
\<close>

datatype tape_record = Data "byte list" | Filemark

definition keeps_warnings :: "tc_position \<Rightarrow> tc_position \<Rightarrow> bool" where
  "keeps_warnings pos pos' \<longleftrightarrow> pos_early_warning pos' = pos_early_warning pos \<and>
     pos_programmable_early_warning pos' = pos_programmable_early_warning pos"

locale tape_backend =
  fixes ops :: "'s tape_ops"
    and good :: "'s \<Rightarrow> bool"
    and tape_of :: "'s \<Rightarrow> nat \<Rightarrow> tape_record list"
    and at :: "'s \<Rightarrow> nat \<times> nat"
    and limit :: "'s \<Rightarrow> nat"
    and roomy :: "'s \<Rightarrow> nat \<Rightarrow> nat \<Rightarrow> bool"
  assumes at_partition: "good s \<Longrightarrow> at s = (p, b) \<Longrightarrow> p < 2 \<and> b \<le> length (tape_of s p) \<and> b < TAPE_BLOCK_MAX"
    and locate_law: "good s \<Longrightarrow> pos_partition dest < 2 \<Longrightarrow>
      \<exists>pos' s'. op_locate ops s dest pos = (Inr (), pos', s') \<and> good s' \<and> tape_of s' = tape_of s \<and>
        roomy s' = roomy s \<and> limit s' = limit s \<and>
        at s' = (pos_partition dest, min (pos_block dest) (length (tape_of s (pos_partition dest)))) \<and>
        pos_partition pos' = pos_partition dest \<and> pos_block pos' = snd (at s') \<and>
        (roomy s (pos_partition dest) (snd (at s')) \<longrightarrow> keeps_warnings pos pos')"
    and read_data_law: "good s \<Longrightarrow> at s = (p, b) \<Longrightarrow> b < length (tape_of s p) \<Longrightarrow> tape_of s p ! b = Data d \<Longrightarrow>
      \<exists>s'. op_read ops s buf count pos unusual =
          (Inr (min count (length d)), take count d @ drop (min count (length d)) buf, pos\<lparr>pos_block := b + 1\<rparr>, s') \<and>
        good s' \<and> tape_of s' = tape_of s \<and> roomy s' = roomy s \<and> limit s' = limit s \<and> at s' = (p, b + 1)"
    and read_fm_law: "good s \<Longrightarrow> at s = (p, b) \<Longrightarrow> b < length (tape_of s p) \<Longrightarrow> tape_of s p ! b = Filemark \<Longrightarrow>
      \<exists>n s'. op_read ops s buf count pos unusual = (Inr 0, buf, pos\<lparr>pos_block := b + 1, pos_filemarks := n\<rparr>, s') \<and>
        good s' \<and> tape_of s' = tape_of s \<and> roomy s' = roomy s \<and> limit s' = limit s \<and> at s' = (p, b + 1)"
    and read_eod_law: "good s \<Longrightarrow> at s = (p, b) \<Longrightarrow> b = length (tape_of s p) \<Longrightarrow>
      op_read ops s buf count pos unusual = (Inl EDEV_EOD_DETECTED, buf, pos, s)"
    and write_law: "good s \<Longrightarrow> at s = (p, b) \<Longrightarrow> d \<noteq> [] \<Longrightarrow> length d \<le> limit s \<Longrightarrow> b + 1 < TAPE_BLOCK_MAX \<Longrightarrow>
      \<exists>pos' s'. op_write ops s d pos = (Inr (length d), pos', s') \<and> good s' \<and>
        tape_of s' = (tape_of s)(p := take b (tape_of s p) @ [Data d]) \<and> at s' = (p, b + 1) \<and>
        roomy s' = roomy s \<and> limit s' = limit s \<and>
        pos_partition pos' = pos_partition pos \<and> pos_block pos' = b + 1 \<and>
        (roomy s p (b + 1) \<longrightarrow> keeps_warnings pos pos')"
    and writefm_law: "good s \<Longrightarrow> at s = (p, b) \<Longrightarrow> 0 < n \<Longrightarrow> b + n < TAPE_BLOCK_MAX \<Longrightarrow>
      \<exists>pos' s'. op_writefm ops s n pos immed = (Inr (), pos', s') \<and> good s' \<and>
        tape_of s' = (tape_of s)(p := take b (tape_of s p) @ replicate n Filemark) \<and> at s' = (p, b + n) \<and>
        roomy s' = roomy s \<and> limit s' = limit s \<and>
        pos_partition pos' = pos_partition pos \<and> pos_block pos' = b + n \<and>
        (roomy s p (b + n) \<longrightarrow> keeps_warnings pos pos')"
    and writefm_0_law: "good s \<Longrightarrow> op_writefm ops s 0 pos immed = (Inr (), pos, s)"

end
