(* ===== verification/Endian.thy ===== *)
theory Endian
  imports Prelude
begin

text \<open>
  The byte order macros of \<open>src/src/libltfs/ltfs_endian.h\<close>.  A macro that stores a value gives the
  list of bytes it writes; a macro that loads one reads the first bytes of a list.  \<open>htonl\<close> and
  \<open>htons\<close> followed by the store of the word are the functions \<open>be_bytes 4\<close> and \<open>be_bytes 2\<close>.
\<close>

primrec be_bytes :: "nat \<Rightarrow> nat \<Rightarrow> byte list" where
  "be_bytes 0 n = []"
| "be_bytes (Suc k) n = be_bytes k (n div 256) @ [of_nat n]"

definition be_value :: "byte list \<Rightarrow> nat" where
  "be_value bs = foldl (\<lambda>a b. a * 256 + unat b) 0 bs"

definition ltfs_u64tobe :: "nat \<Rightarrow> byte list" where
  "ltfs_u64tobe src = be_bytes 4 (src div two32 mod two32) @ be_bytes 4 (src mod two32)"

definition ltfs_u32tobe :: "nat \<Rightarrow> byte list" where
  "ltfs_u32tobe src = be_bytes 4 (u32 src)"

definition ltfs_u16tobe :: "nat \<Rightarrow> byte list" where
  "ltfs_u16tobe src = be_bytes 2 (src mod 65536)"

definition ltfs_betou64 :: "byte list \<Rightarrow> nat" where
  "ltfs_betou64 buf = u64 (be_value (take 4 buf) * two32 + be_value (take 4 (drop 4 buf)))"

definition ltfs_betou32 :: "byte list \<Rightarrow> nat" where
  "ltfs_betou32 buf = be_value (take 4 buf)"

definition ltfs_betou16 :: "byte list \<Rightarrow> nat" where
  "ltfs_betou16 buf = be_value (take 2 buf)"

lemma length_be_bytes [simp]: "length (be_bytes k n) = k"
  by (induction k arbitrary: n) auto

lemma be_value_snoc: "be_value (bs @ [b]) = be_value bs * 256 + unat b"
  by (simp add: be_value_def)

lemma be_value_bytes: "be_value (be_bytes k n) = n mod 256 ^ k"
proof (induction k arbitrary: n)
  case 0
  then show ?case by (simp add: be_value_def)
next
  case (Suc k)
  have "be_value (be_bytes (Suc k) n) = (n div 256) mod 256 ^ k * 256 + n mod 256"
    by (simp add: be_value_snoc Suc unat_of_nat)
  also have "\<dots> = n mod (256 * 256 ^ k)"
    by (simp add: mod_mult2_eq)
  finally show ?case by simp
qed

lemma length_tobe [simp]:
  "length (ltfs_u64tobe n) = 8" "length (ltfs_u32tobe n) = 4" "length (ltfs_u16tobe n) = 2"
  by (simp_all add: ltfs_u64tobe_def ltfs_u32tobe_def ltfs_u16tobe_def)

lemma betou64_u64tobe:
  assumes "n < two64"
  shows "ltfs_betou64 (ltfs_u64tobe n @ rest) = n"
proof -
  have "n div two32 < two32" using assms
    by (simp add: two32_def two64_def less_mult_imp_div_less)
  moreover have "n div two32 * two32 + n mod two32 = n" by simp
  ultimately show ?thesis
    using assms
    by (simp add: ltfs_betou64_def ltfs_u64tobe_def be_value_bytes two32_def u64_id)
qed

lemma betou32_u32tobe: "n < two32 \<Longrightarrow> ltfs_betou32 (ltfs_u32tobe n @ rest) = n"
  by (simp add: ltfs_betou32_def ltfs_u32tobe_def be_value_bytes u32_def two32_def)

lemma betou16_u16tobe: "n < 65536 \<Longrightarrow> ltfs_betou16 (ltfs_u16tobe n @ rest) = n"
  by (simp add: ltfs_betou16_def ltfs_u16tobe_def be_value_bytes)

interpretation be64: codec ltfs_u64tobe "\<lambda>bs. Some (ltfs_betou64 bs)" "\<lambda>n. n < two64"
  using betou64_u64tobe [of _ "[]"] by unfold_locales simp

interpretation be32: codec ltfs_u32tobe "\<lambda>bs. Some (ltfs_betou32 bs)" "\<lambda>n. n < two32"
  using betou32_u32tobe [of _ "[]"] by unfold_locales simp

interpretation be16: codec ltfs_u16tobe "\<lambda>bs. Some (ltfs_betou16 bs)" "\<lambda>n. n < 65536"
  using betou16_u16tobe [of _ "[]"] by unfold_locales simp

end
