(* ===== verification/TapeDevice.thy ===== *)
theory TapeDevice
  imports TapeOps Endian
begin

text \<open>
  The tape device layer, \<open>src/src/libltfs/tape.c\<close>, over an arbitrary backend.

  \<open>device_data\<close> has the fields of \<open>struct device_data\<close> the modelled functions use.  The table of
  backend functions, the field \<open>backend\<close> in C, is the argument \<open>ops\<close>, and a clock reading that
  \<open>get_current_timespec\<close> would make is the argument \<open>now\<close>.  Pointer arguments are values, so that the
  checks for NULL do not appear; the mutexes that guard single fields do not appear either, since
  every function of the model is one step.
\<close>

section \<open>The device\<close>

type_synonym ltfs_timespec = "int \<times> int"

definition timer_sub :: "ltfs_timespec \<Rightarrow> ltfs_timespec \<Rightarrow> ltfs_timespec" where
  "timer_sub a b =
     (if snd a - snd b < 0 then (fst a - fst b - 1, snd a - snd b + 1000000000)
      else (fst a - fst b, snd a - snd b))"

datatype part_space = PART_WRITABLE | PART_LESS_SPACE | PART_NO_SPACE

record 's device_data =
  position :: tc_position
  append_pos :: "nat \<Rightarrow> nat"
  dev_max_block_size :: nat
  partition_space :: "nat \<Rightarrow> part_space"
  write_protected :: "32 word"
  write_error :: bool
  medium_modified :: bool
  fence :: bool
  append_only_mode :: bool
  previous_exist :: ltfs_timespec
  capacity :: tc_remaining_cap
  capacity_time :: ltfs_timespec
  capacity_written :: nat
  capacity_valid :: bool
  backend_data :: 's

definition VOL_FORCE_READ_ONLY :: "64 word" where
  "VOL_FORCE_READ_ONLY = 0x100000000"

definition TAPE_CAPACITY_REFRESH_BYTES :: nat where
  "TAPE_CAPACITY_REFRESH_BYTES = 1024 * 1024 * 1024"

definition TAPE_CAPACITY_REFRESH_SEC :: int where
  "TAPE_CAPACITY_REFRESH_SEC = 10"

definition tape_medium_seen :: "ltfs_timespec \<Rightarrow> 's device_data \<Rightarrow> 's device_data" where
  "tape_medium_seen now dev = dev\<lparr>previous_exist := now\<rparr>"

definition tape_capacity_forget :: "'s device_data \<Rightarrow> 's device_data" where
  "tape_capacity_forget dev = dev\<lparr>capacity_valid := False, capacity_written := 0\<rparr>"

section \<open>Lock and fence\<close>

text \<open>\<open>lock_ok\<close> is the result of \<open>ltfs_mutex_lock\<close>; \<open>unlock_errno\<close> is what \<open>ltfs_mutex_unlock\<close> returns.\<close>

definition tape_device_lock :: "bool \<Rightarrow> 's device_data \<Rightarrow> error + unit" where
  "tape_device_lock lock_ok dev =
     (if \<not> lock_ok then Inl LTFS_MUTEX_INVALID
      else if fence dev then Inl LTFS_DEVICE_FENCED
      else Inr ())"

datatype unlock_result = Unlock_0 | Unlock_EPERM | Unlock_EINVAL | Unlock_other

definition tape_device_unlock :: "unlock_result \<Rightarrow> error + unit" where
  "tape_device_unlock unlock_errno =
     (case unlock_errno of
        Unlock_0 \<Rightarrow> Inr ()
      | Unlock_EPERM \<Rightarrow> Inl LTFS_MUTEX_UNLOCKED
      | _ \<Rightarrow> Inl LTFS_MUTEX_INVALID)"

definition tape_start_fence :: "'s device_data \<Rightarrow> 's device_data" where
  "tape_start_fence dev = dev\<lparr>fence := True\<rparr>"

definition tape_release_fence :: "'s device_data \<Rightarrow> 's device_data" where
  "tape_release_fence dev = dev\<lparr>fence := False\<rparr>"

section \<open>Capacity\<close>

definition tape_get_capacity ::
  "'s tape_ops \<Rightarrow> ltfs_timespec \<Rightarrow> 's device_data \<Rightarrow> tc_remaining_cap \<Rightarrow>
   (error + unit) \<times> tc_remaining_cap \<times> 's device_data" where
  "tape_get_capacity ops now dev cap =
     (if capacity_valid dev \<and> capacity_written dev < TAPE_CAPACITY_REFRESH_BYTES \<and>
        (capacity_written dev = 0 \<or> fst (timer_sub now (capacity_time dev)) < TAPE_CAPACITY_REFRESH_SEC)
      then (Inr (), capacity dev, dev)
      else case op_remaining_capacity ops (backend_data dev) cap of
          (Inl e, cap) \<Rightarrow> (Inl e, cap, dev)
        | (Inr _, cap) \<Rightarrow>
            (Inr (), cap, tape_medium_seen now
               (dev\<lparr>capacity := cap, capacity_time := now, capacity_written := 0, capacity_valid := True\<rparr>)))"

section \<open>Positioning\<close>

definition tape_get_append_position :: "'s device_data \<Rightarrow> nat \<Rightarrow> error + nat" where
  "tape_get_append_position dev prt =
     (if 1 < prt then Inl LTFS_BAD_PARTNUM else Inr (append_pos dev prt))"

definition tape_set_append_position ::
  "'s device_data \<Rightarrow> nat \<Rightarrow> nat \<Rightarrow> (error + unit) \<times> 's device_data" where
  "tape_set_append_position dev prt blk =
     (if 1 < prt then (Inl LTFS_BAD_PARTNUM, dev)
      else (Inr (), dev\<lparr>append_pos := (append_pos dev)(prt := blk)\<rparr>))"

text \<open>\<open>tape_get_worm_status\<close> passes the question on to the backend.\<close>

definition tape_set_ip_append_position ::
  "'s tape_ops \<Rightarrow> 's device_data \<Rightarrow> nat \<Rightarrow> nat \<Rightarrow> (error + unit) \<times> 's device_data" where
  "tape_set_ip_append_position ops dev prt blk =
     (if op_get_worm_status ops (backend_data dev) = Inr True
      then tape_set_append_position dev prt 0
      else tape_set_append_position dev prt blk)"

text \<open>The update of the space flags after a locate.\<close>

definition note_warnings :: "'s device_data \<Rightarrow> 's device_data" where
  "note_warnings dev =
     (let p = pos_partition (position dev);
          dev = (if pos_early_warning (position dev)
                 then dev\<lparr>partition_space := (partition_space dev)(p := PART_NO_SPACE)\<rparr> else dev) in
      if partition_space dev p \<noteq> PART_NO_SPACE \<and> pos_programmable_early_warning (position dev)
      then dev\<lparr>partition_space := (partition_space dev)(p := PART_LESS_SPACE)\<rparr> else dev)"

definition tape_rewind ::
  "'s tape_ops \<Rightarrow> ltfs_timespec \<Rightarrow> 's device_data \<Rightarrow> (error + unit) \<times> 's device_data" where
  "tape_rewind ops now dev =
     (let (ret, pos, s) = op_rewind ops (backend_data dev) (position dev);
          dev = dev\<lparr>position := pos, backend_data := s\<rparr> in
      case ret of Inl e \<Rightarrow> (Inl e, dev) | Inr _ \<Rightarrow> (Inr (), tape_medium_seen now dev))"

definition tape_seek ::
  "'s tape_ops \<Rightarrow> ltfs_timespec \<Rightarrow> 's device_data \<Rightarrow> tc_position \<Rightarrow> (error + unit) \<times> 's device_data" where
  "tape_seek ops now dev pos =
     (let (ret, dev) =
        (if (pos_partition pos = 0 \<and> pos_block pos = 0) \<or> pos_partition pos \<noteq> pos_partition (position dev) \<or>
            pos_block pos \<noteq> pos_block (position dev)
         then let (ret, p, s) = op_locate ops (backend_data dev) pos (position dev);
                  dev = dev\<lparr>position := p, backend_data := s\<rparr> in
              (case ret of Inl e \<Rightarrow> (Inl e, dev) | Inr _ \<Rightarrow> (Inr (), note_warnings dev))
         else (Inr (), dev)) in
      case ret of
        Inl e \<Rightarrow> (Inl (if IS_WRITE_PERM e then LTFS_LOCATE_ERROR else e), dev)
      | Inr _ \<Rightarrow>
          if pos_partition (position dev) \<noteq> pos_partition pos \<or>
             (pos_block pos \<noteq> TAPE_BLOCK_MAX \<and> pos_block pos \<noteq> pos_block (position dev))
          then (Inl LTFS_BAD_LOCATE, dev)
          else (Inr (), tape_medium_seen now dev))"

definition tape_seek_eod ::
  "'s tape_ops \<Rightarrow> ltfs_timespec \<Rightarrow> 's device_data \<Rightarrow> nat \<Rightarrow> (error + unit) \<times> 's device_data" where
  "tape_seek_eod ops now dev part =
     (if 1 < part then (Inl LTFS_BAD_PARTNUM, dev)
      else let seekpos = \<lparr>pos_block = TAPE_BLOCK_MAX, pos_filemarks = 0, pos_partition = part,
                 pos_early_warning = False, pos_programmable_early_warning = False\<rparr>;
               (ret, p, s) = op_locate ops (backend_data dev) seekpos (position dev);
               dev = dev\<lparr>position := p, backend_data := s\<rparr> in
        case ret of
          Inl e \<Rightarrow> (Inl (if IS_WRITE_PERM e then LTFS_LOCATE_ERROR else e), dev)
        | Inr _ \<Rightarrow>
            if part \<noteq> pos_partition (position dev) then (Inl LTFS_BAD_LOCATE, dev)
            else let dev = note_warnings dev;
                     dev = dev\<lparr>append_pos := (append_pos dev)(part := pos_block (position dev))\<rparr> in
              (Inr (), tape_medium_seen now dev))"

text \<open>The position \<open>new_pos\<close> is built from a partition and a block; its other fields are not used.\<close>

definition tape_seek_append_position ::
  "'s tape_ops \<Rightarrow> ltfs_timespec \<Rightarrow> 's device_data \<Rightarrow> nat \<Rightarrow> bool \<Rightarrow> (error + unit) \<times> 's device_data" where
  "tape_seek_append_position ops now dev prt unlock_write =
     (let blk = (if append_pos dev prt = 0 then TAPE_BLOCK_MAX else append_pos dev prt);
          new_pos = \<lparr>pos_block = blk, pos_filemarks = 0, pos_partition = prt,
            pos_early_warning = False, pos_programmable_early_warning = False\<rparr> in
      case tape_seek ops now dev new_pos of
        (Inl e, dev) \<Rightarrow> (Inl e, dev\<lparr>write_error := True\<rparr>)
      | (Inr _, dev) \<Rightarrow>
          let ret = (if unlock_write \<and> append_only_mode dev \<and> blk \<noteq> TAPE_BLOCK_MAX
                     then op_allow_overwrite ops (backend_data dev) (position dev) else Inr ()) in
          (ret, if append_pos dev prt = 0
                then dev\<lparr>append_pos := (append_pos dev)(prt := pos_block (position dev))\<rparr> else dev))"

definition tape_get_position :: "'s device_data \<Rightarrow> tc_position" where
  "tape_get_position dev = position dev"

definition tape_update_position ::
  "'s tape_ops \<Rightarrow> 's device_data \<Rightarrow> (error + tc_position) \<times> 's device_data" where
  "tape_update_position ops dev =
     (let (ret, p, s) = op_readpos ops (backend_data dev) (position dev);
          dev = dev\<lparr>position := p, backend_data := s\<rparr> in
      case ret of Inl e \<Rightarrow> (Inl e, dev) | Inr _ \<Rightarrow> (Inr (position dev), dev))"

definition tape_get_first_untransfered_position ::
  "'s tape_ops \<Rightarrow> 's device_data \<Rightarrow> tc_position \<Rightarrow> (error + unit) \<times> tc_position \<times> 's device_data" where
  "tape_get_first_untransfered_position ops dev pos =
     (let (ret, p, s) = op_readpos ops (backend_data dev) (position dev);
          dev = dev\<lparr>position := p, backend_data := s\<rparr> in
      case ret of
        Inl e \<Rightarrow> (Inl e, pos, dev)
      | Inr _ \<Rightarrow> let (ret, pos) = op_get_next_block_to_xfer ops (backend_data dev) pos in (ret, pos, dev))"

definition tape_spacefm ::
  "'s tape_ops \<Rightarrow> ltfs_timespec \<Rightarrow> 's device_data \<Rightarrow> int \<Rightarrow> (error + unit) \<times> 's device_data" where
  "tape_spacefm ops now dev count =
     (let (ret, p, s) =
        (if 0 < count then op_space ops (backend_data dev) (nat count) TC_SPACE_FM_F (position dev)
         else op_space ops (backend_data dev) (nat (- count)) TC_SPACE_FM_B (position dev));
          dev = dev\<lparr>position := p, backend_data := s\<rparr> in
      case ret of Inl e \<Rightarrow> (Inl e, dev) | Inr _ \<Rightarrow> (Inr (), tape_medium_seen now dev))"

section \<open>Locating indexes\<close>

definition tape_locate_next_index ::
  "'s tape_ops \<Rightarrow> ltfs_timespec \<Rightarrow> 's device_data \<Rightarrow> (error + unit) \<times> 's device_data" where
  "tape_locate_next_index ops now dev = tape_spacefm ops now dev 1"

definition tape_locate_previous_index ::
  "'s tape_ops \<Rightarrow> ltfs_timespec \<Rightarrow> 's device_data \<Rightarrow> (error + unit) \<times> 's device_data" where
  "tape_locate_previous_index ops now dev =
     (case tape_spacefm ops now dev (- 4) of
        (Inl e, dev) \<Rightarrow> (Inl e, dev)
      | (Inr _, dev) \<Rightarrow> tape_spacefm ops now dev 1)"

definition tape_locate_first_index ::
  "'s tape_ops \<Rightarrow> ltfs_timespec \<Rightarrow> 's device_data \<Rightarrow> nat \<Rightarrow> (error + unit) \<times> 's device_data" where
  "tape_locate_first_index ops now dev part =
     (case tape_seek ops now dev \<lparr>pos_block = 4, pos_filemarks = 0, pos_partition = part,
             pos_early_warning = False, pos_programmable_early_warning = False\<rparr> of
        (Inl e, dev) \<Rightarrow> (Inl e, dev)
      | (Inr _, dev) \<Rightarrow> tape_spacefm ops now dev 1)"

definition tape_locate_last_index ::
  "'s tape_ops \<Rightarrow> ltfs_timespec \<Rightarrow> 's device_data \<Rightarrow> nat \<Rightarrow> (error + unit) \<times> 's device_data" where
  "tape_locate_last_index ops now dev part =
     (case tape_seek_eod ops now dev part of
        (Inl e, dev) \<Rightarrow> (Inl e, dev)
      | (Inr _, dev) \<Rightarrow>
          (case tape_spacefm ops now dev (- 2) of
             (Inl e, dev) \<Rightarrow> (Inl e, dev)
           | (Inr _, dev) \<Rightarrow> tape_spacefm ops now dev 1))"

section \<open>Modes of the drive\<close>

definition tape_test_unit_ready ::
  "'s drive_ops \<Rightarrow> ltfs_timespec \<Rightarrow> 's device_data \<Rightarrow> (error + unit) \<times> 's device_data" where
  "tape_test_unit_ready dops now dev =
     (if fst (timer_sub now (previous_exist dev)) = 0 then (Inr (), dev)
      else case op_test_unit_ready dops (backend_data dev) of
          Inl e \<Rightarrow> (Inl e, dev)
        | Inr _ \<Rightarrow> (Inr (), dev\<lparr>previous_exist := now\<rparr>))"

definition tape_set_compression ::
  "'s drive_ops \<Rightarrow> 's device_data \<Rightarrow> bool \<Rightarrow> (error + unit) \<times> 's device_data" where
  "tape_set_compression dops dev use_compression =
     (let (ret, p, s) = op_set_compression dops (backend_data dev) use_compression (position dev) in
      (ret, dev\<lparr>position := p, backend_data := s\<rparr>))"

text \<open>The answer of the test unit ready command that ends the reset is not looked at.\<close>

definition tape_reset_capacity :: "'s drive_ops \<Rightarrow> 's device_data \<Rightarrow> (error + unit) \<times> 's device_data" where
  "tape_reset_capacity dops dev =
     (let dev = tape_capacity_forget dev;
          (ret, p, s) = op_load dops (backend_data dev) (position dev);
          dev = dev\<lparr>position := p, backend_data := s\<rparr> in
      case ret of
        Inl e \<Rightarrow> (Inl e, dev)
      | Inr _ \<Rightarrow>
          let (ret, s) = op_setcap dops (backend_data dev) 0xFFFF;
              dev = dev\<lparr>backend_data := s\<rparr> in
          case ret of Inl e \<Rightarrow> (Inl e, dev) | Inr _ \<Rightarrow> (Inr (), dev))"

section \<open>Read-only state\<close>

definition tape_read_only :: "'s tape_ops \<Rightarrow> 's device_data \<Rightarrow> nat \<Rightarrow> error + unit" where
  "tape_read_only ops dev part =
     (if write_protected dev \<noteq> 0 then Inl LTFS_WRITE_PROTECT
      else if write_error dev then Inl LTFS_WRITE_ERROR
      else case partition_space dev part of
          PART_LESS_SPACE \<Rightarrow> Inl LTFS_LESS_SPACE
        | PART_NO_SPACE \<Rightarrow> Inl LTFS_NO_SPACE
        | PART_WRITABLE \<Rightarrow>
            if op_is_readonly ops (backend_data dev) then Inl LTFS_RDONLY_DEN_DRV else Inr ())"

text \<open>
  \<open>write_protected\<close> is an unsigned int: the result of the bitwise or with the 64 bit enumerator is
  converted back to 32 bits by the assignment.
\<close>

definition tape_force_read_only :: "'s device_data \<Rightarrow> 's device_data" where
  "tape_force_read_only dev =
     dev\<lparr>write_protected := ucast ((ucast (write_protected dev) :: 64 word) OR VOL_FORCE_READ_ONLY)\<rparr>"

section \<open>Data transfer\<close>

definition write_refused :: "'s device_data \<Rightarrow> bool \<Rightarrow> bool \<Rightarrow> error option" where
  "write_refused dev ignore_less ignore_nospc =
     (let space = partition_space dev (pos_partition (position dev)) in
      if write_protected dev \<noteq> 0 then Some LTFS_WRITE_PROTECT
      else if write_error dev then Some LTFS_WRITE_ERROR
      else if space = PART_NO_SPACE \<and> \<not> ignore_nospc then Some LTFS_NO_SPACE
      else if space = PART_LESS_SPACE \<and> \<not> ignore_less then Some LTFS_LESS_SPACE
      else None)"

definition set_append_here :: "'s device_data \<Rightarrow> 's device_data" where
  "set_append_here dev =
     dev\<lparr>append_pos := (append_pos dev)(pos_partition (position dev) := pos_block (position dev))\<rparr>"

definition set_space_here :: "part_space \<Rightarrow> 's device_data \<Rightarrow> 's device_data" where
  "set_space_here space dev =
     dev\<lparr>partition_space := (partition_space dev)(pos_partition (position dev) := space)\<rparr>"

definition tape_write ::
  "'s tape_ops \<Rightarrow> ltfs_timespec \<Rightarrow> 's device_data \<Rightarrow> byte list \<Rightarrow> bool \<Rightarrow> bool \<Rightarrow> (error + nat) \<times> 's device_data" where
  "tape_write ops now dev buf ignore_less ignore_nospc =
     (case write_refused dev ignore_less ignore_nospc of
        Some e \<Rightarrow> (Inl e, dev)
      | None \<Rightarrow>
          if dev_max_block_size dev < length buf then (Inl LTFS_LARGE_BLOCKSIZE, dev)
          else let (ret, p, s) = op_write ops (backend_data dev) buf (position dev);
                   dev = dev\<lparr>position := p, backend_data := s\<rparr> in
            case ret of
              Inl e \<Rightarrow> (Inl e, if NEED_REVAL e then dev else dev\<lparr>write_error := True\<rparr>)
            | Inr _ \<Rightarrow>
                let dev = (tape_medium_seen now dev)\<lparr>capacity_written := u64 (capacity_written dev + length buf),
                      medium_modified := True\<rparr> in
                if pos_early_warning (position dev)
                then (if ignore_nospc then Inr (length buf) else Inl LTFS_NO_SPACE,
                      set_append_here (tape_capacity_forget (set_space_here PART_NO_SPACE dev)))
                else if pos_programmable_early_warning (position dev)
                then (if ignore_less then Inr (length buf) else Inl LTFS_LESS_SPACE,
                      set_append_here (tape_capacity_forget (set_space_here PART_LESS_SPACE dev)))
                else (Inr (length buf), set_append_here dev))"

definition tape_write_filemark ::
  "'s tape_ops \<Rightarrow> ltfs_timespec \<Rightarrow> 's device_data \<Rightarrow> nat \<Rightarrow> bool \<Rightarrow> bool \<Rightarrow> bool \<Rightarrow>
   (error + unit) \<times> 's device_data" where
  "tape_write_filemark ops now dev count ignore_less ignore_nospc immed =
     (case write_refused dev ignore_less ignore_nospc of
        Some e \<Rightarrow> (Inl e, dev)
      | None \<Rightarrow>
          let (ret, p, s) = op_writefm ops (backend_data dev) count (position dev) immed;
              dev = dev\<lparr>position := p, backend_data := s\<rparr> in
          case ret of
            Inl e \<Rightarrow> (Inl e, if NEED_REVAL e then dev else dev\<lparr>write_error := True\<rparr>)
          | Inr _ \<Rightarrow>
              let dev = tape_capacity_forget (tape_medium_seen now dev);
                  dev = (if count \<noteq> 0 then dev\<lparr>medium_modified := True\<rparr> else dev);
                  (ret, dev) =
                    (if \<not> immed \<and> count \<noteq> 0
                     then let (ret, p, s) = op_writefm ops (backend_data dev) 0 (position dev) False in
                          (ret, dev\<lparr>position := p, backend_data := s\<rparr>)
                     else (Inr (), dev)) in
              case ret of
                Inl e \<Rightarrow> (Inl e, if NEED_REVAL e then dev else dev\<lparr>write_error := True\<rparr>)
              | Inr _ \<Rightarrow>
                  if pos_early_warning (position dev)
                  then (if ignore_nospc then Inr () else Inl LTFS_NO_SPACE,
                        set_append_here (set_space_here PART_NO_SPACE dev))
                  else if pos_programmable_early_warning (position dev)
                  then (if ignore_less then Inr () else Inl LTFS_LESS_SPACE,
                        set_append_here (set_space_here PART_LESS_SPACE dev))
                  else (Inr (), set_append_here dev))"

text \<open>
  \<open>rekey\<close> is the part of \<open>tape_read\<close> that asks the key manager for the data key and sets it in the
  drive: \<open>None\<close> when there is no key manager or one of its steps fails, otherwise the backend state
  in which the block is read again.
\<close>

definition tape_read ::
  "'s tape_ops \<Rightarrow> ('s \<Rightarrow> 's option) \<Rightarrow> ltfs_timespec \<Rightarrow> 's device_data \<Rightarrow> byte list \<Rightarrow> nat \<Rightarrow> bool \<Rightarrow>
   (error + nat) \<times> byte list \<times> 's device_data" where
  "tape_read ops rekey now dev buf count unusual_size =
     (let (ret, buf, p, s) = op_read ops (backend_data dev) buf count (position dev) unusual_size;
          dev = dev\<lparr>position := p, backend_data := s\<rparr>;
          (ret, buf, dev) =
            (if ret = Inl EDEV_CRYPTO_ERROR \<or> ret = Inl EDEV_KEY_REQUIRED
             then case rekey (backend_data dev) of
                 None \<Rightarrow> (ret, buf, dev)
               | Some s \<Rightarrow>
                   let (ret, buf, p, s) = op_read ops s buf count (position dev) unusual_size in
                   (ret, buf, dev\<lparr>position := p, backend_data := s\<rparr>)
             else (ret, buf, dev)) in
      case ret of
        Inl e \<Rightarrow> (Inl e, buf, dev)
      | Inr n \<Rightarrow> (Inr n, buf, tape_medium_seen now dev))"

definition tape_erase ::
  "'s tape_ops \<Rightarrow> ltfs_timespec \<Rightarrow> 's device_data \<Rightarrow> bool \<Rightarrow> (error + unit) \<times> 's device_data" where
  "tape_erase ops now dev long_erase =
     (let dev = tape_capacity_forget dev;
          (ret, p, s) = op_erase ops (backend_data dev) (position dev) long_erase;
          dev = dev\<lparr>position := p, backend_data := s\<rparr> in
      case ret of
        Inl e \<Rightarrow> (Inl e, dev)
      | Inr _ \<Rightarrow> (Inr (), (tape_medium_seen now dev)\<lparr>medium_modified := True\<rparr>))"

definition tape_unformat_hard :: "'s tape_ops \<Rightarrow> 's device_data \<Rightarrow> (error + unit) \<times> 's device_data" where
  "tape_unformat_hard ops dev =
     (let dev = tape_capacity_forget dev;
          bom = \<lparr>pos_block = 0, pos_filemarks = 0, pos_partition = 0,
            pos_early_warning = False, pos_programmable_early_warning = False\<rparr>;
          (ret, p, s) = op_locate ops (backend_data dev) bom (position dev);
          dev = dev\<lparr>position := p, backend_data := s\<rparr> in
      case ret of
        Inl e \<Rightarrow> (Inl (if IS_WRITE_PERM e then LTFS_LOCATE_ERROR else e), dev)
      | Inr _ \<Rightarrow>
          let (ret, s) = op_format ops (backend_data dev) TC_FORMAT_DEFAULT;
              dev = dev\<lparr>backend_data := s\<rparr> in
          case ret of
            Inl e \<Rightarrow> (Inl e, dev)
          | Inr _ \<Rightarrow>
              (Inr (), dev\<lparr>medium_modified := True,
                 partition_space := (partition_space dev)(0 := PART_WRITABLE, 1 := PART_WRITABLE)\<rparr>))"

section \<open>Medium auxiliary memory\<close>

record tc_coherency =
  volume_change_ref :: nat
  coh_count :: nat
  set_id :: nat
  coh_uuid :: "byte list"
  coh_version :: byte

text \<open>
  \<open>junk\<close> is the contents of the uninitialised buffers.  The volume change reference page is 9, the
  coherency page 0x080C with 70 bytes.
\<close>

definition tape_get_volume_change_reference ::
  "'s tape_ops \<Rightarrow> byte list \<Rightarrow> 's device_data \<Rightarrow> (error + unit) \<times> nat" where
  "tape_get_volume_change_reference ops junk dev =
     (case op_read_attribute ops (backend_data dev) 0 9 junk of
        (Inl e, _) \<Rightarrow> (Inl e, two64 - 1)
      | (Inr _, vcr_data) \<Rightarrow>
          let vcr = ltfs_betou32 (drop 5 vcr_data) in
          (Inr (), if vcr = two32 - 1 then two64 - 1 else vcr))"

definition tape_get_cart_coherency ::
  "'s tape_ops \<Rightarrow> byte list \<Rightarrow> 's device_data \<Rightarrow> nat \<Rightarrow> error + tc_coherency" where
  "tape_get_cart_coherency ops junk dev part =
     (case op_read_attribute ops (backend_data dev) part 0x080C junk of
        (Inl e, _) \<Rightarrow> Inl e
      | (Inr _, coh_data) \<Rightarrow>
          if ltfs_betou16 coh_data \<noteq> 0x080C then Inl LTFS_UNEXPECTED_VALUE
          else if ltfs_betou16 (drop 3 coh_data) \<noteq> 70 then Inl LTFS_UNEXPECTED_VALUE
          else if coh_data ! 5 \<noteq> 8 then Inl LTFS_UNEXPECTED_VALUE
          else let len = ltfs_betou16 (drop 30 coh_data) in
          if len \<noteq> 42 \<and> len \<noteq> 43 then Inl LTFS_UNEXPECTED_VALUE
          else if take 5 (drop 32 coh_data) \<noteq> [76, 84, 70, 83, 0] then Inl LTFS_UNEXPECTED_VALUE
          else Inr \<lparr>volume_change_ref = ltfs_betou64 (drop 6 coh_data),
                    coh_count = ltfs_betou64 (drop 14 coh_data),
                    set_id = ltfs_betou64 (drop 22 coh_data),
                    coh_uuid = take 37 (drop 37 coh_data),
                    coh_version = coh_data ! 74\<rparr>)"

definition coherency_data :: "tc_coherency \<Rightarrow> byte list" where
  "coherency_data coh =
     ltfs_u16tobe 0x080C @ [0] @ ltfs_u16tobe 70 @ [8] @ ltfs_u64tobe (volume_change_ref coh) @
     ltfs_u64tobe (coh_count coh) @ ltfs_u64tobe (set_id coh) @ [0, 43] @ [76, 84, 70, 83, 0] @
     coh_uuid coh @ [coh_version coh]"

definition tape_set_cart_coherency ::
  "'s tape_ops \<Rightarrow> 's device_data \<Rightarrow> nat \<Rightarrow> tc_coherency \<Rightarrow> (error + unit) \<times> 's device_data" where
  "tape_set_cart_coherency ops dev part coh =
     (let (ret, s) = op_write_attribute ops (backend_data dev) part (coherency_data coh) in
      (ret, dev\<lparr>backend_data := s\<rparr>))"

section \<open>The device over a backend that keeps its contract\<close>

text \<open>
  The device knows where the backend is, and the backend is in working order; \<open>quiet\<close> is a position
  before the early warning zones.  \<open>same_state\<close> collects what positioning and reading leave alone.
\<close>

definition synced :: "('s \<Rightarrow> bool) \<Rightarrow> ('s \<Rightarrow> nat \<times> nat) \<Rightarrow> 's device_data \<Rightarrow> bool" where
  "synced good at dev \<longleftrightarrow> good (backend_data dev) \<and>
     at (backend_data dev) = (pos_partition (position dev), pos_block (position dev))"

definition quiet :: "'s device_data \<Rightarrow> bool" where
  "quiet dev \<longleftrightarrow> \<not> pos_early_warning (position dev) \<and> \<not> pos_programmable_early_warning (position dev)"

definition same_state :: "'s device_data \<Rightarrow> 's device_data \<Rightarrow> bool" where
  "same_state dev dev' \<longleftrightarrow> append_pos dev' = append_pos dev \<and> partition_space dev' = partition_space dev \<and>
     dev_max_block_size dev' = dev_max_block_size dev \<and> write_protected dev' = write_protected dev \<and>
     write_error dev' = write_error dev \<and> fence dev' = fence dev \<and> append_only_mode dev' = append_only_mode dev"

lemma medium_seen_simps [simp]:
  "position (tape_medium_seen now dev) = position dev"
  "backend_data (tape_medium_seen now dev) = backend_data dev"
  "append_pos (tape_medium_seen now dev) = append_pos dev"
  "partition_space (tape_medium_seen now dev) = partition_space dev"
  "dev_max_block_size (tape_medium_seen now dev) = dev_max_block_size dev"
  "write_protected (tape_medium_seen now dev) = write_protected dev"
  "write_error (tape_medium_seen now dev) = write_error dev"
  "fence (tape_medium_seen now dev) = fence dev"
  "append_only_mode (tape_medium_seen now dev) = append_only_mode dev"
  by (simp_all add: tape_medium_seen_def)

lemma note_warnings_simps [simp]:
  "position (note_warnings dev) = position dev"
  "backend_data (note_warnings dev) = backend_data dev"
  "append_pos (note_warnings dev) = append_pos dev"
  "write_protected (note_warnings dev) = write_protected dev"
  "write_error (note_warnings dev) = write_error dev"
  "fence (note_warnings dev) = fence dev"
  by (simp_all add: note_warnings_def Let_def)

lemma note_warnings_quiet: "quiet dev \<Longrightarrow> note_warnings dev = dev"
  by (simp add: note_warnings_def quiet_def)

lemma same_state_refl [simp]: "same_state dev dev"
  by (simp add: same_state_def)

lemma same_state_trans: "same_state a b \<Longrightarrow> same_state b c \<Longrightarrow> same_state a c"
  by (simp add: same_state_def)

lemma write_refused_same:
  "same_state dev (dev'\<lparr>append_pos := append_pos dev\<rparr>) \<Longrightarrow>
   pos_partition (position dev') = pos_partition (position dev) \<Longrightarrow>
   write_refused dev' il ins = write_refused dev il ins"
  by (simp add: same_state_def write_refused_def Let_def)

abbreviation seek_pos :: "nat \<Rightarrow> nat \<Rightarrow> tc_position" where
  "seek_pos prt blk \<equiv> \<lparr>pos_block = blk, pos_filemarks = 0, pos_partition = prt,
     pos_early_warning = False, pos_programmable_early_warning = False\<rparr>"

context tape_backend
begin

abbreviation contents :: "'s device_data \<Rightarrow> nat \<Rightarrow> tape_record list" where
  "contents dev \<equiv> tape_of (backend_data dev)"

lemma length_tape:
  assumes "good s" "p < 2"
  shows "length (tape_of s p) < TAPE_BLOCK_MAX"
proof -
  obtain pos' s' where "good s'" "tape_of s' = tape_of s"
    "at s' = (p, min TAPE_BLOCK_MAX (length (tape_of s p)))"
    using locate_law [of s "seek_pos p TAPE_BLOCK_MAX"] assms by auto
  then show ?thesis using at_partition [of s'] by fastforce
qed

lemma seek_ok:
  assumes sync: "synced good at dev" and p: "prt < 2"
    and blk: "blk \<le> length (contents dev prt) \<or> blk = TAPE_BLOCK_MAX"
  obtains dev' where "tape_seek ops now dev (seek_pos prt blk) = (Inr (), dev')" "synced good at dev'"
    "contents dev' = contents dev" "at (backend_data dev') = (prt, min blk (length (contents dev prt)))"
    "roomy (backend_data dev') = roomy (backend_data dev)" "limit (backend_data dev') = limit (backend_data dev)"
    "fence dev' = fence dev"
    "quiet dev \<Longrightarrow> roomy (backend_data dev) prt (min blk (length (contents dev prt))) \<Longrightarrow> quiet dev' \<and> same_state dev dev'"
proof (cases "(prt = 0 \<and> blk = 0) \<or> prt \<noteq> pos_partition (position dev) \<or> blk \<noteq> pos_block (position dev)")
  case True
  let ?n = "min blk (length (contents dev prt))"
  from sync have "good (backend_data dev)" by (simp add: synced_def)
  with locate_law [of "backend_data dev" "seek_pos prt blk"] p obtain pos' s'
    where loc: "op_locate ops (backend_data dev) (seek_pos prt blk) (position dev) = (Inr (), pos', s')"
      "good s'" "tape_of s' = contents dev" "roomy s' = roomy (backend_data dev)"
      "limit s' = limit (backend_data dev)" "at s' = (prt, ?n)" "pos_partition pos' = prt" "pos_block pos' = ?n"
      "roomy (backend_data dev) prt ?n \<longrightarrow> keeps_warnings (position dev) pos'"
    by fastforce
  let ?dev = "note_warnings (dev\<lparr>position := pos', backend_data := s'\<rparr>)"
  have n: "?n = blk \<or> blk = TAPE_BLOCK_MAX" using blk by auto
  have "tape_seek ops now dev (seek_pos prt blk) = (Inr (), tape_medium_seen now ?dev)"
    using True loc n by (auto simp: tape_seek_def Let_def)
  moreover have "quiet (dev\<lparr>position := pos', backend_data := s'\<rparr>)"
    if "quiet dev" "roomy (backend_data dev) prt ?n"
    using that loc by (simp add: quiet_def keeps_warnings_def)
  then have "quiet ?dev \<and> same_state dev ?dev" if "quiet dev" "roomy (backend_data dev) prt ?n"
    using that by (simp add: note_warnings_quiet) (simp add: same_state_def)
  ultimately show ?thesis
    by (intro that [of "tape_medium_seen now ?dev"])
      (use loc in \<open>auto simp: synced_def quiet_def same_state_def\<close>)
next
  case False
  then have eq: "at (backend_data dev) = (prt, blk)" and g: "good (backend_data dev)"
    using sync by (auto simp: synced_def)
  then have le: "blk \<le> length (contents dev prt)" using at_partition by blast
  have "tape_seek ops now dev (seek_pos prt blk) = (Inr (), tape_medium_seen now dev)"
    using False by (auto simp: tape_seek_def)
  then show ?thesis
    by (rule that) (use eq sync le in \<open>auto simp: synced_def quiet_def same_state_def\<close>)
qed

lemma read_ok:
  assumes "synced good at dev" "at (backend_data dev) = (p, b)" "b < length (contents dev p)"
    "contents dev p ! b = Data d"
  obtains dev' where
    "tape_read ops rekey now dev buf count unusual =
       (Inr (min count (length d)), take count d @ drop (min count (length d)) buf, dev')"
    "synced good at dev'" "contents dev' = contents dev" "at (backend_data dev') = (p, b + 1)"
    "same_state dev dev'"
proof -
  from assms have g: "good (backend_data dev)" by (simp add: synced_def)
  from read_data_law [OF g assms(2-4)] obtain s' where
    rd: "op_read ops (backend_data dev) buf count (position dev) unusual =
      (Inr (min count (length d)), take count d @ drop (min count (length d)) buf, (position dev)\<lparr>pos_block := b + 1\<rparr>, s')"
      "good s'" "tape_of s' = contents dev" "at s' = (p, b + 1)"
    by blast
  let ?dev = "tape_medium_seen now (dev\<lparr>position := (position dev)\<lparr>pos_block := b + 1\<rparr>, backend_data := s'\<rparr>)"
  have "tape_read ops rekey now dev buf count unusual =
       (Inr (min count (length d)), take count d @ drop (min count (length d)) buf, ?dev)"
    by (simp add: tape_read_def rd)
  then show ?thesis
    by (rule that) (use rd assms in \<open>auto simp: synced_def same_state_def\<close>)
qed

lemma write_ok:
  assumes "synced good at dev" "quiet dev" "at (backend_data dev) = (p, b)" "write_refused dev il ins = None"
    "d \<noteq> []" "length d \<le> limit (backend_data dev)" "length d \<le> dev_max_block_size dev"
    "b + 1 < TAPE_BLOCK_MAX" "roomy (backend_data dev) p (b + 1)"
  obtains dev' where
    "tape_write ops now dev d il ins = (Inr (length d), dev')" "synced good at dev'" "quiet dev'"
    "at (backend_data dev') = (p, b + 1)"
    "contents dev' = (contents dev)(p := take b (contents dev p) @ [Data d])"
    "append_pos dev' = (append_pos dev)(p := b + 1)"
    "roomy (backend_data dev') = roomy (backend_data dev)" "limit (backend_data dev') = limit (backend_data dev)"
    "same_state dev (dev'\<lparr>append_pos := append_pos dev\<rparr>)"
proof -
  from assms have g: "good (backend_data dev)" and pp: "p = pos_partition (position dev)"
    by (auto simp: synced_def)
  from write_law [OF g assms(3,5,6,8)] assms(9) obtain pos' s' where
    wr: "op_write ops (backend_data dev) d (position dev) = (Inr (length d), pos', s')" "good s'"
      "tape_of s' = (contents dev)(p := take b (contents dev p) @ [Data d])" "at s' = (p, b + 1)"
      "roomy s' = roomy (backend_data dev)" "limit s' = limit (backend_data dev)"
      "pos_partition pos' = p" "pos_block pos' = b + 1" "keeps_warnings (position dev) pos'"
    using pp by metis
  let ?dev = "(tape_medium_seen now (dev\<lparr>position := pos', backend_data := s'\<rparr>))\<lparr>
     capacity_written := u64 (capacity_written dev + length d), medium_modified := True\<rparr>"
  have "tape_write ops now dev d il ins = (Inr (length d), set_append_here ?dev)"
    using assms wr by (simp add: tape_write_def keeps_warnings_def quiet_def)
  then show ?thesis
    by (rule that)
      (use wr assms(2) in \<open>auto simp: synced_def quiet_def keeps_warnings_def same_state_def set_append_here_def\<close>)
qed

lemma seek_append_ok:
  assumes sync: "synced good at dev" and q: "quiet dev" and p: "prt < 2"
    and ap: "append_pos dev prt \<le> length (contents dev prt)"
    and ow: "\<not> (unlock_write \<and> append_only_mode dev)"
    and b: "b = (if append_pos dev prt = 0 then length (contents dev prt) else append_pos dev prt)"
    and room: "roomy (backend_data dev) prt b"
  obtains dev' where "tape_seek_append_position ops now dev prt unlock_write = (Inr (), dev')"
    "synced good at dev'" "quiet dev'" "contents dev' = contents dev" "at (backend_data dev') = (prt, b)"
    "append_pos dev' = (append_pos dev)(prt := b)"
    "roomy (backend_data dev') = roomy (backend_data dev)" "limit (backend_data dev') = limit (backend_data dev)"
    "same_state dev (dev'\<lparr>append_pos := append_pos dev\<rparr>)"
proof -
  let ?blk = "if append_pos dev prt = 0 then TAPE_BLOCK_MAX else append_pos dev prt"
  have "length (contents dev prt) < TAPE_BLOCK_MAX"
    using length_tape sync p by (simp add: synced_def)
  then have min: "min ?blk (length (contents dev prt)) = b" using ap b by auto
  have "?blk \<le> length (contents dev prt) \<or> ?blk = TAPE_BLOCK_MAX" using ap by simp
  from seek_ok [OF sync p this, where now = now, unfolded min] obtain dev' where
    sk: "tape_seek ops now dev (seek_pos prt ?blk) = (Inr (), dev')" "synced good at dev'"
    "contents dev' = contents dev" "at (backend_data dev') = (prt, b)"
    "roomy (backend_data dev') = roomy (backend_data dev)" "limit (backend_data dev') = limit (backend_data dev)"
    "quiet dev' \<and> same_state dev dev'"
    using q room by blast
  have pb: "pos_block (position dev') = b" using sk by (simp add: synced_def)
  let ?dev = "if append_pos dev' prt = 0 then dev'\<lparr>append_pos := (append_pos dev')(prt := pos_block (position dev'))\<rparr> else dev'"
  have "tape_seek_append_position ops now dev prt unlock_write = (Inr (), ?dev)"
    using sk ow by (auto simp: tape_seek_append_position_def Let_def same_state_def)
  then show ?thesis
    by (rule that) (use sk pb b in \<open>auto simp: synced_def quiet_def same_state_def\<close>)
qed

end

end
