(* ===== verification/FsRaw.thy ===== *)
theory FsRaw
  imports Extents TapeDevice
begin

text \<open>
  Raw file access, \<open>src/src/libltfs/ltfs_fsops_raw.c\<close>: writing blocks, recording them in the extent
  list of a file, reading them back and truncating.

  The model is sequential.  Taking the volume lock gives the state of revalidation, \<open>reval\<close>, as it is
  when the lock has been taken; the other locks do not appear.  What these functions call and this
  development does not model are parameters: \<open>wi\<close> is \<open>ltfs_write_index\<close>, \<open>jm\<close> the entry that
  \<open>ltfs_set_dentry_dirty\<close> makes in the journal, \<open>rv\<close> and \<open>wv\<close> are \<open>ltfs_revalidate\<close> and
  \<open>ltfs_wait_revalidation\<close>.  They act on the whole volume, whose field \<open>others\<close> stands for the
  parts of \<open>struct ltfs_volume\<close> only they use.  The functions that start over after a revalidation
  take the number of attempts as their first argument.
\<close>

section \<open>Volumes and files\<close>

record index_flags =
  idx_dirty :: bool
  idx_inc_dirty :: bool
  idx_atime_dirty :: bool
  use_atime :: bool
  idx_version :: nat
  write_version :: nat
  selfptr_partition :: char

record ('s, 'o) ltfs_volume =
  device :: "'s device_data"
  blocksize :: nat
  partid_ip :: char
  partid_dp :: char
  part_num2id :: "nat \<Rightarrow> char"
  ip_index_file_end :: bool
  dp_index_file_end :: bool
  first_locate :: ltfs_timespec
  vol_last_block :: "byte list option"
  last_pos_partition :: char
  last_pos_block :: nat
  last_size :: nat
  reval :: "error option"
  index :: index_flags
  others :: 'o

record dentry =
  d_size :: nat
  d_realsize :: nat
  extentlist :: "extent_info list"
  modify_time :: ltfs_timespec
  change_time :: ltfs_timespec
  access_time :: ltfs_timespec
  extents_dirty :: bool
  d_dirty :: bool
  has_parent :: bool

definition ltfs_part_id2num :: "char \<Rightarrow> ('s, 'o) ltfs_volume \<Rightarrow> nat" where
  "ltfs_part_id2num ident vol =
     (if part_num2id vol 0 = ident then 0 else if part_num2id vol 1 = ident then 1 else two32 - 1)"

lemma part_id2num_simps [simp]:
  "ltfs_part_id2num c (vol\<lparr>device := dev\<rparr>) = ltfs_part_id2num c vol"
  "ltfs_part_id2num c (vol\<lparr>first_locate := ts\<rparr>) = ltfs_part_id2num c vol"
  "ltfs_part_id2num c (vol\<lparr>vol_last_block := lb\<rparr>) = ltfs_part_id2num c vol"
  "ltfs_part_id2num c (vol\<lparr>last_pos_partition := x\<rparr>) = ltfs_part_id2num c vol"
  "ltfs_part_id2num c (vol\<lparr>last_pos_block := n\<rparr>) = ltfs_part_id2num c vol"
  "ltfs_part_id2num c (vol\<lparr>last_size := n\<rparr>) = ltfs_part_id2num c vol"
  "ltfs_part_id2num c (vol\<lparr>index := idx\<rparr>) = ltfs_part_id2num c vol"
  "ltfs_part_id2num c (vol\<lparr>others := y\<rparr>) = ltfs_part_id2num c vol"
  "ltfs_part_id2num c (vol\<lparr>ip_index_file_end := v\<rparr>) = ltfs_part_id2num c vol"
  "ltfs_part_id2num c (vol\<lparr>dp_index_file_end := v\<rparr>) = ltfs_part_id2num c vol"
  by (simp_all add: ltfs_part_id2num_def)

definition ltfs_get_volume_lock :: "('s, 'o) ltfs_volume \<Rightarrow> error + unit" where
  "ltfs_get_volume_lock vol = (case reval vol of None \<Rightarrow> Inr () | Some e \<Rightarrow> Inl e)"

definition ltfs_get_partition_readonly :: "'s tape_ops \<Rightarrow> char \<Rightarrow> ('s, 'o) ltfs_volume \<Rightarrow> error + unit" where
  "ltfs_get_partition_readonly ops part vol =
     (if part \<noteq> partid_dp vol \<and> part \<noteq> partid_ip vol then Inl LTFS_BAD_PARTNUM
      else tape_read_only ops (device vol) (ltfs_part_id2num part vol))"

text \<open>The index is never NULL here, and the directory cache is off.\<close>

definition ltfs_set_index_dirty :: "bool \<Rightarrow> index_flags \<Rightarrow> index_flags" where
  "ltfs_set_index_dirty atime idx =
     (let idx = (if atime then idx\<lparr>idx_atime_dirty := True\<rparr>
                 else idx\<lparr>idx_dirty := True, idx_inc_dirty := True\<rparr>) in
      if \<not> atime \<or> use_atime idx then idx\<lparr>idx_version := write_version idx\<rparr> else idx)"

definition ltfs_set_dentry_dirty ::
  "(dentry \<Rightarrow> ('s, 'o) ltfs_volume \<Rightarrow> ('s, 'o) ltfs_volume) \<Rightarrow> dentry \<Rightarrow> ('s, 'o) ltfs_volume \<Rightarrow>
   dentry \<times> ('s, 'o) ltfs_volume" where
  "ltfs_set_dentry_dirty jm d vol =
     (d\<lparr>d_dirty := True\<rparr>, if \<not> d_dirty d \<and> has_parent d then jm d vol else vol)"

definition ltfs_write_index_conditional ::
  "(char \<Rightarrow> ('s, 'o) ltfs_volume \<Rightarrow> (error + unit) \<times> ('s, 'o) ltfs_volume) \<Rightarrow> char \<Rightarrow> ('s, 'o) ltfs_volume \<Rightarrow>
   (error + unit) \<times> ('s, 'o) ltfs_volume" where
  "ltfs_write_index_conditional wi part vol =
     (if part = partid_ip vol \<and> \<not> ip_index_file_end vol then wi part vol
      else if part = partid_dp vol \<and>
        (\<not> dp_index_file_end vol \<or>
         (ip_index_file_end vol \<and> selfptr_partition (index vol) = partid_ip vol)) then wi part vol
      else (Inr (), vol))"

section \<open>Writing data\<close>

text \<open>The loop over the blocks of the buffer.  A block size of 0 would make it run forever.\<close>

function write_blocks ::
  "'s tape_ops \<Rightarrow> ltfs_timespec \<Rightarrow> nat \<Rightarrow> byte list \<Rightarrow> 's device_data \<Rightarrow> (error + unit) \<times> 's device_data" where
  "write_blocks ops now bs buf dev =
     (if buf = [] then (Inr (), dev)
      else if bs = 0 then (Inl C_UNDEFINED, dev)
      else case tape_write ops now dev (take bs buf) False False of
          (Inl e, dev) \<Rightarrow> (Inl e, dev)
        | (Inr _, dev) \<Rightarrow> write_blocks ops now bs (drop bs buf) dev)"
  by pat_completeness auto
termination
  by (relation "measure (\<lambda>(_, _, _, buf, _). length buf)") auto

declare write_blocks.simps [simp del]

primrec write_repeat ::
  "nat \<Rightarrow> 's tape_ops \<Rightarrow> ltfs_timespec \<Rightarrow> nat \<Rightarrow> byte list \<Rightarrow> 's device_data \<Rightarrow> (error + unit) \<times> 's device_data" where
  "write_repeat 0 ops now bs buf dev = (Inr (), dev)"
| "write_repeat (Suc n) ops now bs buf dev =
     (case write_blocks ops now bs buf dev of
        (Inl e, dev) \<Rightarrow> (Inl e, dev)
      | (Inr _, dev) \<Rightarrow> write_repeat n ops now bs buf dev)"

text \<open>What every path after the device lock does at its end.\<close>

definition fence_on_error :: "(error + 'r) \<Rightarrow> ('s, 'o) ltfs_volume \<Rightarrow> ('s, 'o) ltfs_volume" where
  "fence_on_error ret vol =
     (case ret of
        Inl e \<Rightarrow>
          if NEED_REVAL e then vol\<lparr>device := tape_start_fence (device vol)\<rparr>
          else if IS_UNEXPECTED_MOVE e then vol\<lparr>reval := Some LTFS_REVAL_FAILED\<rparr>
          else vol
      | Inr _ \<Rightarrow> vol)"

text \<open>
  \<open>lock_ok\<close> is the result of locking the device mutex; \<open>ts_start\<close>, \<open>ts_end\<close> and \<open>now\<close> are clock
  readings.  The result is the first block written.
\<close>

definition write_data_locked ::
  "'s tape_ops \<Rightarrow> (char \<Rightarrow> ('s, 'o) ltfs_volume \<Rightarrow> (error + unit) \<times> ('s, 'o) ltfs_volume) \<Rightarrow>
   ltfs_timespec \<times> ltfs_timespec \<times> ltfs_timespec \<Rightarrow> char \<Rightarrow> byte list \<Rightarrow> nat \<Rightarrow> nat \<Rightarrow> ('s, 'o) ltfs_volume \<Rightarrow>
   (error + nat) \<times> ('s, 'o) ltfs_volume" where
  "write_data_locked ops wi clock part buf repetitions startblock vol =
     (case ltfs_get_partition_readonly ops part vol of
        Inl e \<Rightarrow> (Inl e, vol)
      | Inr _ \<Rightarrow> (case ltfs_write_index_conditional wi
            (if part = partid_ip vol then partid_dp vol else partid_ip vol) vol of
        (Inl e, vol) \<Rightarrow> (Inl e, vol)
      | (Inr _, vol) \<Rightarrow>
          let (ts_start, ts_end, now) = clock;
              is_first_dp_locate = (part \<noteq> partid_ip vol \<and> first_locate vol = (0, 0));
              vol = (if part = partid_ip vol then vol\<lparr>ip_index_file_end := False\<rparr>
                     else vol\<lparr>dp_index_file_end := False\<rparr>);
              vol = (if is_first_dp_locate then vol\<lparr>first_locate := (- 1, snd (first_locate vol))\<rparr> else vol) in
          (case tape_seek_append_position ops now (device vol) (ltfs_part_id2num part vol) (part = partid_ip vol) of
             (Inl e, dev) \<Rightarrow> (Inl e, vol\<lparr>device := dev\<rparr>)
           | (Inr _, dev) \<Rightarrow>
               let vol = vol\<lparr>device := dev\<rparr>;
                   vol = (if is_first_dp_locate then vol\<lparr>first_locate := timer_sub ts_end ts_start\<rparr> else vol);
                   start = pos_block (tape_get_position dev) in
               (case write_repeat repetitions ops now (blocksize vol) buf dev of
                  (Inl e, dev) \<Rightarrow> (Inl e, vol\<lparr>device := dev\<rparr>)
                | (Inr _, dev) \<Rightarrow> (Inr start, vol\<lparr>device := dev\<rparr>)))))"

definition fsraw_write_data_unlocked ::
  "'s tape_ops \<Rightarrow> (char \<Rightarrow> ('s, 'o) ltfs_volume \<Rightarrow> (error + unit) \<times> ('s, 'o) ltfs_volume) \<Rightarrow> bool \<Rightarrow>
   ltfs_timespec \<times> ltfs_timespec \<times> ltfs_timespec \<Rightarrow> char \<Rightarrow> byte list \<Rightarrow> nat \<Rightarrow> nat \<Rightarrow> ('s, 'o) ltfs_volume \<Rightarrow>
   (error + nat) \<times> ('s, 'o) ltfs_volume" where
  "fsraw_write_data_unlocked ops wi lock_ok clock part buf repetitions startblock vol =
     (if part \<noteq> partid_dp vol \<and> part \<noteq> partid_ip vol then (Inl LTFS_BAD_PARTNUM, vol)
      else if buf = [] \<or> repetitions = 0 then (Inr startblock, vol)
      else if 1 < repetitions \<and> length buf mod blocksize vol \<noteq> 0 then (Inl LTFS_BAD_ARG, vol)
      else case tape_device_lock lock_ok (device vol) of
          Inl e \<Rightarrow> (Inl e, vol)
        | Inr _ \<Rightarrow>
            let (ret, vol) = write_data_locked ops wi clock part buf repetitions startblock vol in
            (ret, fence_on_error ret vol))"

primrec ltfs_fsraw_write_data ::
  "nat \<Rightarrow> 's tape_ops \<Rightarrow> (char \<Rightarrow> ('s, 'o) ltfs_volume \<Rightarrow> (error + unit) \<times> ('s, 'o) ltfs_volume) \<Rightarrow>
   (('s, 'o) ltfs_volume \<Rightarrow> (error + unit) \<times> ('s, 'o) ltfs_volume) \<Rightarrow>
   (('s, 'o) ltfs_volume \<Rightarrow> (error + unit) \<times> ('s, 'o) ltfs_volume) \<Rightarrow> bool \<Rightarrow>
   ltfs_timespec \<times> ltfs_timespec \<times> ltfs_timespec \<Rightarrow> char \<Rightarrow> byte list \<Rightarrow> nat \<Rightarrow> nat \<Rightarrow> ('s, 'o) ltfs_volume \<Rightarrow>
   (error + nat) \<times> ('s, 'o) ltfs_volume" where
  "ltfs_fsraw_write_data 0 ops wi rv wv lock_ok clock part buf repetitions startblock vol = (Inl C_UNDEFINED, vol)"
| "ltfs_fsraw_write_data (Suc n) ops wi rv wv lock_ok clock part buf repetitions startblock vol =
     (case ltfs_get_volume_lock vol of
        Inl e \<Rightarrow> (Inl e, vol)
      | Inr _ \<Rightarrow>
          let (ret, vol) = fsraw_write_data_unlocked ops wi lock_ok clock part buf repetitions startblock vol in
          (case ret of
             Inr blk \<Rightarrow> (Inr blk, vol)
           | Inl e \<Rightarrow>
               if e = LTFS_DEVICE_FENCED \<or> NEED_REVAL e then
                 (case (if e = LTFS_DEVICE_FENCED then wv vol else rv vol) of
                    (Inl e, vol) \<Rightarrow> (Inl e, vol)
                  | (Inr _, vol) \<Rightarrow>
                      ltfs_fsraw_write_data n ops wi rv wv lock_ok clock part buf repetitions startblock vol)
               else if IS_UNEXPECTED_MOVE e then (Inl e, vol\<lparr>reval := Some LTFS_REVAL_FAILED\<rparr>)
               else (Inl e, vol)))"

section \<open>Recording an extent\<close>

text \<open>\<open>copy_ok\<close> and \<open>split_ok\<close> are the results of the two allocations.\<close>

definition fsraw_add_extent_unlocked ::
  "(dentry \<Rightarrow> ('s, 'o) ltfs_volume \<Rightarrow> ('s, 'o) ltfs_volume) \<Rightarrow> bool \<Rightarrow> bool \<Rightarrow> ltfs_timespec \<Rightarrow> dentry \<Rightarrow>
   extent_info \<Rightarrow> bool \<Rightarrow> ('s, 'o) ltfs_volume \<Rightarrow> (error + unit) \<times> dentry \<times> ('s, 'o) ltfs_volume" where
  "fsraw_add_extent_unlocked jm copy_ok split_ok now d ext update_time vol =
     (if \<not> copy_ok then (Inl LTFS_NO_MEMORY, d, vol)
      else case add_extent_loop (blocksize vol) split_ok ext (rev (extentlist d)) [] (d_realsize d) of
          (es, None) \<Rightarrow> (Inl LTFS_NO_MEMORY, d\<lparr>extentlist := es\<rparr>, vol)
        | (es, Some (realsize_new, ext_used)) \<Rightarrow>
            let d = d\<lparr>extentlist := (if ext_used then es else ext # es),
                      d_size := (if d_size d < fileoffset_end ext then fileoffset_end ext else d_size d),
                      d_realsize := (if ext_used then realsize_new else u64 (realsize_new + bytecount ext))\<rparr>;
                d = (if update_time then d\<lparr>modify_time := now, change_time := now\<rparr> else d);
                d = d\<lparr>extents_dirty := True\<rparr>;
                (d, vol) = ltfs_set_dentry_dirty jm d vol in
            (Inr (), d, vol\<lparr>index := ltfs_set_index_dirty False (index vol)\<rparr>))"

text \<open>The directory cache is off, so there is no extent list to flush.\<close>

definition ltfs_fsraw_add_extent ::
  "'s tape_ops \<Rightarrow> (dentry \<Rightarrow> ('s, 'o) ltfs_volume \<Rightarrow> ('s, 'o) ltfs_volume) \<Rightarrow> bool \<Rightarrow> bool \<Rightarrow> ltfs_timespec \<Rightarrow>
   dentry \<Rightarrow> extent_info \<Rightarrow> bool \<Rightarrow> ('s, 'o) ltfs_volume \<Rightarrow> (error + unit) \<times> dentry \<times> ('s, 'o) ltfs_volume" where
  "ltfs_fsraw_add_extent ops jm copy_ok split_ok now d ext update_time vol =
     (let refuse = (\<lambda>ret. case ret of
            Inl e \<Rightarrow> if e \<noteq> LTFS_NO_SPACE \<and> e \<noteq> LTFS_LESS_SPACE then Some e else None | Inr _ \<Rightarrow> None) in
      case refuse (ltfs_get_partition_readonly ops (partid_ip vol) vol) of
        Some e \<Rightarrow> (Inl e, d, vol)
      | None \<Rightarrow> (case refuse (ltfs_get_partition_readonly ops (partid_dp vol) vol) of
        Some e \<Rightarrow> (Inl e, d, vol)
      | None \<Rightarrow> (case ltfs_get_volume_lock vol of
        Inl e \<Rightarrow> (Inl e, d, vol)
      | Inr _ \<Rightarrow> fsraw_add_extent_unlocked jm copy_ok split_ok now d ext update_time vol)))"

primrec ltfs_fsraw_write ::
  "nat \<Rightarrow> 's tape_ops \<Rightarrow> (char \<Rightarrow> ('s, 'o) ltfs_volume \<Rightarrow> (error + unit) \<times> ('s, 'o) ltfs_volume) \<Rightarrow>
   (('s, 'o) ltfs_volume \<Rightarrow> (error + unit) \<times> ('s, 'o) ltfs_volume) \<Rightarrow>
   (('s, 'o) ltfs_volume \<Rightarrow> (error + unit) \<times> ('s, 'o) ltfs_volume) \<Rightarrow>
   (dentry \<Rightarrow> ('s, 'o) ltfs_volume \<Rightarrow> ('s, 'o) ltfs_volume) \<Rightarrow> bool \<Rightarrow> bool \<Rightarrow> bool \<Rightarrow>
   ltfs_timespec \<times> ltfs_timespec \<times> ltfs_timespec \<Rightarrow> dentry \<Rightarrow> byte list \<Rightarrow> nat \<Rightarrow> char \<Rightarrow> bool \<Rightarrow>
   ('s, 'o) ltfs_volume \<Rightarrow> (error + unit) \<times> dentry \<times> ('s, 'o) ltfs_volume" where
  "ltfs_fsraw_write 0 ops wi rv wv jm lock_ok copy_ok split_ok clock d buf offset part update_time vol =
     (Inl C_UNDEFINED, d, vol)"
| "ltfs_fsraw_write (Suc n) ops wi rv wv jm lock_ok copy_ok split_ok clock d buf offset part update_time vol =
     (case ltfs_get_volume_lock vol of
        Inl e \<Rightarrow> (Inl e, d, vol)
      | Inr _ \<Rightarrow>
          let (ret, vol) = fsraw_write_data_unlocked ops wi lock_ok clock part buf 1 0 vol in
          (case ret of
             Inl e \<Rightarrow>
               if e = LTFS_DEVICE_FENCED \<or> NEED_REVAL e then
                 (case (if e = LTFS_DEVICE_FENCED then wv vol else rv vol) of
                    (Inl e, vol) \<Rightarrow> (Inl e, d, vol)
                  | (Inr _, vol) \<Rightarrow>
                      ltfs_fsraw_write n ops wi rv wv jm lock_ok copy_ok split_ok clock d buf offset part
                        update_time vol)
               else if IS_UNEXPECTED_MOVE e then (Inl e, d, vol\<lparr>reval := Some LTFS_REVAL_FAILED\<rparr>)
               else (Inl e, d, vol)
           | Inr start \<Rightarrow>
               fsraw_add_extent_unlocked jm copy_ok split_ok (snd (snd clock)) d
                 \<lparr>ext_block = start, ext_partition = part, byteoffset = 0, bytecount = length buf,
                  fileoffset = offset\<rparr> update_time vol))"

section \<open>Reading\<close>

text \<open>\<open>memcpy\<close> or \<open>memset\<close> into the buffer; \<open>None\<close> is a write outside of it.\<close>

definition blit :: "byte list \<Rightarrow> nat \<Rightarrow> byte list \<Rightarrow> byte list option" where
  "blit buf i bs =
     (if i + length bs \<le> length buf then Some (take i buf @ bs @ drop (i + length bs) buf) else None)"

text \<open>
  The variables of \<open>ltfs_fsraw_read\<close> that live across its loops.
\<close>

record ('s, 'o) read_state =
  rd_vol :: "('s, 'o) ltfs_volume"
  rd_buf :: "byte list"
  next_off :: nat
  read_count :: nat
  is_first_dp_locate :: bool

text \<open>The bytes \<open>i\<close>, \<open>i + 1\<close>, ... of the block cache; \<open>None\<close> is a read outside of it.\<close>

definition slice :: "byte list \<Rightarrow> nat \<Rightarrow> nat \<Rightarrow> byte list option" where
  "slice xs i n = (if i + n \<le> length xs then Some (take n (drop i xs)) else None)"

text \<open>
  The block of the tape the loop is at, in the block cache of the volume: \<open>Inl\<close> is an error, \<open>Inr\<close>
  the new block number of \<open>curpos\<close>.
\<close>

definition fetch_block ::
  "'s tape_ops \<Rightarrow> ('s \<Rightarrow> 's option) \<Rightarrow> ltfs_timespec \<Rightarrow> extent_info \<Rightarrow> nat \<times> nat \<Rightarrow> nat \<times> nat \<Rightarrow> nat \<Rightarrow>
   ('s, 'o) ltfs_volume \<Rightarrow> (error + nat) \<times> ('s, 'o) ltfs_volume" where
  "fetch_block ops rekey now entry seekpos curpos blockbytes vol =
     (if ext_partition entry = last_pos_partition vol \<and> snd seekpos = last_pos_block vol \<and>
         fst seekpos = fst curpos \<and> u64 (snd seekpos + 1) = snd curpos
      then (if last_size vol < blockbytes then Inl LTFS_SMALL_BLOCK else Inr (snd curpos), vol)
      else let (ret, lb, dev) = tape_read ops rekey now (device vol) (the (vol_last_block vol)) (blocksize vol)
                 (blocksize vol \<noteq> blockbytes);
               vol = vol\<lparr>device := dev, vol_last_block := Some lb\<rparr> in
        case ret of
          Inl e \<Rightarrow> (Inl e, vol)
        | Inr nread \<Rightarrow>
            if nread < blockbytes then (Inl LTFS_SMALL_BLOCK, vol)
            else (Inr (u64 (snd curpos + 1)),
                  vol\<lparr>last_pos_partition := ext_partition entry, last_pos_block := snd seekpos,
                      last_size := nread\<rparr>))"

text \<open>
  The loop over the blocks of one extent.  Every round copies at least one byte of the \<open>count\<close> bytes
  asked for, which bounds the number of rounds by \<open>fuel\<close>.
\<close>

primrec read_blocks ::
  "nat \<Rightarrow> 's tape_ops \<Rightarrow> ('s \<Rightarrow> 's option) \<Rightarrow> ltfs_timespec \<Rightarrow> extent_info \<Rightarrow> nat \<Rightarrow> nat \<Rightarrow>
   nat \<times> nat \<Rightarrow> nat \<times> nat \<Rightarrow> nat \<Rightarrow> nat \<Rightarrow> ('s, 'o) read_state \<Rightarrow> (error + unit) \<times> ('s, 'o) read_state" where
  "read_blocks 0 ops rekey now entry count last_off seekpos curpos firstbyte lastbyte st = (Inl C_UNDEFINED, st)"
| "read_blocks (Suc fuel) ops rekey now entry count last_off seekpos curpos firstbyte lastbyte st =
     (let entry_end = fileoffset_end entry;
          bs = blocksize (rd_vol st) in
      if \<not> (next_off st < entry_end \<and> read_count st < count) then (Inr (), st)
      else
        let lastbyte = u64 (lastbyte + bs);
            lastbyte = (if entry_end < lastbyte then entry_end else lastbyte);
            blockbytes = u64_sub lastbyte firstbyte;
            (ret, vol) = fetch_block ops rekey now entry seekpos curpos blockbytes (rd_vol st);
            st = st\<lparr>rd_vol := vol\<rparr> in
        case ret of
          Inl e \<Rightarrow> (Inl e, st)
        | Inr curblock \<Rightarrow>
            let ncopy = u64_sub (if last_off < lastbyte then last_off else lastbyte) (next_off st) in
            (case slice (the (vol_last_block vol)) (u64_sub (next_off st) firstbyte) ncopy of
               None \<Rightarrow> (Inl C_UNDEFINED, st)
             | Some bytes \<Rightarrow>
                 (case blit (rd_buf st) (read_count st) bytes of
                    None \<Rightarrow> (Inl C_UNDEFINED, st)
                  | Some buf \<Rightarrow>
                      read_blocks fuel ops rekey now entry count last_off (fst seekpos, u64 (snd seekpos + 1))
                        (fst curpos, curblock) (u64 (firstbyte + bs)) lastbyte
                        (st\<lparr>rd_buf := buf, next_off := u64 (next_off st + ncopy),
                            read_count := u64 (read_count st + ncopy)\<rparr>))))"

text \<open>Getting to the first block of the extent that is needed, unless it is the block in the cache.\<close>

definition seek_extent ::
  "'s tape_ops \<Rightarrow> ltfs_timespec \<times> ltfs_timespec \<times> ltfs_timespec \<Rightarrow> extent_info \<Rightarrow> nat \<times> nat \<Rightarrow> nat \<times> nat \<Rightarrow>
   ('s, 'o) read_state \<Rightarrow> (error + unit) \<times> ('s, 'o) read_state" where
  "seek_extent ops clock entry seekpos curpos st =
     (let (ts_start, ts_end, now) = clock;
          vol = rd_vol st in
      if curpos \<noteq> seekpos \<and>
         \<not> (fst curpos = fst seekpos \<and> snd curpos = u64 (snd seekpos + 1) \<and>
            ext_partition entry = last_pos_partition vol \<and> snd seekpos = last_pos_block vol)
      then
        let first = (first_locate vol = (0, 0) \<and> fst seekpos = of_char (partid_dp vol));
            st = (if first then st\<lparr>is_first_dp_locate := True\<rparr> else st);
            vol = (if first then vol\<lparr>first_locate := (- 1, snd (first_locate vol))\<rparr> else vol);
            (ret, dev) = tape_seek ops now (device vol)
              \<lparr>pos_block = snd seekpos, pos_filemarks = 0, pos_partition = fst seekpos,
               pos_early_warning = False, pos_programmable_early_warning = False\<rparr>;
            vol = vol\<lparr>device := dev\<rparr> in
        (case ret of
           Inl e \<Rightarrow> (Inl e, st\<lparr>rd_vol := vol\<rparr>)
         | Inr _ \<Rightarrow>
             (Inr (), st\<lparr>rd_vol := (if is_first_dp_locate st
                                   then vol\<lparr>first_locate := timer_sub ts_end ts_start\<rparr> else vol)\<rparr>))
      else (Inr (), st))"

definition read_extent ::
  "'s tape_ops \<Rightarrow> ('s \<Rightarrow> 's option) \<Rightarrow> ltfs_timespec \<times> ltfs_timespec \<times> ltfs_timespec \<Rightarrow> nat \<Rightarrow> nat \<Rightarrow>
   extent_info \<Rightarrow> ('s, 'o) read_state \<Rightarrow> (error + unit) \<times> ('s, 'o) read_state" where
  "read_extent ops rekey clock count last_off entry st =
     (let bs = blocksize (rd_vol st);
          curp = tape_get_position (device (rd_vol st));
          curpos = (pos_partition curp, pos_block curp);
          seekpos = (ltfs_part_id2num (ext_partition entry) (rd_vol st),
            u64 (ext_block entry + u64 (u64_sub (next_off st) (fileoffset entry) + byteoffset entry) div bs)) in
      if bs = 0 then (Inl C_UNDEFINED, st)
      else case seek_extent ops clock entry seekpos curpos st of
        (Inl e, st) \<Rightarrow> (Inl e, st)
      | (Inr _, st) \<Rightarrow>
          let firstbyte = u64 (u64_sub (fileoffset entry) (byteoffset entry) +
                u64 (u64_sub (snd seekpos) (ext_block entry) * bs)) in
          read_blocks (Suc count) ops rekey (snd (snd clock)) entry count last_off seekpos curpos
            firstbyte firstbyte st)"

fun read_extents ::
  "'s tape_ops \<Rightarrow> ('s \<Rightarrow> 's option) \<Rightarrow> ltfs_timespec \<times> ltfs_timespec \<times> ltfs_timespec \<Rightarrow> nat \<Rightarrow> nat \<Rightarrow>
   extent_info list \<Rightarrow> ('s, 'o) read_state \<Rightarrow> (error + unit) \<times> ('s, 'o) read_state" where
  "read_extents ops rekey clock count last_off [] st = (Inr (), st)"
| "read_extents ops rekey clock count last_off (entry # es) st =
     (if read_count st = count then (Inr (), st)
      else if next_off st < fileoffset entry \<and> last_off < fileoffset entry then
        (case blit (rd_buf st) (read_count st) (replicate (u64_sub last_off (next_off st)) 0) of
           None \<Rightarrow> (Inl C_UNDEFINED, st)
         | Some buf \<Rightarrow> (Inr (), st\<lparr>rd_buf := buf, read_count := count\<rparr>))
      else
        case (if next_off st < fileoffset entry
              then map_option (\<lambda>buf. st\<lparr>rd_buf := buf,
                     read_count := u64 (read_count st + u64_sub (fileoffset entry) (next_off st)),
                     next_off := fileoffset entry\<rparr>)
                   (blit (rd_buf st) (read_count st) (replicate (u64_sub (fileoffset entry) (next_off st)) 0))
              else Some st) of
          None \<Rightarrow> (Inl C_UNDEFINED, st)
        | Some st \<Rightarrow>
            (case (if next_off st < fileoffset_end entry
                   then read_extent ops rekey clock count last_off entry st else (Inr (), st)) of
               (Inl e, st) \<Rightarrow> (Inl e, st)
             | (Inr _, st) \<Rightarrow> read_extents ops rekey clock count last_off es st))"

text \<open>The hole at the end of a file whose size is behind its last extent.\<close>

definition fill_eof :: "nat \<Rightarrow> nat \<Rightarrow> nat \<Rightarrow> ('s, 'o) read_state \<Rightarrow> ('s, 'o) read_state option" where
  "fill_eof count last_off fsize st =
     (if read_count st < count \<and> next_off st < fsize then
        let ncopy = (if last_off < fsize then u64_sub last_off (next_off st) else u64_sub fsize (next_off st)) in
        map_option (\<lambda>buf. st\<lparr>rd_buf := buf, read_count := u64 (read_count st + ncopy)\<rparr>)
          (blit (rd_buf st) (read_count st) (replicate ncopy 0))
      else Some st)"

text \<open>
  One attempt of \<open>ltfs_fsraw_read\<close>, between the device lock and the label \<open>out_unlock\<close>.  \<open>block_mem\<close>
  is the result of allocating the block cache, with the bytes that are in it.
\<close>

definition read_locked ::
  "'s tape_ops \<Rightarrow> ('s \<Rightarrow> 's option) \<Rightarrow> byte list option \<Rightarrow> ltfs_timespec \<times> ltfs_timespec \<times> ltfs_timespec \<Rightarrow>
   dentry \<Rightarrow> byte list \<Rightarrow> nat \<Rightarrow> nat \<Rightarrow> ('s, 'o) ltfs_volume \<Rightarrow>
   (error + nat) \<times> byte list \<times> dentry \<times> ('s, 'o) ltfs_volume" where
  "read_locked ops rekey block_mem clock d buf count offset vol =
     (let vol = (if vol_last_block vol = None then vol\<lparr>vol_last_block := block_mem\<rparr> else vol) in
      if vol_last_block vol = None then (Inl LTFS_NO_MEMORY, buf, d, vol)
      else
        let last_off = u64 (offset + count);
            st = \<lparr>rd_vol = vol, rd_buf = buf, next_off = offset, read_count = 0,
                  is_first_dp_locate = False\<rparr> in
        case read_extents ops rekey clock count last_off (extentlist d) st of
          (Inl e, st) \<Rightarrow> (Inl e, rd_buf st, d, rd_vol st)
        | (Inr _, st) \<Rightarrow>
            (case fill_eof count last_off (d_size d) st of
               None \<Rightarrow> (Inl C_UNDEFINED, rd_buf st, d, rd_vol st)
             | Some st \<Rightarrow>
                 let vol = rd_vol st in
                 (Inr (read_count st), rd_buf st, d\<lparr>access_time := snd (snd clock)\<rparr>,
                  vol\<lparr>index := ltfs_set_index_dirty True (index vol)\<rparr>)))"

primrec ltfs_fsraw_read ::
  "nat \<Rightarrow> 's tape_ops \<Rightarrow> ('s \<Rightarrow> 's option) \<Rightarrow>
   (('s, 'o) ltfs_volume \<Rightarrow> (error + unit) \<times> ('s, 'o) ltfs_volume) \<Rightarrow>
   (('s, 'o) ltfs_volume \<Rightarrow> (error + unit) \<times> ('s, 'o) ltfs_volume) \<Rightarrow> bool \<Rightarrow>
   byte list option \<Rightarrow> ltfs_timespec \<times> ltfs_timespec \<times> ltfs_timespec \<Rightarrow>
   dentry \<Rightarrow> byte list \<Rightarrow> nat \<Rightarrow> nat \<Rightarrow> ('s, 'o) ltfs_volume \<Rightarrow>
   (error + nat) \<times> byte list \<times> dentry \<times> ('s, 'o) ltfs_volume" where
  "ltfs_fsraw_read 0 ops rekey rv wv lock_ok block_mem clock d buf count offset vol = (Inl C_UNDEFINED, buf, d, vol)"
| "ltfs_fsraw_read (Suc n) ops rekey rv wv lock_ok block_mem clock d buf count offset vol =
     (if count = 0 then (Inr 0, buf, d, vol)
      else case ltfs_get_volume_lock vol of
          Inl e \<Rightarrow> (Inl e, buf, d, vol)
        | Inr _ \<Rightarrow> (case tape_device_lock lock_ok (device vol) of
          Inl e \<Rightarrow>
            if e = LTFS_DEVICE_FENCED then
              (case wv vol of
                 (Inl e, vol) \<Rightarrow> (Inl e, buf, d, vol)
               | (Inr _, vol) \<Rightarrow>
                   ltfs_fsraw_read n ops rekey rv wv lock_ok block_mem clock d buf count offset vol)
            else (Inl e, buf, d, vol)
        | Inr _ \<Rightarrow>
            (case read_locked ops rekey block_mem clock d buf count offset vol of
               (Inr n, buf, d, vol) \<Rightarrow> (Inr n, buf, d, vol)
             | (Inl e, buf, d, vol) \<Rightarrow>
                 let vol = fence_on_error (Inl e :: error + unit) vol in
                 if NEED_REVAL e then
                   (case rv vol of
                      (Inl e, vol) \<Rightarrow> (Inl e, buf, d, vol)
                    | (Inr _, vol) \<Rightarrow>
                        ltfs_fsraw_read n ops rekey rv wv lock_ok block_mem clock d buf count offset vol)
                 else (Inl e, buf, d, vol))))"

section \<open>Truncating\<close>

definition ltfs_fsraw_truncate ::
  "(dentry \<Rightarrow> ('s, 'o) ltfs_volume \<Rightarrow> ('s, 'o) ltfs_volume) \<Rightarrow> ltfs_timespec \<Rightarrow> dentry \<Rightarrow> nat \<Rightarrow>
   ('s, 'o) ltfs_volume \<Rightarrow> (error + unit) \<times> dentry \<times> ('s, 'o) ltfs_volume" where
  "ltfs_fsraw_truncate jm now d ulength vol =
     (case ltfs_get_volume_lock vol of
        Inl e \<Rightarrow> (Inl e, d, vol)
      | Inr _ \<Rightarrow>
          let (es, new_realsize) =
                (if ulength < d_size d then truncate_loop ulength (rev (extentlist d)) [] (d_realsize d)
                 else (extentlist d, d_realsize d));
              d = d\<lparr>extentlist := es, d_size := ulength, d_realsize := new_realsize,
                    modify_time := now, change_time := now\<rparr>;
              (d, vol) = ltfs_set_dentry_dirty jm d vol in
          (Inr (), d, vol\<lparr>index := ltfs_set_index_dirty False (index vol)\<rparr>))"

section \<open>Dropping extents after a write error\<close>

text \<open>
  \<open>ltfs_fsraw_cleanup_extent\<close> walks the tree of files below a directory; the children are in the order
  \<open>HASH_ITER\<close> gives them.  It removes the extents that end at or behind the first block the drive has
  not put on the medium.
\<close>

datatype dtree = TFile dentry | TDir "dtree list"

definition extent_last :: "nat \<Rightarrow> ('s, 'o) ltfs_volume \<Rightarrow> extent_info \<Rightarrow> nat \<times> nat" where
  "extent_last bs vol ext =
     (if ext_block ext \<noteq> 0 \<and> bytecount ext \<noteq> 0
      then (ltfs_part_id2num (ext_partition ext) vol,
            let last = u64 (ext_block ext + bytecount ext div bs) in
            if bytecount ext mod bs = 0 then u64_sub last 1 else last)
      else (two32 - 1, 0))"

definition lost_extent :: "nat \<times> nat \<Rightarrow> nat \<Rightarrow> ('s, 'o) ltfs_volume \<Rightarrow> extent_info \<Rightarrow> bool" where
  "lost_extent err_pos bs vol ext =
     (let (p, b) = extent_last bs vol ext in p = fst err_pos \<and> snd err_pos \<le> b)"

text \<open>The loop over the extents of a file, from the last one on.\<close>

fun cleanup_file ::
  "nat \<times> nat \<Rightarrow> nat \<Rightarrow> ('s, 'o) ltfs_volume \<Rightarrow> extent_info list \<Rightarrow> extent_info list \<Rightarrow> nat \<Rightarrow>
   error option \<times> extent_info list \<times> nat" where
  "cleanup_file err_pos bs vol [] tail fsize = (None, tail, fsize)"
| "cleanup_file err_pos bs vol (ext # before) tail fsize =
     (if lost_extent err_pos bs vol ext then
        (case ltfs_get_volume_lock vol of
           Inl e \<Rightarrow> (Some e, rev before @ ext # tail, fsize)
         | Inr _ \<Rightarrow> cleanup_file err_pos bs vol before tail (u64_sub fsize (bytecount ext)))
      else cleanup_file err_pos bs vol before (ext # tail) fsize)"

text \<open>
  Only a failing volume lock makes the walk return early: \<open>Some\<close> is that error.  Inside a directory
  the result of a deeper call is overwritten by the next child, and the last one is returned.
\<close>

fun ltfs_fsraw_cleanup_extent ::
  "nat \<times> nat \<Rightarrow> nat \<Rightarrow> ('s, 'o) ltfs_volume \<Rightarrow> error + unit \<Rightarrow> dtree list \<Rightarrow> (error + unit) \<times> dtree list" where
  "ltfs_fsraw_cleanup_extent err_pos bs vol ret [] = (ret, [])"
| "ltfs_fsraw_cleanup_extent err_pos bs vol ret (TDir cs # ds) =
     (let (ret, cs) = ltfs_fsraw_cleanup_extent err_pos bs vol (Inr ()) cs;
          (ret, ds) = ltfs_fsraw_cleanup_extent err_pos bs vol ret ds in
      (ret, TDir cs # ds))"
| "ltfs_fsraw_cleanup_extent err_pos bs vol ret (TFile d # ds) =
     (case cleanup_file err_pos bs vol (rev (extentlist d)) [] (d_size d) of
        (Some e, es, fsize) \<Rightarrow> (Inl e, TFile (d\<lparr>extentlist := es, d_size := fsize\<rparr>) # ds)
      | (None, es, fsize) \<Rightarrow>
          let ret = (if es = extentlist d then ret else Inr ());
              (ret, ds) = ltfs_fsraw_cleanup_extent err_pos bs vol ret ds in
          (ret, TFile (d\<lparr>extentlist := es, d_size := fsize\<rparr>) # ds))"

end
