(* ===== verification/FsRawLaws.thy ===== *)
theory FsRawLaws
  imports FsRaw
begin

text \<open>
  What raw file access does on a backend that keeps the contract \<open>tape_backend\<close>: where the bytes of a
  buffer are on the tape after they have been written, and that reading a file gives the bytes its
  extents stand for.
\<close>

section \<open>Blocks and bytes\<close>

text \<open>A buffer cut into blocks.\<close>

function chunks :: "nat \<Rightarrow> 'a list \<Rightarrow> 'a list list" where
  "chunks bs xs = (if bs = 0 \<or> xs = [] then [] else take bs xs # chunks bs (drop bs xs))"
  by pat_completeness auto
termination
  by (relation "measure (\<lambda>(_, xs). length xs)") auto

declare chunks.simps [simp del]

lemma chunks_Nil [simp]: "chunks bs [] = []"
  by (simp add: chunks.simps)

lemma chunks_step: "0 < bs \<Longrightarrow> xs \<noteq> [] \<Longrightarrow> chunks bs xs = take bs xs # chunks bs (drop bs xs)"
  by (subst chunks.simps) simp

lemma chunks_nth:
  assumes "0 < bs" "i < length xs"
  shows "i div bs < length (chunks bs xs) \<and> i mod bs < length (chunks bs xs ! (i div bs)) \<and>
    chunks bs xs ! (i div bs) ! (i mod bs) = xs ! i"
  using assms
proof (induction bs xs arbitrary: i rule: chunks.induct)
  case (1 bs xs)
  then have step: "chunks bs xs = take bs xs # chunks bs (drop bs xs)" by (intro chunks_step) auto
  show ?case
  proof (cases "i < bs")
    case True
    then show ?thesis using 1(3) by (simp add: step)
  next
    case False
    then have "i div bs = Suc ((i - bs) div bs)" "i mod bs = (i - bs) mod bs"
      using 1(2) by (simp_all add: le_div_geq le_mod_geq)
    moreover have "\<not> (bs = 0 \<or> xs = [])" "i - bs < length (drop bs xs)" using 1(2,3) False by auto
    ultimately show ?thesis using "1.IH" [of "i - bs"] 1(2,3) False by (simp add: step)
  qed
qed

text \<open>The byte of partition \<open>p\<close> at a byte address: block number times block size plus offset.\<close>

definition tape_byte :: "(nat \<Rightarrow> tape_record list) \<Rightarrow> nat \<Rightarrow> nat \<Rightarrow> nat \<Rightarrow> byte option" where
  "tape_byte T bs p a =
     (if a div bs < length (T p) then
        case T p ! (a div bs) of
          Data d \<Rightarrow> if a mod bs < length d then Some (d ! (a mod bs)) else None
        | Filemark \<Rightarrow> None
      else None)"

text \<open>
  The byte of a file at an offset: the byte of the tape its extent names, and 0 outside of all
  extents.  \<open>num\<close> takes the letter of a partition to its number.
\<close>

definition file_byte ::
  "(nat \<Rightarrow> tape_record list) \<Rightarrow> nat \<Rightarrow> (char \<Rightarrow> nat) \<Rightarrow> extent_info list \<Rightarrow> nat \<Rightarrow> byte option" where
  "file_byte T bs num es i =
     (case byte_loc bs es i of None \<Rightarrow> Some 0 | Some (c, a) \<Rightarrow> tape_byte T bs (num c) a)"

definition file_contents ::
  "(nat \<Rightarrow> tape_record list) \<Rightarrow> nat \<Rightarrow> (char \<Rightarrow> nat) \<Rightarrow> dentry \<Rightarrow> byte list" where
  "file_contents T bs num d = map (\<lambda>i. the (file_byte T bs num (extentlist d) i)) [0..<d_size d]"

text \<open>Every byte the extents name is on the tape.\<close>

definition backed ::
  "(nat \<Rightarrow> tape_record list) \<Rightarrow> nat \<Rightarrow> (char \<Rightarrow> nat) \<Rightarrow> extent_info list \<Rightarrow> bool" where
  "backed T bs num es \<longleftrightarrow>
     (\<forall>e\<in>set es. \<forall>i. covers e i \<longrightarrow> num (ext_partition e) < 2 \<and>
        tape_byte T bs (num (ext_partition e)) (snd (addr bs e i)) \<noteq> None)"

lemma tape_byte_SomeD:
  "tape_byte T bs p a = Some v \<Longrightarrow>
     \<exists>d. a div bs < length (T p) \<and> T p ! (a div bs) = Data d \<and> a mod bs < length d \<and> v = d ! (a mod bs)"
  by (auto simp: tape_byte_def split: if_splits tape_record.splits)

lemma tape_byte_written:
  assumes "0 < bs" "i < length buf" "b \<le> length (T p)" "T' p = take b (T p) @ map Data (chunks bs buf)"
  shows "tape_byte T' bs p (b * bs + i) = Some (buf ! i)"
  using chunks_nth [OF assms(1,2)] assms by (simp add: tape_byte_def nth_append min_absorb2)

lemma tape_byte_kept:
  assumes "a div bs < b" "b \<le> length (T p)" "T' p = take b (T p) @ ds"
  shows "tape_byte T' bs p a = tape_byte T bs p a"
  using assms by (simp add: tape_byte_def nth_append)

section \<open>Writing\<close>

text \<open>
  A volume that takes data: nothing has failed or run out of space, no revalidation is pending and
  the device is where it says it is.
\<close>

definition writable_volume :: "'s tape_ops \<Rightarrow> ('s, 'o) ltfs_volume \<Rightarrow> bool" where
  "writable_volume ops vol \<longleftrightarrow> reval vol = None \<and> 0 < blocksize vol \<and> quiet (device vol) \<and> \<not> fence (device vol) \<and>
     \<not> append_only_mode (device vol) \<and> write_protected (device vol) = 0 \<and> \<not> write_error (device vol) \<and>
     (\<forall>p. partition_space (device vol) p = PART_WRITABLE) \<and> \<not> op_is_readonly ops (backend_data (device vol))"

text \<open>Where the next block of a partition goes.\<close>

definition append_block :: "(nat \<Rightarrow> tape_record list) \<Rightarrow> 's device_data \<Rightarrow> nat \<Rightarrow> nat" where
  "append_block T dev p = (if append_pos dev p = 0 then length (T p) else append_pos dev p)"

context tape_backend
begin

lemma write_blocks_ok:
  assumes "synced good at dev" "quiet dev" "at (backend_data dev) = (p, b)" "write_refused dev False False = None"
    "0 < bs" "bs \<le> limit (backend_data dev)" "bs \<le> dev_max_block_size dev"
    "b + length (chunks bs buf) < TAPE_BLOCK_MAX" "\<forall>j \<le> length (chunks bs buf). roomy (backend_data dev) p (b + j)"
    "buf \<noteq> [] \<or> b = length (contents dev p) \<and> append_pos dev p = b"
  shows "\<exists>dev'. write_blocks ops now bs buf dev = (Inr (), dev') \<and> synced good at dev' \<and> quiet dev' \<and>
    at (backend_data dev') = (p, b + length (chunks bs buf)) \<and>
    contents dev' = (contents dev)(p := take b (contents dev p) @ map Data (chunks bs buf)) \<and>
    append_pos dev' = (append_pos dev)(p := b + length (chunks bs buf)) \<and>
    same_state dev (dev'\<lparr>append_pos := append_pos dev\<rparr>)"
  using assms
proof (induction bs buf arbitrary: dev b rule: chunks.induct)
  case (1 bs buf)
  show ?case
  proof (cases "buf = []")
    case True
    then show ?thesis using 1 by (subst write_blocks.simps) auto
  next
    case False
    have b: "b \<le> length (contents dev p)"
      using at_partition 1(2,4) by (auto simp: synced_def)
    have step: "chunks bs buf = take bs buf # chunks bs (drop bs buf)" using False 1(6) by (intro chunks_step) auto
    have c: "take bs buf \<noteq> []" "length (take bs buf) \<le> limit (backend_data dev)"
      "length (take bs buf) \<le> dev_max_block_size dev" "b + 1 < TAPE_BLOCK_MAX" "roomy (backend_data dev) p (b + 1)"
      using 1(6-10) False by (auto simp: step)
    from write_ok [OF 1(2-5) c, where now = now] obtain dev1 where w: "tape_write ops now dev (take bs buf) False False = (Inr (length (take bs buf)), dev1)"
      "synced good at dev1" "quiet dev1" "at (backend_data dev1) = (p, b + 1)"
      "contents dev1 = (contents dev)(p := take b (contents dev p) @ [Data (take bs buf)])"
      "append_pos dev1 = (append_pos dev)(p := b + 1)"
      "roomy (backend_data dev1) = roomy (backend_data dev)" "limit (backend_data dev1) = limit (backend_data dev)"
      "same_state dev (dev1\<lparr>append_pos := append_pos dev\<rparr>)"
      by blast
    have r: "write_refused dev1 False False = None" "bs \<le> dev_max_block_size dev1" "bs \<le> limit (backend_data dev1)"
      using w(2,4,8,9) 1(2,4,5,7,8) write_refused_same [of dev dev1] by (simp_all add: same_state_def synced_def)
    have room: "\<forall>j \<le> length (chunks bs (drop bs buf)). roomy (backend_data dev1) p (b + 1 + j)"
      using 1(10) by (force simp: step w)
    have pre: "\<not> (bs = 0 \<or> buf = [])" "b + 1 + length (chunks bs (drop bs buf)) < TAPE_BLOCK_MAX"
      "drop bs buf \<noteq> [] \<or> b + 1 = length (contents dev1 p) \<and> append_pos dev1 p = b + 1"
      using 1(6,9) False b by (simp_all add: step w)
    from "1.IH" [OF pre(1) w(2,3,4) r(1) 1(6) r(3,2) pre(2) room pre(3)] obtain dev' where
      wb: "write_blocks ops now bs (drop bs buf) dev1 = (Inr (), dev')"
      "synced good at dev'" "quiet dev'" "at (backend_data dev') = (p, b + 1 + length (chunks bs (drop bs buf)))"
      "contents dev' = (contents dev1)(p := take (b + 1) (contents dev1 p) @ map Data (chunks bs (drop bs buf)))"
      "append_pos dev' = (append_pos dev1)(p := b + 1 + length (chunks bs (drop bs buf)))"
      "same_state dev1 (dev'\<lparr>append_pos := append_pos dev1\<rparr>)"
      by blast
    have "write_blocks ops now bs buf dev = (Inr (), dev')"
      using False 1(6) w(1) wb(1) by (subst write_blocks.simps) simp
    moreover have "contents dev' = (contents dev)(p := take b (contents dev p) @ map Data (chunks bs buf))"
      "append_pos dev' = (append_pos dev)(p := b + length (chunks bs buf))"
      using b by (simp_all add: wb w step)
    moreover have "same_state dev (dev'\<lparr>append_pos := append_pos dev\<rparr>)"
      using wb(7) w(9) by (simp add: same_state_def)
    moreover have "at (backend_data dev') = (p, b + length (chunks bs buf))" using wb(4) by (simp add: step)
    ultimately show ?thesis using wb(2,3) by blast
  qed
qed

lemma write_data_ok:
  assumes sync: "synced good at (device vol)" and w: "writable_volume ops vol"
    and part: "part = partid_dp vol \<or> part = partid_ip vol" "ltfs_part_id2num part vol = p" "p < 2"
    and idx: "ltfs_write_index_conditional wi (if part = partid_ip vol then partid_dp vol else partid_ip vol) vol = (Inr (), vol)"
    and ap: "append_pos (device vol) p \<le> length (contents (device vol) p)"
    and b: "b = append_block (contents (device vol)) (device vol) p"
    and size: "blocksize vol \<le> limit (backend_data (device vol))" "blocksize vol \<le> dev_max_block_size (device vol)"
      "b + length (chunks (blocksize vol) buf) < TAPE_BLOCK_MAX"
    and room: "\<forall>j \<le> length (chunks (blocksize vol) buf). roomy (backend_data (device vol)) p (b + j)"
    and buf: "buf \<noteq> []"
  obtains vol' where "fsraw_write_data_unlocked ops wi True clock part buf 1 0 vol = (Inr b, vol')"
    "vol' = vol\<lparr>device := device vol', ip_index_file_end := ip_index_file_end vol',
       dp_index_file_end := dp_index_file_end vol', first_locate := first_locate vol'\<rparr>"
    "synced good at (device vol')" "quiet (device vol')"
    "contents (device vol') = (contents (device vol))(p := take b (contents (device vol) p) @ map Data (chunks (blocksize vol) buf))"
    "append_pos (device vol') = (append_pos (device vol))(p := b + length (chunks (blocksize vol) buf))"
    "same_state (device vol) ((device vol')\<lparr>append_pos := append_pos (device vol)\<rparr>)"
proof -
  obtain ts_start ts_end now where clock: "clock = (ts_start, ts_end, now)" by (cases clock)
  have ro: "ltfs_get_partition_readonly ops part vol = Inr ()"
    using w part by (auto simp: ltfs_get_partition_readonly_def tape_read_only_def writable_volume_def)
  obtain dev1 where sk: "tape_seek_append_position ops now (device vol) p (part = partid_ip vol) = (Inr (), dev1)"
    "synced good at dev1" "quiet dev1" "contents dev1 = contents (device vol)" "at (backend_data dev1) = (p, b)"
    "append_pos dev1 = (append_pos (device vol))(p := b)"
    "roomy (backend_data dev1) = roomy (backend_data (device vol))"
    "limit (backend_data dev1) = limit (backend_data (device vol))"
    "same_state (device vol) (dev1\<lparr>append_pos := append_pos (device vol)\<rparr>)"
    by (rule seek_append_ok [OF sync _ part(3) ap _ b [unfolded append_block_def], where now = now
          and unlock_write = "part = partid_ip vol"])
      (use w room [rule_format, of 0] in \<open>auto simp: writable_volume_def append_block_def b\<close>)
  have "write_refused dev1 False False = None" "0 < blocksize vol" "blocksize vol \<le> dev_max_block_size dev1"
    using sk(9) w size(2) by (auto simp: write_refused_def same_state_def writable_volume_def)
  with write_blocks_ok [OF sk(2,3,5), of "blocksize vol" buf now] size room buf obtain dev2 where
    wr: "write_blocks ops now (blocksize vol) buf dev1 = (Inr (), dev2)" "synced good at dev2" "quiet dev2"
    "contents dev2 = (contents dev1)(p := take b (contents dev1 p) @ map Data (chunks (blocksize vol) buf))"
    "append_pos dev2 = (append_pos dev1)(p := b + length (chunks (blocksize vol) buf))"
    "same_state dev1 (dev2\<lparr>append_pos := append_pos dev1\<rparr>)"
    unfolding sk(7,8) by blast
  have start: "pos_block (position dev1) = b" using sk(2,5) by (simp add: synced_def)
  have lock: "tape_device_lock True (device vol) = Inr ()"
    using w by (simp add: tape_device_lock_def writable_volume_def)
  let ?v0 = "if part = partid_ip vol then vol\<lparr>ip_index_file_end := False\<rparr> else vol\<lparr>dp_index_file_end := False\<rparr>"
  let ?v1 = "if part \<noteq> partid_ip vol \<and> first_locate vol = (0, 0)
    then ?v0\<lparr>first_locate := timer_sub ts_end ts_start\<rparr> else ?v0"
  have "fsraw_write_data_unlocked ops wi True clock part buf 1 0 vol = (Inr b, ?v1\<lparr>device := dev2\<rparr>)"
    using part(1,2) buf sk(1) wr(1) idx ro lock start
    by (auto simp: fsraw_write_data_unlocked_def write_data_locked_def clock tape_get_position_def
        fence_on_error_def ltfs_part_id2num_def Let_def)
  then show ?thesis
    by (rule that) (use wr sk in \<open>auto simp: same_state_def\<close>)
qed

end

section \<open>Reading\<close>

lemma blit_append:
  assumes "i = length xs" "i + length ys \<le> length buf"
  shows "blit (xs @ drop i buf) i ys = Some (xs @ ys @ drop (i + length ys) buf)"
  using assms by (simp add: blit_def add.commute)

text \<open>
  The arithmetic of one round of the loop over the blocks.  The offset of the first byte of a block
  may be below 0 when the extent starts in the middle of its first block; the wrap-around of the
  subtraction is undone by the next operations.
\<close>

lemma block_bounds:
  assumes e: "ext_ok bs e" "0 < bs" "bs < two32" and n: "fileoffset e \<le> n" "n < fileoffset e + bytecount e"
    and k: "k = (n - fileoffset e + byteoffset e) div bs"
    and F: "F = u64_sub (fileoffset e + k * bs) (byteoffset e)"
    and L: "L = fileoffset e + (k + 1) * bs - byteoffset e"
    and last: "l = min (fileoffset e + bytecount e) L"
  shows "u64 (F + bs) = L" "n < L" "byteoffset e \<le> fileoffset e + (k + 1) * bs" "L < two64"
    "u64_sub l F = l + byteoffset e - (fileoffset e + k * bs)"
    "fileoffset e + k * bs < l + byteoffset e" "l + byteoffset e - (fileoffset e + k * bs) \<le> bs"
    "u64_sub n F = (n - fileoffset e + byteoffset e) mod bs"
    "(n - fileoffset e + byteoffset e) mod bs = n + byteoffset e - (fileoffset e + k * bs)"
    "fileoffset e + k * bs \<le> n + byteoffset e"
    "u64 (F + bs) = u64_sub (fileoffset e + (k + 1) * bs) (byteoffset e)"
proof -
  let ?A = "n - fileoffset e + byteoffset e"
  have A: "k * bs + ?A mod bs = ?A" "?A mod bs < bs" using e(2) by (simp_all add: k)
  have b: "byteoffset e < two32" "fileoffset e + bytecount e < max_off" using e(1) by (auto simp: ext_ok_def)
  have c: "two32 + two32 + max_off < two64" by (simp add: two32_def max_off_def two64_def)
  have kk: "(k + 1) * bs = k * bs + bs" by simp
  show 0: "byteoffset e \<le> fileoffset e + (k + 1) * bs" using A n unfolding kk by linarith
  show 1: "L < two64" using A n b c e(3) 0 unfolding L kk by linarith
  have bb: "byteoffset e \<le> two64" using b c by linarith
  have "u64 (F + bs) = fileoffset e + k * bs + bs - byteoffset e"
    unfolding F by (rule u64_sub_add [OF bb]) (use 0 1 L kk in linarith)+
  then show 2: "u64 (F + bs) = L" by (simp add: L kk algebra_simps)
  show "u64 (F + bs) = u64_sub (fileoffset e + (k + 1) * bs) (byteoffset e)"
  proof -
    have "fileoffset e + (k + 1) * bs < two64" using A n b c e(3) unfolding kk by linarith
    then show ?thesis using 0 by (simp add: 2 L u64_sub_id)
  qed
  show "n < L" using A n 0 unfolding L kk by linarith
  then have nl: "n < l" using n by (simp add: last)
  show 3: "fileoffset e + k * bs \<le> n + byteoffset e" using A n by linarith
  show "fileoffset e + k * bs < l + byteoffset e" using 3 nl by linarith
  have lL: "l \<le> L" by (simp add: last)
  show 4: "l + byteoffset e - (fileoffset e + k * bs) \<le> bs" using lL 0 unfolding L kk by linarith
  show "u64_sub l F = l + byteoffset e - (fileoffset e + k * bs)"
    unfolding F by (rule u64_sub_sub [OF bb]) (use 3 4 nl b c e(3) in linarith)+
  show 5: "?A mod bs = n + byteoffset e - (fileoffset e + k * bs)" using A n by linarith
  have "u64_sub n F = n + byteoffset e - (fileoffset e + k * bs)"
    unfolding F by (rule u64_sub_sub [OF bb]) (use 3 4 nl b c e(3) in linarith)+
  then show "u64_sub n F = ?A mod bs" by (simp add: 5)
qed

text \<open>The block the loop is at holds the bytes of the file from the offset on.\<close>

lemma block_data:
  assumes e: "ext_ok bs e" "0 < bs" "bs < two32" and n: "fileoffset e \<le> n" "n < fileoffset e + bytecount e"
    and k: "k = (n - fileoffset e + byteoffset e) div bs"
    and last: "l = min (fileoffset e + bytecount e) (fileoffset e + (k + 1) * bs - byteoffset e)"
    and f: "\<And>i. covers e i \<Longrightarrow> tape_byte T bs p (snd (addr bs e i)) = Some (f i)"
  obtains d where "ext_block e + k < length (T p)" "T p ! (ext_block e + k) = Data d"
    "l + byteoffset e - (fileoffset e + k * bs) \<le> length d"
    "\<And>i. n \<le> i \<Longrightarrow> i < l \<Longrightarrow> f i = d ! (i + byteoffset e - (fileoffset e + k * bs))"
proof -
  note bnd = block_bounds [OF e n k refl refl last]
  have ad: "\<exists>d. ext_block e + k < length (T p) \<and> T p ! (ext_block e + k) = Data d \<and>
      i + byteoffset e - (fileoffset e + k * bs) < length d \<and> f i = d ! (i + byteoffset e - (fileoffset e + k * bs))"
    if i: "n \<le> i" "i < l" for i
  proof -
    let ?j = "i + byteoffset e - (fileoffset e + k * bs)"
    have "covers e i" using i n last by (simp add: covers_def)
    then have "tape_byte T bs p (snd (addr bs e i)) = Some (f i)" by (rule f)
    moreover have "snd (addr bs e i) = (ext_block e + k) * bs + ?j"
      using i n(1) bnd(10) by (simp add: addr_def add_mult_distrib)
    moreover have "?j < bs" using i bnd(6,7) by linarith
    ultimately show ?thesis using e(2) by (auto dest: tape_byte_SomeD)
  qed
  have nl: "n < l" using n bnd(2) last by simp
  from ad [OF _ nl] obtain d where d: "ext_block e + k < length (T p)" "T p ! (ext_block e + k) = Data d"
    by blast
  show ?thesis
  proof (rule that [OF d])
    show "l + byteoffset e - (fileoffset e + k * bs) \<le> length d"
    proof -
      have "l - 1 + byteoffset e - (fileoffset e + k * bs) < length d"
        using ad [of "l - 1"] nl d by auto
      then show ?thesis using nl bnd(6) by linarith
    qed
    show "f i = d ! (i + byteoffset e - (fileoffset e + k * bs))" if "n \<le> i" "i < l" for i
      using ad [OF that] d by auto
  qed
qed

lemma map_block_slice:
  assumes "\<And>i. n \<le> i \<Longrightarrow> i < m \<Longrightarrow> f i = d ! (i + o' - c)" "n \<le> m" "c \<le> n + o'" "m + o' - c \<le> w" "w \<le> length lb" "w \<le> length d"
    "take w lb = take w d"
  shows "slice lb (n + o' - c) (m - n) = Some (map f [n..<m])"
proof -
  have "lb ! j = d ! j" if "j < w" for j using assms(7) that by (metis nth_take)
  then have "take (m - n) (drop (n + o' - c) lb) = map f [n..<m]"
    using assms(1-6) by (intro nth_equalityI) (auto simp: add.commute add.left_commute)
  then show ?thesis using assms by (simp add: slice_def)
qed

text \<open>
  The cache of the last block holds the beginning of that block.  The state of the loops: \<open>f\<close> gives
  the bytes of the file, \<open>buf\<close> is what the buffer has been at the start.
\<close>

definition cache_ok :: "(nat \<Rightarrow> tape_record list) \<Rightarrow> ('s, 'o) ltfs_volume \<Rightarrow> bool" where
  "cache_ok T vol \<longleftrightarrow>
     (let p = ltfs_part_id2num (last_pos_partition vol) vol in
      p < 2 \<longrightarrow> last_pos_block vol < length (T p) \<and>
        (\<exists>d lb. T p ! last_pos_block vol = Data d \<and> vol_last_block vol = Some lb \<and>
           last_size vol = min (blocksize vol) (length d) \<and> take (last_size vol) lb = take (blocksize vol) d))"

definition read_vol ::
  "('s \<Rightarrow> bool) \<Rightarrow> ('s \<Rightarrow> nat \<Rightarrow> tape_record list) \<Rightarrow> ('s \<Rightarrow> nat \<times> nat) \<Rightarrow> (nat \<Rightarrow> tape_record list) \<Rightarrow>
   nat \<Rightarrow> (char \<Rightarrow> nat) \<Rightarrow> ('s, 'o) ltfs_volume \<Rightarrow> bool" where
  "read_vol good tape_of at T bs num vol \<longleftrightarrow>
     reval vol = None \<and> \<not> fence (device vol) \<and>
     synced good at (device vol) \<and> tape_of (backend_data (device vol)) = T \<and>
     blocksize vol = bs \<and> (\<lambda>c. ltfs_part_id2num c vol) = num \<and>
     (\<exists>lb. vol_last_block vol = Some lb \<and> length lb = bs) \<and> cache_ok T vol"

definition read_inv ::
  "('s \<Rightarrow> bool) \<Rightarrow> ('s \<Rightarrow> nat \<Rightarrow> tape_record list) \<Rightarrow> ('s \<Rightarrow> nat \<times> nat) \<Rightarrow> (nat \<Rightarrow> tape_record list) \<Rightarrow>
   (nat \<Rightarrow> byte) \<Rightarrow> nat \<Rightarrow> byte list \<Rightarrow> nat \<Rightarrow> (char \<Rightarrow> nat) \<Rightarrow> ('s, 'o) read_state \<Rightarrow> bool" where
  "read_inv good tape_of at T f offset buf bs num st \<longleftrightarrow>
     read_vol good tape_of at T bs num (rd_vol st) \<and> next_off st = offset + read_count st \<and>
     rd_buf st = map f [offset..<next_off st] @ drop (read_count st) buf"

definition readable_volume ::
  "('s \<Rightarrow> bool) \<Rightarrow> ('s \<Rightarrow> nat \<Rightarrow> tape_record list) \<Rightarrow> ('s \<Rightarrow> nat \<times> nat) \<Rightarrow> (nat \<Rightarrow> tape_record list) \<Rightarrow>
   ('s, 'o) ltfs_volume \<Rightarrow> bool" where
  "readable_volume good tape_of at T vol \<longleftrightarrow> reval vol = None \<and> \<not> fence (device vol) \<and>
     0 < blocksize vol \<and> blocksize vol < two32 \<and> synced good at (device vol) \<and>
     tape_of (backend_data (device vol)) = T \<and> cache_ok T vol \<and>
     (\<forall>lb. vol_last_block vol = Some lb \<longrightarrow> length lb = blocksize vol)"

text \<open>The invariant of a file: its extents, its size and its real size fit together.\<close>

definition file_ok :: "nat \<Rightarrow> dentry \<Rightarrow> bool" where
  "file_ok bs d \<longleftrightarrow> wf_extents bs (extentlist d) \<and> bounded (d_size d) (extentlist d) \<and>
     d_realsize d = ext_bytes (extentlist d) \<and> d_size d < max_off"

lemma file_byte_covered:
  assumes "wf_extents bs es" "backed T bs num es" "e \<in> set es" "covers e i"
  shows "num (ext_partition e) < 2 \<and>
    tape_byte T bs (num (ext_partition e)) (snd (addr bs e i)) = Some (the (file_byte T bs num es i))"
proof -
  have "byte_loc bs es i = Some (addr bs e i)" using assms byte_loc_Some by blast
  moreover have "fst (addr bs e i) = ext_partition e" by (simp add: addr_def)
  ultimately show ?thesis using assms by (cases "addr bs e i") (fastforce simp: file_byte_def backed_def)
qed

lemma file_byte_hole:
  assumes "wf_extents bs es" "\<forall>e\<in>set es. \<not> covers e i"
  shows "the (file_byte T bs num es i) = 0"
proof -
  have "byte_loc bs es i = None" using assms byte_loc_Some by (metis not_None_eq)
  then show ?thesis by (simp add: file_byte_def)
qed

lemma cache_ok_simps [simp]:
  "cache_ok T (vol\<lparr>index := idx\<rparr>) = cache_ok T vol" "cache_ok T (vol\<lparr>device := dev\<rparr>) = cache_ok T vol"
  "cache_ok T (vol\<lparr>first_locate := ts\<rparr>) = cache_ok T vol" "cache_ok T (vol\<lparr>others := y\<rparr>) = cache_ok T vol"
  "cache_ok T (vol\<lparr>ip_index_file_end := v\<rparr>) = cache_ok T vol" "cache_ok T (vol\<lparr>dp_index_file_end := v\<rparr>) = cache_ok T vol"
  by (simp_all add: cache_ok_def)

text \<open>
  Either the block the loop is at is the one in the cache, or the tape stands before it.
\<close>

definition cache_hit :: "extent_info \<Rightarrow> nat \<times> nat \<Rightarrow> nat \<times> nat \<Rightarrow> ('s, 'o) ltfs_volume \<Rightarrow> bool" where
  "cache_hit entry seekpos curpos vol \<longleftrightarrow>
     ext_partition entry = last_pos_partition vol \<and> snd seekpos = last_pos_block vol \<and>
     fst seekpos = fst curpos \<and> u64 (snd seekpos + 1) = snd curpos"

lemma fetch_block_hit:
  "fetch_block ops rekey now entry seekpos curpos blockbytes vol =
     (if cache_hit entry seekpos curpos vol
      then (if last_size vol < blockbytes then Inl LTFS_SMALL_BLOCK else Inr (snd curpos), vol)
      else let (ret, lb, dev) = tape_read ops rekey now (device vol) (the (vol_last_block vol)) (blocksize vol)
                 (blocksize vol \<noteq> blockbytes);
               vol = vol\<lparr>device := dev, vol_last_block := Some lb\<rparr> in
        case ret of
          Inl e \<Rightarrow> (Inl e, vol)
        | Inr nread \<Rightarrow>
            if nread < blockbytes then (Inl LTFS_SMALL_BLOCK, vol)
            else (Inr (u64 (snd curpos + 1)),
                  vol\<lparr>last_pos_partition := ext_partition entry, last_pos_block := snd seekpos,
                      last_size := nread\<rparr>))"
  by (simp add: fetch_block_def cache_hit_def)

context tape_backend
begin

text \<open>
  Fetching a block gives its first bytes in the cache and leaves the tape behind the block, so that
  the next block is never taken for the one in the cache.
\<close>

lemma fetch_ok:
  fixes vol :: "('s, 'o) ltfs_volume"
  assumes sync: "synced good at (device vol)" and T: "contents (device vol) = T"
    and lb: "vol_last_block vol = Some lb" "length lb = blocksize vol" and c: "cache_ok T vol"
    and p: "ltfs_part_id2num (ext_partition e) vol = p" "p < 2"
    and at: "at (backend_data (device vol)) = (p, if cache_hit e (p, blk) cur vol then blk + 1 else blk)"
    and blk: "blk < length (T p)" "T p ! blk = Data d" and bb: "bb \<le> length d" "bb \<le> blocksize vol"
  obtains vol' cb lb' where "fetch_block ops rekey now e (p, blk) cur bb vol = (Inr cb, vol')"
    "synced good at (device vol')" "contents (device vol') = T" "at (backend_data (device vol')) = (p, blk + 1)"
    "blocksize vol' = blocksize vol" "part_num2id vol' = part_num2id vol"
    "vol_last_block vol' = Some lb'" "length lb' = blocksize vol" "take bb lb' = take bb d"
    "cache_ok T vol'" "last_pos_block vol' = blk" "reval vol' = reval vol" "fence (device vol') = fence (device vol)"
proof (cases "cache_hit e (p, blk) cur vol")
  case True
  then have h: "last_size vol = min (blocksize vol) (length d)" "take (last_size vol) lb = take (blocksize vol) d"
    using c p lb(1) blk by (auto simp: cache_ok_def cache_hit_def Let_def)
  have "take bb (take (last_size vol) lb) = take bb (take (blocksize vol) d)" by (simp add: h(2))
  then have "take bb lb = take bb d" using h(1) bb by (simp add: min_def split: if_splits)
  moreover have "fetch_block ops rekey now e (p, blk) cur bb vol = (Inr (snd cur), vol)"
    using True h bb by (simp add: fetch_block_hit)
  moreover have "at (backend_data (device vol)) = (p, blk + 1)" using at True by simp
  moreover have "last_pos_block vol = blk" using True by (simp add: cache_hit_def)
  ultimately show ?thesis
    using sync T lb c by (intro that [of "snd cur" vol lb] refl)
next
  case False
  with at have at': "at (backend_data (device vol)) = (p, blk)" by simp
  from read_ok [OF sync at', unfolded T, OF blk, where buf = lb and count = "blocksize vol"
      and unusual = "blocksize vol \<noteq> bb" and rekey = rekey and now = now]
  obtain dev' where rd: "tape_read ops rekey now (device vol) lb (blocksize vol) (blocksize vol \<noteq> bb) =
      (Inr (min (blocksize vol) (length d)), take (blocksize vol) d @ drop (min (blocksize vol) (length d)) lb, dev')"
    "synced good at dev'" "contents dev' = T" "at (backend_data dev') = (p, blk + 1)" "fence dev' = fence (device vol)"
    unfolding same_state_def by blast
  let ?lb = "take (blocksize vol) d @ drop (min (blocksize vol) (length d)) lb"
  let ?vol = "vol\<lparr>device := dev', vol_last_block := Some ?lb, last_pos_partition := ext_partition e,
      last_pos_block := blk, last_size := min (blocksize vol) (length d)\<rparr>"
  have "fetch_block ops rekey now e (p, blk) cur bb vol = (Inr (u64 (snd cur + 1)), ?vol)"
    using False rd(1) lb(1) bb by (simp add: fetch_block_hit Let_def)
  moreover have "ltfs_part_id2num (ext_partition e) ?vol = p"
    using p(1) by simp
  then have "cache_ok T ?vol"
    using blk unfolding cache_ok_def by (simp add: min_def)
  moreover have "length ?lb = blocksize vol" "take bb ?lb = take bb d" using lb bb by auto
  ultimately show ?thesis using rd by (intro that [of _ ?vol ?lb]) simp_all
qed

lemma read_blocks_ok:
  fixes st :: "('s, 'o) read_state"
  assumes e: "ext_ok bs e" "0 < bs" "bs < two32" and p: "num (ext_partition e) = p" "p < 2"
    and f: "\<And>i. covers e i \<Longrightarrow> tape_byte T bs p (snd (addr bs e i)) = Some (f i)"
    and off: "last_off = offset + count" "last_off < two64" "count \<le> length buf"
    and inv: "read_inv good tape_of at T f offset buf bs num st"
    and n: "fileoffset e \<le> next_off st" and rc: "read_count st \<le> count" "count - read_count st < fuel"
    and ready: "next_off st < fileoffset e + bytecount e \<Longrightarrow> read_count st < count \<Longrightarrow>
      sb = ext_block e + (next_off st - fileoffset e + byteoffset e) div bs \<and>
      frst = u64_sub (fileoffset e + (next_off st - fileoffset e + byteoffset e) div bs * bs) (byteoffset e) \<and>
      lst = frst \<and>
      at (backend_data (device (rd_vol st))) = (p, if cache_hit e (p, sb) cur (rd_vol st) then sb + 1 else sb)"
  shows "\<exists>st'. read_blocks fuel ops rekey now e count last_off (p, sb) cur frst lst st = (Inr (), st') \<and>
    read_inv good tape_of at T f offset buf bs num st' \<and>
    next_off st' = max (next_off st) (min last_off (fileoffset e + bytecount e))"
  using inv n rc ready
proof (induction fuel arbitrary: st sb cur frst lst)
  case 0
  then show ?case by simp
next
  case (Suc fuel)
  note inv = Suc.prems(1)
  let ?n = "next_off st" and ?rc = "read_count st" and ?stop = "fileoffset e + bytecount e"
  have fe: "fileoffset_end e = ?stop"
    using e(1) by (simp add: fileoffset_end_def ext_ok_def u64_id max_off_def two64_def)
  have nr: "?n = offset + ?rc" and bs: "blocksize (rd_vol st) = bs" and buf: "rd_buf st = map f [offset..<?n] @ drop ?rc buf"
    using inv by (auto simp: read_inv_def read_vol_def)
  show ?case
  proof (cases "?n < ?stop \<and> ?rc < count")
    case False
    then show ?thesis using inv nr off Suc.prems(3) by (auto simp: fe bs)
  next
    case True
    define k where "k = (?n - fileoffset e + byteoffset e) div bs"
    define F where "F = u64_sub (fileoffset e + k * bs) (byteoffset e)"
    define L where "L = fileoffset e + (k + 1) * bs - byteoffset e"
    define l where "l = min ?stop L"
    define m where "m = min l last_off"
    have rdy: "sb = ext_block e + k" "frst = F" "lst = F"
      "at (backend_data (device (rd_vol st))) = (p, if cache_hit e (p, sb) cur (rd_vol st) then sb + 1 else sb)"
      using Suc.prems(5) True by (auto simp: k_def F_def)
    note n' = Suc.prems(2) conjunct1 [OF True]
    note bnd = block_bounds [OF e n' k_def F_def L_def l_def]
    obtain d where d: "sb < length (T p)" "T p ! sb = Data d" "l + byteoffset e - (fileoffset e + k * bs) \<le> length d"
      "\<And>i. ?n \<le> i \<Longrightarrow> i < l \<Longrightarrow> f i = d ! (i + byteoffset e - (fileoffset e + k * bs))"
      using block_data [OF e n' k_def l_def [unfolded L_def] f] rdy(1) by blast
    let ?bb = "l + byteoffset e - (fileoffset e + k * bs)"
    obtain lb where lb: "vol_last_block (rd_vol st) = Some lb" "length lb = bs" using inv by (auto simp: read_inv_def read_vol_def)
    obtain vol' cb lb' where ft: "fetch_block ops rekey now e (p, sb) cur ?bb (rd_vol st) = (Inr cb, vol')"
      "synced good at (device vol')" "contents (device vol') = T" "at (backend_data (device vol')) = (p, sb + 1)"
      "blocksize vol' = bs" "part_num2id vol' = part_num2id (rd_vol st)"
      "vol_last_block vol' = Some lb'" "length lb' = bs" "take ?bb lb' = take ?bb d"
      "cache_ok T vol'" "last_pos_block vol' = sb" "reval vol' = reval (rd_vol st)"
      "fence (device vol') = fence (device (rd_vol st))"
      by (rule fetch_ok [of "rd_vol st" T lb e p sb cur d ?bb rekey now])
        (use inv lb d rdy p bnd(7) bs in \<open>auto simp: read_inv_def read_vol_def\<close>)
    have nm: "?n < m" "m \<le> l" "m \<le> last_off" using bnd(2) True nr off by (auto simp: m_def l_def)
    have m_eq: "(if last_off < l then last_off else l) = m" by (simp add: m_def min_def)
    have l_eq: "(if ?stop < L then ?stop else L) = l" by (simp add: l_def min_def)
    have sl: "slice lb' (u64_sub ?n F) (m - ?n) = Some (map f [?n..<m])"
      using map_block_slice [OF _ _ bnd(10), of m f d ?bb lb'] d(3,4) nm ft(8,9) bnd(7)
      by (simp add: bnd(8,9))
    have bl: "blit (rd_buf st) ?rc (map f [?n..<m]) = Some (map f [offset..<m] @ drop (?rc + (m - ?n)) buf)"
    proof -
      have "[offset..<m] = [offset..<?n] @ [?n..<m]" using nm(1) nr upt_add_eq_append [of offset ?n "m - ?n"] by simp
      then show ?thesis using blit_append [of ?rc "map f [offset..<?n]" "map f [?n..<m]" buf] nr nm off
        by (simp add: buf)
    qed
    have small: "m < two64" "?rc + (m - ?n) < two64" "?rc + (m - ?n) \<le> count" using nm off nr by linarith+
    have "length (T p) < TAPE_BLOCK_MAX"
      using length_tape [of "backend_data (device vol')" p] ft(2,3) p(2) by (simp add: synced_def)
    then have sb': "u64 (sb + 1) = sb + 1"
      by (intro u64_id) (use d(1) TAPE_BLOCK_MAX_less in linarith)
    let ?st = "st\<lparr>rd_vol := vol', rd_buf := map f [offset..<m] @ drop (?rc + (m - ?n)) buf, next_off := m,
      read_count := ?rc + (m - ?n)\<rparr>"
    have inv': "read_inv good tape_of at T f offset buf bs num ?st"
      using inv ft nm nr by (auto simp: read_inv_def read_vol_def ltfs_part_id2num_def)
    have hit': "\<not> cache_hit e (p, sb + 1) (fst cur, cb) vol'" using ft(11) by (simp add: cache_hit_def)
    have "sb + 1 = ext_block e + (m - fileoffset e + byteoffset e) div bs \<and>
       L = u64_sub (fileoffset e + (m - fileoffset e + byteoffset e) div bs * bs) (byteoffset e) \<and> l = L"
      if "m < ?stop" "?rc + (m - ?n) < count"
    proof -
      have mL: "m = L" "l = L" using that nm nr off by (auto simp: m_def l_def min_def split: if_splits)
      have "L - fileoffset e + byteoffset e = (k + 1) * bs" using bnd(2,3) n'(1) unfolding L_def by linarith
      then have "(m - fileoffset e + byteoffset e) div bs = k + 1" using e(2) by (simp add: mL)
      then show ?thesis using bnd(1,11) mL rdy(1) by simp
    qed
    then have "\<exists>st'. read_blocks fuel ops rekey now e count last_off (p, sb + 1) (fst cur, cb) L l ?st = (Inr (), st') \<and>
        read_inv good tape_of at T f offset buf bs num st' \<and> next_off st' = max (next_off ?st) (min last_off ?stop)"
      using n' nm small Suc.prems(3,4) nr ft(4) hit' by (intro Suc.IH [OF inv']) auto
    moreover have "max m (min last_off ?stop) = max ?n (min last_off ?stop)"
      using nm by (auto simp: m_def l_def)
    moreover have "read_blocks (Suc fuel) ops rekey now e count last_off (p, sb) cur frst lst st =
        read_blocks fuel ops rekey now e count last_off (p, sb + 1) (fst cur, cb) L l ?st"
      unfolding read_blocks.simps Let_def fe bs rdy(2,3) bnd(1) l_eq bnd(5) m_eq
      using True ft(1,7) sl bl small nm sb' by (simp add: u64_sub_id u64_id)
    ultimately show ?thesis by simp
  qed
qed

lemma seek_extent_ok:
  fixes st :: "('s, 'o) read_state"
  assumes inv: "read_inv good tape_of at T f offset buf bs num st" and p: "num (ext_partition e) = p" "p < 2"
    and sb: "sb \<le> length (T p)" "sb < two64"
    and cur: "cur = (pos_partition (position (device (rd_vol st))), pos_block (position (device (rd_vol st))))"
  obtains st' where "seek_extent ops clock e (p, sb) cur st = (Inr (), st')"
    "read_inv good tape_of at T f offset buf bs num st'" "next_off st' = next_off st" "read_count st' = read_count st"
    "at (backend_data (device (rd_vol st'))) = (p, if cache_hit e (p, sb) cur (rd_vol st') then sb + 1 else sb)"
proof (cases "cur = (p, sb) \<or> cache_hit e (p, sb) cur (rd_vol st)")
  case True
  have at: "at (backend_data (device (rd_vol st))) = cur" using inv cur by (simp add: read_inv_def read_vol_def synced_def)
  have len: "length (T p) < TAPE_BLOCK_MAX"
    using length_tape [of "backend_data (device (rd_vol st))" p] inv p(2) by (auto simp: read_inv_def read_vol_def synced_def)
  then have "u64 (sb + 1) = sb + 1" by (intro u64_id) (use sb(1) TAPE_BLOCK_MAX_less in linarith)
  then have "cur = (p, if cache_hit e (p, sb) cur (rd_vol st) then sb + 1 else sb)"
    using True by (auto simp: cache_hit_def prod_eq_iff)
  moreover have "seek_extent ops clock e (p, sb) cur st = (Inr (), st)"
    using True by (cases clock) (auto simp: seek_extent_def cache_hit_def Let_def)
  ultimately show ?thesis using inv by (intro that [of st]) (simp_all add: at)
next
  case False
  obtain ts_start ts_end now where clock: "clock = (ts_start, ts_end, now)" by (cases clock)
  have sync: "synced good at (device (rd_vol st))" and T: "contents (device (rd_vol st)) = T"
    using inv by (auto simp: read_inv_def read_vol_def)
  have "sb \<le> length (contents (device (rd_vol st)) p) \<or> sb = TAPE_BLOCK_MAX" using sb(1) T by simp
  from seek_ok [OF sync p(2) this, unfolded T min_absorb1 [OF sb(1)], where now = now] obtain dev' where
    sk: "tape_seek ops now (device (rd_vol st)) (seek_pos p sb) = (Inr (), dev')" "synced good at dev'"
      "contents dev' = T" "at (backend_data dev') = (p, sb)" "fence dev' = fence (device (rd_vol st))"
    by blast
  let ?first = "first_locate (rd_vol st) = (0, 0) \<and> p = of_char (partid_dp (rd_vol st))"
  let ?isf = "?first \<or> is_first_dp_locate st"
  let ?vol = "(rd_vol st)\<lparr>device := dev', first_locate := (if ?isf then timer_sub ts_end ts_start else first_locate (rd_vol st))\<rparr>"
  let ?st = "st\<lparr>is_first_dp_locate := ?isf, rd_vol := ?vol\<rparr>"
  have cond: "cur \<noteq> (p, sb) \<and> \<not> (fst cur = p \<and> snd cur = u64 (sb + 1) \<and>
      ext_partition e = last_pos_partition (rd_vol st) \<and> sb = last_pos_block (rd_vol st))"
    using False by (auto simp: cache_hit_def)
  have "seek_extent ops clock e (p, sb) cur st = (Inr (), ?st)"
  proof (cases ?first)
    case True
    show ?thesis
      unfolding seek_extent_def clock Let_def prod.case fst_conv snd_conv if_P [OF cond] if_P [OF True]
      using sk(1) True by simp
  next
    case False
    show ?thesis
      unfolding seek_extent_def clock Let_def prod.case fst_conv snd_conv if_P [OF cond] if_not_P [OF False]
      using sk(1) False by auto
  qed
  moreover have "read_inv good tape_of at T f offset buf bs num ?st"
    using inv sk by (auto simp: read_inv_def read_vol_def)
  moreover have "\<not> cache_hit e (p, sb) cur ?vol" using False by (simp add: cache_hit_def)
  ultimately show ?thesis using sk(4) by (intro that [of ?st]) simp_all
qed

lemma read_extent_ok:
  fixes st :: "('s, 'o) read_state"
  assumes e: "ext_ok bs e" "0 < bs" "bs < two32" and p: "num (ext_partition e) = p" "p < 2"
    and f: "\<And>i. covers e i \<Longrightarrow> tape_byte T bs p (snd (addr bs e i)) = Some (f i)"
    and off: "last_off = offset + count" "last_off < two64" "count \<le> length buf"
    and inv: "read_inv good tape_of at T f offset buf bs num st"
    and n: "fileoffset e \<le> next_off st" "next_off st < fileoffset e + bytecount e" and rc: "read_count st \<le> count"
  shows "\<exists>st'. read_extent ops rekey clock count last_off e st = (Inr (), st') \<and>
    read_inv good tape_of at T f offset buf bs num st' \<and>
    next_off st' = max (next_off st) (min last_off (fileoffset e + bytecount e))"
proof -
  let ?A = "next_off st - fileoffset e + byteoffset e"
  define k where "k = ?A div bs"
  define sb where "sb = ext_block e + k"
  define cur where "cur = (pos_partition (position (device (rd_vol st))), pos_block (position (device (rd_vol st))))"
  obtain d where "sb < length (T p)" using block_data [OF e n k_def refl f] sb_def by blast
  then have sb_le: "sb \<le> length (T p)" by simp
  have c: "two32 + max_off < two64" by (simp add: two32_def max_off_def two64_def)
  have b: "byteoffset e < two32" "fileoffset e + bytecount e < max_off"
    "ext_block e + (byteoffset e + bytecount e) div bs < two64" using e(1) by (auto simp: ext_ok_def)
  have A: "u64 (u64_sub (next_off st) (fileoffset e) + byteoffset e) = ?A"
    using n b c by (simp add: u64_sub_id u64_id)
  have "k \<le> (byteoffset e + bytecount e) div bs" unfolding k_def using n by (intro div_le_mono) linarith
  then have sb: "sb < two64" using b(3) sb_def by linarith
  then have seekpos: "u64 (ext_block e + ?A div bs) = sb" by (simp add: sb_def k_def u64_id)
  have bs: "blocksize (rd_vol st) = bs" and num: "ltfs_part_id2num (ext_partition e) (rd_vol st) = p"
    using inv p(1) by (auto simp: read_inv_def read_vol_def)
  have "u64_sub sb (ext_block e) = k" using sb by (simp add: sb_def u64_sub_id)
  moreover have "k * bs \<le> ?A" by (simp add: k_def)
  then have "u64 (k * bs) = k * bs" "fileoffset e + k * bs < two64" using n b c by (auto intro: u64_id)
  ultimately have F: "u64 (u64_sub (fileoffset e) (byteoffset e) + u64 (u64_sub sb (ext_block e) * bs)) =
      u64_sub (fileoffset e + k * bs) (byteoffset e)"
    using b(1) c by (simp add: u64_sub_def ac_simps)
  from seek_extent_ok [OF inv p sb_le sb cur_def, where clock = clock] obtain st' where
    sk: "seek_extent ops clock e (p, sb) cur st = (Inr (), st')"
    "read_inv good tape_of at T f offset buf bs num st'" "next_off st' = next_off st" "read_count st' = read_count st"
    "at (backend_data (device (rd_vol st'))) = (p, if cache_hit e (p, sb) cur (rd_vol st') then sb + 1 else sb)"
    by blast
  have "read_extent ops rekey clock count last_off e st =
      read_blocks (Suc count) ops rekey (snd (snd clock)) e count last_off (p, sb) cur
        (u64_sub (fileoffset e + k * bs) (byteoffset e)) (u64_sub (fileoffset e + k * bs) (byteoffset e)) st'"
    unfolding read_extent_def Let_def bs num A seekpos tape_get_position_def cur_def [symmetric] sk(1) snd_conv F
    using e(2) by (simp add: F)
  moreover have "\<exists>st''. read_blocks (Suc count) ops rekey (snd (snd clock)) e count last_off (p, sb) cur
        (u64_sub (fileoffset e + k * bs) (byteoffset e)) (u64_sub (fileoffset e + k * bs) (byteoffset e)) st' = (Inr (), st'') \<and>
      read_inv good tape_of at T f offset buf bs num st'' \<and>
      next_off st'' = max (next_off st') (min last_off (fileoffset e + bytecount e))"
    by (rule read_blocks_ok [OF e p f off sk(2)]) (use n rc sk in \<open>auto simp: k_def sb_def\<close>)
  ultimately show ?thesis by (simp add: sk(3))
qed

lemma fill_zeros:
  assumes inv: "read_inv good tape_of at T f offset buf bs num st" and m: "next_off st \<le> m" "m \<le> offset + count"
    "m < two64" "count \<le> length buf" and z: "\<And>i. next_off st \<le> i \<Longrightarrow> i < m \<Longrightarrow> f i = 0"
  shows "blit (rd_buf st) (read_count st) (replicate (u64_sub m (next_off st)) 0) =
      Some (map f [offset..<m] @ drop (m - offset) buf)"
    "u64 (read_count st + u64_sub m (next_off st)) = m - offset"
proof -
  have nr: "next_off st = offset + read_count st" and b: "rd_buf st = map f [offset..<next_off st] @ drop (read_count st) buf"
    using inv by (auto simp: read_inv_def)
  have u: "u64_sub m (next_off st) = m - next_off st" using m by (simp add: u64_sub_id)
  have "[offset..<m] = [offset..<next_off st] @ [next_off st..<m]"
    using m(1) nr upt_add_eq_append [of offset "next_off st" "m - next_off st"] by simp
  moreover have "replicate (m - next_off st) 0 = map f [next_off st..<m]"
    using z by (intro nth_equalityI) auto
  ultimately show "blit (rd_buf st) (read_count st) (replicate (u64_sub m (next_off st)) 0) =
      Some (map f [offset..<m] @ drop (m - offset) buf)"
    using blit_append [of "read_count st" "map f [offset..<next_off st]" "map f [next_off st..<m]" buf] m nr
    unfolding b u by simp
  show "u64 (read_count st + u64_sub m (next_off st)) = m - offset"
    using m nr unfolding u by (simp add: u64_id)
qed

lemma read_extents_ok:
  fixes st :: "('s, 'o) read_state"
  assumes ES: "wf_extents bs ES" and bs: "0 < bs" "bs < two32"
    and cov: "\<And>e i. e \<in> set ES \<Longrightarrow> covers e i \<Longrightarrow> num (ext_partition e) < 2 \<and>
      tape_byte T bs (num (ext_partition e)) (snd (addr bs e i)) = Some (f i)"
    and hole: "\<And>i. \<forall>e\<in>set ES. \<not> covers e i \<Longrightarrow> f i = 0"
    and size: "\<And>e. e \<in> set ES \<Longrightarrow> fileoffset e + bytecount e \<le> fsize"
    and off: "last_off = offset + count" "last_off < two64" "count \<le> length buf"
    and "ES = pre @ es" "read_inv good tape_of at T f offset buf bs num st" "read_count st \<le> count"
      "next_off st \<le> max offset fsize"
      "read_count st = count \<or> (\<forall>e\<in>set pre. fileoffset e + bytecount e \<le> next_off st)"
  shows "\<exists>st'. read_extents ops rekey clock count last_off es st = (Inr (), st') \<and>
    read_vol good tape_of at T bs num (rd_vol st') \<and> read_count st' \<le> count \<and>
    offset + read_count st' \<le> max offset fsize \<and>
    rd_buf st' = map f [offset..<offset + read_count st'] @ drop (read_count st') buf \<and>
    (read_count st' = count \<or> read_inv good tape_of at T f offset buf bs num st' \<and>
       (\<forall>e\<in>set ES. fileoffset e + bytecount e \<le> next_off st'))"
  using assms(10-14)
proof (induction es arbitrary: pre st)
  case Nil
  then show ?case by (auto simp: read_inv_def)
next
  case (Cons e es)
  note inv = Cons.prems(2)
  let ?stop = "fileoffset e + bytecount e"
  have e: "e \<in> set ES" "ext_ok bs e" using Cons.prems(1) ES by (auto simp: wf_extents_def)
  have fe: "fileoffset_end e = ?stop" and small: "fileoffset e < two64"
    using e(2) by (auto simp: fileoffset_end_def ext_ok_def u64_id max_off_def two64_def)
  have nr: "next_off st = offset + read_count st" using inv by (simp add: read_inv_def)
  show ?case
  proof (cases "read_count st = count")
    case True
    then show ?thesis using Cons.prems nr by (auto simp: read_inv_def)
  next
    case False
    with Cons.prems(5) have pre: "\<forall>e\<in>set pre. fileoffset e + bytecount e \<le> next_off st" by simp
    have zero: "f i = 0" if "next_off st \<le> i" "i < fileoffset e" for i
      using pre that ES Cons.prems(1)
      by (intro hole) (auto simp: covers_def wf_extents_def sorted_wrt_append precedes_def)
    show ?thesis
    proof (cases "next_off st < fileoffset e \<and> last_off < fileoffset e")
      case brk: True
      have lo: "next_off st \<le> last_off" using nr off(1) Cons.prems(3) by simp
      have z: "f i = 0" if "next_off st \<le> i" "i < last_off" for i using zero that brk by simp
      have "last_off \<le> offset + count" using off(1) by simp
      note fz = fill_zeros [OF inv lo this off(2,3) z]
      have "read_extents ops rekey clock count last_off (e # es) st =
          (Inr (), st\<lparr>rd_buf := map f [offset..<last_off] @ drop (last_off - offset) buf, read_count := count\<rparr>)"
        using False brk fz by simp
      moreover have "last_off \<le> fsize" using brk size [OF e(1)] by simp
      ultimately show ?thesis using inv off(1) by (auto simp: read_inv_def)
    next
      case nb: False
      define st1 where "st1 = (if next_off st < fileoffset e
        then st\<lparr>rd_buf := map f [offset..<fileoffset e] @ drop (fileoffset e - offset) buf,
               read_count := fileoffset e - offset, next_off := fileoffset e\<rparr> else st)"
      have st1: "(if next_off st < fileoffset e
              then map_option (\<lambda>buf. st\<lparr>rd_buf := buf,
                     read_count := u64 (read_count st + u64_sub (fileoffset e) (next_off st)),
                     next_off := fileoffset e\<rparr>)
                   (blit (rd_buf st) (read_count st) (replicate (u64_sub (fileoffset e) (next_off st)) 0))
              else Some st) = Some st1"
      proof (cases "next_off st < fileoffset e")
        case True
        then have "next_off st \<le> fileoffset e" "fileoffset e \<le> offset + count" using nb off(1) by auto
        note fz = fill_zeros [OF inv this small off(3) zero]
        show ?thesis using fz True by (simp add: st1_def)
      qed (simp add: st1_def)
      have inv1: "read_inv good tape_of at T f offset buf bs num st1" "read_count st1 \<le> count"
        "fileoffset e \<le> next_off st1" "next_off st \<le> next_off st1" "next_off st1 \<le> max offset fsize"
        using inv nb nr off(1) Cons.prems(3,4) size [OF e(1)] by (auto simp: st1_def read_inv_def)
      have "\<exists>st2. (if next_off st1 < fileoffset_end e then read_extent ops rekey clock count last_off e st1 else (Inr (), st1)) =
          (Inr (), st2) \<and> read_inv good tape_of at T f offset buf bs num st2 \<and>
          next_off st2 = max (next_off st1) (min last_off ?stop)"
      proof (cases "next_off st1 < ?stop")
        case True
        then have "covers e (next_off st1)" using inv1(3) by (simp add: covers_def)
        then have "num (ext_partition e) < 2" using cov e(1) by blast
        then show ?thesis
          using read_extent_ok [OF e(2) bs refl _ _ off inv1(1,3) True inv1(2)] cov [OF e(1)] True fe by simp
      qed (use inv1 fe in auto)
      then obtain st2 where st2: "(if next_off st1 < fileoffset_end e then read_extent ops rekey clock count last_off e st1
            else (Inr (), st1)) = (Inr (), st2)" "read_inv good tape_of at T f offset buf bs num st2"
          "next_off st2 = max (next_off st1) (min last_off ?stop)"
        by blast
      have n2: "next_off st2 = offset + read_count st2" "next_off st1 = offset + read_count st1"
        using st2(2) inv1(1) by (auto simp: read_inv_def)
      have "read_count st2 \<le> count" "next_off st2 \<le> max offset fsize"
        using n2 st2(3) off(1) inv1(2,5) size [OF e(1)] by auto
      moreover have "read_count st2 = count \<or> ?stop \<le> next_off st2" "next_off st \<le> next_off st2"
        using n2 st2(3) off(1) inv1(2,4) by (auto simp: max_def min_def split: if_split_asm)
      then have "read_count st2 = count \<or> (\<forall>e\<in>set (pre @ [e]). fileoffset e + bytecount e \<le> next_off st2)"
        using pre by fastforce
      moreover have "read_extents ops rekey clock count last_off (e # es) st =
          read_extents ops rekey clock count last_off es st2"
        unfolding read_extents.simps if_not_P [OF False] if_not_P [OF nb] st1 option.case st2(1) prod.case sum.case
        by (rule refl)
      ultimately show ?thesis
        using Cons.IH [of "pre @ [e]" st2] Cons.prems(1) st2(2) by simp
    qed
  qed
qed

lemma fill_eof_ok:
  assumes wf: "wf_extents bs (extentlist d)" "d_size d < max_off" and f: "f = (\<lambda>i. the (file_byte T bs num (extentlist d) i))"
    and off: "offset + count < two64" "count \<le> length buf" and m: "m = min count (d_size d - offset)"
    and st: "read_count st \<le> count" "offset + read_count st \<le> max offset (d_size d)"
      "rd_buf st = map f [offset..<offset + read_count st] @ drop (read_count st) buf"
      "read_count st = count \<or> read_inv good tape_of at T f offset buf bs num st \<and>
         (\<forall>e\<in>set (extentlist d). fileoffset e + bytecount e \<le> next_off st)"
  shows "\<exists>st'. fill_eof count (offset + count) (d_size d) st = Some st' \<and> rd_vol st' = rd_vol st \<and> read_count st' = m \<and>
    rd_buf st' = map f [offset..<offset + m] @ drop m buf"
proof (cases "read_count st < count \<and> next_off st < d_size d")
  case True
  then have inv: "read_inv good tape_of at T f offset buf bs num st"
    and past: "\<forall>e\<in>set (extentlist d). fileoffset e + bytecount e \<le> next_off st" using st(4) by auto
  have nr: "next_off st = offset + read_count st" using inv by (simp add: read_inv_def)
  define q where "q = (if offset + count < d_size d then offset + count else d_size d)"
  have q: "next_off st \<le> q" "q \<le> offset + count" "q < two64" "q - offset = m" "offset + m = q"
    using True nr off(1) by (auto simp: q_def m)
  have "f i = 0" if "next_off st \<le> i" for i
    using past that unfolding f by (intro file_byte_hole [OF wf(1)]) (auto simp: covers_def)
  note fz = fill_zeros [OF inv q(1-3) off(2) this]
  have "(if offset + count < d_size d then u64_sub (offset + count) (next_off st)
      else u64_sub (d_size d) (next_off st)) = u64_sub q (next_off st)" by (simp add: q_def)
  then have "fill_eof count (offset + count) (d_size d) st =
      Some (st\<lparr>rd_buf := map f [offset..<q] @ drop m buf, read_count := m\<rparr>)"
    unfolding fill_eof_def if_P [OF True] using fz q(4) by (simp add: Let_def)
  then show ?thesis by (simp add: q(5))
next
  case False
  have "read_count st = m" using False st(1,2,4) by (auto simp: m read_inv_def)
  then show ?thesis using st(3) unfolding fill_eof_def if_not_P [OF False] by simp
qed

lemma read_locked_ok:
  fixes vol :: "('s, 'o) ltfs_volume"
  assumes vol: "readable_volume good tape_of at T vol" and mem: "block_mem = Some lb0" "length lb0 = blocksize vol"
    and num: "num = (\<lambda>c. ltfs_part_id2num c vol)" and d: "file_ok (blocksize vol) d" "backed T (blocksize vol) num (extentlist d)"
    and off: "offset < max_off" "count < max_off" "count \<le> length buf" and m: "m = min count (d_size d - offset)"
  shows "\<exists>vol'. read_locked ops rekey block_mem clock d buf count offset vol =
      (Inr m, take m (drop offset (file_contents T (blocksize vol) num d)) @ drop m buf,
       d\<lparr>access_time := snd (snd clock)\<rparr>, vol') \<and> read_vol good tape_of at T (blocksize vol) num vol'"
proof -
  define v where "v = (if vol_last_block vol = None then vol\<lparr>vol_last_block := block_mem\<rparr> else vol)"
  define f where "f = (\<lambda>i. the (file_byte T (blocksize vol) num (extentlist d) i))"
  let ?st = "\<lparr>rd_vol = v, rd_buf = buf, next_off = offset, read_count = 0, is_first_dp_locate = False\<rparr>"
  note vd = vol [unfolded readable_volume_def]
  have lb: "\<exists>lb. vol_last_block v = Some lb \<and> length lb = blocksize vol"
    using vd mem by (cases "vol_last_block vol") (auto simp: v_def)
  have "cache_ok T v" using vd by (auto simp: cache_ok_def Let_def v_def)
  then have inv: "read_inv good tape_of at T f offset buf (blocksize vol) num ?st"
    using vd lb by (auto simp: read_inv_def read_vol_def num v_def)
  have last: "u64 (offset + count) = offset + count" "offset + count < two64"
    using off by (simp_all add: u64_id max_off_def two64_def)
  have wf: "wf_extents (blocksize vol) (extentlist d)" "d_size d < max_off"
    and bnd: "\<And>e. e \<in> set (extentlist d) \<Longrightarrow> fileoffset e + bytecount e \<le> d_size d"
    using d by (auto simp: file_ok_def bounded_def)
  have "\<exists>st'. read_extents ops rekey clock count (offset + count) (extentlist d) ?st = (Inr (), st') \<and>
    read_vol good tape_of at T (blocksize vol) num (rd_vol st') \<and> read_count st' \<le> count \<and>
    offset + read_count st' \<le> max offset (d_size d) \<and>
    rd_buf st' = map f [offset..<offset + read_count st'] @ drop (read_count st') buf \<and>
    (read_count st' = count \<or> read_inv good tape_of at T f offset buf (blocksize vol) num st' \<and>
       (\<forall>e\<in>set (extentlist d). fileoffset e + bytecount e \<le> next_off st'))"
    by (rule read_extents_ok [where pre = "[]", OF wf(1) _ _ _ _ bnd refl last(2) off(3) _ inv])
      (use vd file_byte_covered [OF wf(1) d(2)] file_byte_hole [OF wf(1)] in \<open>auto simp: f_def\<close>)
  then obtain st' where run: "read_extents ops rekey clock count (offset + count) (extentlist d) ?st = (Inr (), st')"
    and st': "read_vol good tape_of at T (blocksize vol) num (rd_vol st')" "read_count st' \<le> count"
    "offset + read_count st' \<le> max offset (d_size d)"
    "rd_buf st' = map f [offset..<offset + read_count st'] @ drop (read_count st') buf"
    "read_count st' = count \<or> read_inv good tape_of at T f offset buf (blocksize vol) num st' \<and>
       (\<forall>e\<in>set (extentlist d). fileoffset e + bytecount e \<le> next_off st')" by blast
  obtain st'' where fill: "fill_eof count (offset + count) (d_size d) st' = Some st''" "rd_vol st'' = rd_vol st'"
      "read_count st'' = m" "rd_buf st'' = map f [offset..<offset + m] @ drop m buf"
    using fill_eof_ok [OF wf f_def last(2) off(3) m st'(2-5)] by blast
  have "map f [offset..<offset + m] = take m (drop offset (file_contents T (blocksize vol) num d))"
    by (rule nth_equalityI) (auto simp: file_contents_def f_def m)
  moreover have "vol_last_block v \<noteq> None" using lb by auto
  moreover have "read_vol good tape_of at T (blocksize vol) num ((rd_vol st')\<lparr>index := ltfs_set_index_dirty True (index (rd_vol st'))\<rparr>)"
    using st'(1) by (simp add: read_vol_def)
  ultimately show ?thesis
    unfolding read_locked_def v_def [symmetric] Let_def last(1) using run fill by simp
qed

lemma fsraw_read_ok:
  fixes vol :: "('s, 'o) ltfs_volume"
  assumes vol: "readable_volume good tape_of at T vol" and mem: "length lb0 = blocksize vol"
    and num: "num = (\<lambda>c. ltfs_part_id2num c vol)" and d: "file_ok (blocksize vol) d" "backed T (blocksize vol) num (extentlist d)"
    and off: "offset < max_off" "0 < count" "count < max_off" "count \<le> length buf" and m: "m = min count (d_size d - offset)"
  shows "\<exists>vol'. ltfs_fsraw_read (Suc n) ops rekey rv wv True (Some lb0) clock d buf count offset vol =
      (Inr m, take m (drop offset (file_contents T (blocksize vol) num d)) @ drop m buf,
       d\<lparr>access_time := snd (snd clock)\<rparr>, vol') \<and>
    readable_volume good tape_of at T vol' \<and> blocksize vol' = blocksize vol \<and> (\<lambda>c. ltfs_part_id2num c vol') = num"
proof -
  obtain vol' where rd: "read_locked ops rekey (Some lb0) clock d buf count offset vol =
      (Inr m, take m (drop offset (file_contents T (blocksize vol) num d)) @ drop m buf,
       d\<lparr>access_time := snd (snd clock)\<rparr>, vol')" "read_vol good tape_of at T (blocksize vol) num vol'"
    using read_locked_ok [OF vol refl mem num d off(1,3,4) m] by blast
  have "ltfs_get_volume_lock vol = Inr ()" "tape_device_lock True (device vol) = Inr ()"
    using vol by (simp_all add: readable_volume_def ltfs_get_volume_lock_def tape_device_lock_def)
  then have "ltfs_fsraw_read (Suc n) ops rekey rv wv True (Some lb0) clock d buf count offset vol =
      read_locked ops rekey (Some lb0) clock d buf count offset vol"
    using rd(1) off(2) by simp
  moreover have "readable_volume good tape_of at T vol'"
    using rd(2) vol by (auto simp: readable_volume_def read_vol_def)
  ultimately show ?thesis using rd by (auto simp: read_vol_def)
qed

end

end
