(* ===== verification/FileContents.thy ===== *)
theory FileContents
  imports FsRawLaws
begin

text \<open>
  The contents of files over the operations of \<open>ltfs_fsops_raw.c\<close>: adding an extent and truncating
  keep the invariant \<open>file_ok\<close> of a file, and writing a buffer puts it into the contents of the file
  and leaves every other byte of the volume alone.
\<close>

section \<open>Extent lists of files\<close>

lemma file_ok_add_pre:
  assumes "file_ok bs d" "ext_ok bs ext" "0 < bs" "bs < two32"
  shows "add_pre bs ext (rev (extentlist d)) [] (d_realsize d)"
  using assms by (simp add: file_ok_def add_pre_def)

lemma add_extent_unlocked_ok:
  assumes d: "file_ok (blocksize vol) d" and x: "ext_ok (blocksize vol) ext" "0 < blocksize vol" "blocksize vol < two32"
    and run: "fsraw_add_extent_unlocked jm copy_ok split_ok now d ext update_time vol = (Inr (), d', vol')"
  shows "file_ok (blocksize vol) d'" "d_size d' = max (d_size d) (fileoffset ext + bytecount ext)"
    "byte_loc (blocksize vol) (extentlist d') i =
      (if covers ext i then Some (addr (blocksize vol) ext i) else byte_loc (blocksize vol) (extentlist d) i)"
proof -
  note pre = file_ok_add_pre [OF d x]
  obtain es rs used where lp: "add_extent_loop (blocksize vol) split_ok ext (rev (extentlist d)) [] (d_realsize d) = (es, Some (rs, used))"
    using run by (auto simp: fsraw_add_extent_unlocked_def split: if_split_asm option.splits prod.splits)
  have es: "extentlist d' = (if used then es else ext # es)" "d_size d' = max (d_size d) (fileoffset_end ext)"
    "d_realsize d' = (if used then rs else u64 (rs + bytecount ext))"
    using run lp by (auto simp: fsraw_add_extent_unlocked_def ltfs_set_dentry_dirty_def Let_def split: if_split_asm)
  have "if used then added (blocksize vol) ext (extentlist d) es rs
      else added (blocksize vol) ext (extentlist d) (ext # es) (rs + bytecount ext)"
    using add_extent_loop_added [OF pre lp] unfolding rev_rev_ident append_Nil2 .
  then have ad: "added (blocksize vol) ext (extentlist d) (extentlist d') (if used then rs else rs + bytecount ext)"
    by (simp add: es split: if_split_asm)
  show sz: "d_size d' = max (d_size d) (fileoffset ext + bytecount ext)" by (simp add: es ends [OF x(1)])
  show "byte_loc (blocksize vol) (extentlist d') i =
      (if covers ext i then Some (addr (blocksize vol) ext i) else byte_loc (blocksize vol) (extentlist d) i)"
    using ad by (simp add: added_def)
  have "bounded (d_size d') (ext # extentlist d)"
    using d unfolding sz file_ok_def by (auto simp: bounded_def le_max_iff_disj)
  then have b: "bounded (d_size d') (extentlist d')" using ad by (auto simp: added_def)
  have wf: "wf_extents (blocksize vol) (extentlist d')" using ad by (simp add: added_def)
  have "d_size d' < max_off" using d x(1) by (simp add: sz file_ok_def ext_ok_def)
  moreover have "ext_bytes (extentlist d') < two64"
    using ext_bytes_bound [OF wf, of 0] max_off_less(2) by (simp add: max_off_def)
  then have "d_realsize d' = ext_bytes (extentlist d')"
    using ad es(3) by (auto simp: added_def u64_id split: if_split_asm)
  ultimately show "file_ok (blocksize vol) d'" using wf b by (simp add: file_ok_def)
qed

text \<open>The journal is not one of the fields this development looks at.\<close>

definition journal_only :: "(dentry \<Rightarrow> ('s, 'o) ltfs_volume \<Rightarrow> ('s, 'o) ltfs_volume) \<Rightarrow> bool" where
  "journal_only jm \<longleftrightarrow> (\<forall>d vol. \<exists>x. jm d vol = vol\<lparr>others := x\<rparr>)"

lemma add_extent_unlocked_succeeds:
  assumes d: "file_ok (blocksize vol) d" and x: "ext_ok (blocksize vol) ext" "0 < blocksize vol" "blocksize vol < two32"
    and jm: "journal_only jm"
  obtains d' idx x where
    "fsraw_add_extent_unlocked jm True True now d ext update_time vol = (Inr (), d', vol\<lparr>others := x, index := idx\<rparr>)"
proof -
  obtain es r where lp: "add_extent_loop (blocksize vol) True ext (rev (extentlist d)) [] (d_realsize d) = (es, r)"
    by (rule prod.exhaust)
  have "r \<noteq> None"
  proof
    assume "r = None"
    then show False using add_extent_loop_None [OF file_ok_add_pre [OF d x], of True es] lp by simp
  qed
  then obtain rs used where r: "r = Some (rs, used)" by (cases r) auto
  obtain d' v where "fsraw_add_extent_unlocked jm True True now d ext update_time vol =
      (Inr (), d', v\<lparr>index := ltfs_set_index_dirty False (index v)\<rparr>)" "\<exists>x. v = vol\<lparr>others := x\<rparr>"
  proof -
    have "\<exists>x. vol = vol\<lparr>others := x\<rparr>" by (rule exI [of _ "others vol"]) simp
    moreover have "\<exists>x. jm d0 vol = vol\<lparr>others := x\<rparr>" for d0 using jm by (auto simp: journal_only_def)
    ultimately show ?thesis
      using that lp r by (simp add: fsraw_add_extent_unlocked_def ltfs_set_dentry_dirty_def Let_def)
  qed
  then show ?thesis using that by blast
qed

lemma truncate_ok:
  assumes d: "file_ok bs d" and len: "n < max_off" and run: "ltfs_fsraw_truncate jm now d n vol = (Inr (), d', vol')"
  shows "file_ok bs d'" "d_size d' = n"
    "byte_loc bs (extentlist d') i = (if i < n then byte_loc bs (extentlist d) i else None)"
proof -
  let ?r = "if n < d_size d then truncate_loop n (rev (extentlist d)) [] (d_realsize d) else (extentlist d, d_realsize d)"
  obtain es rs where r: "?r = (es, rs)" by (rule prod.exhaust)
  have d': "extentlist d' = es" "d_size d' = n" "d_realsize d' = rs"
    using run r by (auto simp: ltfs_fsraw_truncate_def ltfs_set_dentry_dirty_def Let_def split: sum.splits)
  have wf: "wf_extents bs (extentlist d)" "bounded (d_size d) (extentlist d)" "d_realsize d = ext_bytes (extentlist d)"
    using d by (auto simp: file_ok_def)
  have "wf_extents bs es \<and> rs = ext_bytes es \<and> bounded n es \<and>
      byte_loc bs es i = (if i < n then byte_loc bs (extentlist d) i else None)"
  proof (cases "n < d_size d")
    case True
    have "trunc_pre bs n (rev (extentlist d)) [] (d_realsize d)"
      using d len max_off_less(2) by (simp add: trunc_pre_def file_ok_def)
    from truncate_loop_ok [OF this] r True show ?thesis by (auto simp: bounded_def)
  next
    case False
    then have "bounded n (extentlist d)" using wf(2) by (auto simp: bounded_def intro: order_trans)
    then have "byte_loc bs (extentlist d) i = None" if "\<not> i < n"
      using byte_loc_past [OF wf(1) _ that] by (simp add: bounded_def)
    with False r wf \<open>bounded n (extentlist d)\<close> show ?thesis by auto
  qed
  then show "file_ok bs d'" "d_size d' = n"
    "byte_loc bs (extentlist d') i = (if i < n then byte_loc bs (extentlist d) i else None)"
    using d' len by (simp_all add: file_ok_def)
qed

section \<open>Contents\<close>

text \<open>A buffer put into the contents of a file, with zeros up to it if the file is shorter.\<close>

definition overlay :: "byte list \<Rightarrow> nat \<Rightarrow> byte list \<Rightarrow> byte list" where
  "overlay xs n ys = take n (xs @ replicate (n - length xs) 0) @ ys @ drop (n + length ys) xs"

lemma length_overlay [simp]: "length (overlay xs n ys) = max (length xs) (n + length ys)"
  by (auto simp: overlay_def)

lemma overlay_nth:
  assumes "i < max (length xs) (n + length ys)"
  shows "overlay xs n ys ! i =
    (if n \<le> i \<and> i < n + length ys then ys ! (i - n) else if i < length xs then xs ! i else 0)"
proof -
  let ?xs = "take n (xs @ replicate (n - length xs) 0)"
  have "length ?xs = n" by simp
  moreover have "?xs ! j = (if j < length xs then xs ! j else 0)" if "j < n" for j
    using that by (simp add: nth_append)
  ultimately show ?thesis using assms unfolding overlay_def by (auto simp: nth_append)
qed

lemma length_file_contents [simp]: "length (file_contents T bs num d) = d_size d"
  by (simp add: file_contents_def)

lemma file_contents_nth [simp]:
  "i < d_size d \<Longrightarrow> file_contents T bs num d ! i = the (file_byte T bs num (extentlist d) i)"
  by (simp add: file_contents_def)

lemma length_chunks_ge: "0 < bs \<Longrightarrow> length xs div bs \<le> length (chunks bs xs)"
proof (induction bs xs rule: chunks.induct)
  case (1 bs xs)
  show ?case
  proof (cases "length xs < bs")
    case False
    then have "length xs div bs = Suc ((length xs - bs) div bs)" "xs \<noteq> []" using 1(2) by (auto simp: le_div_geq)
    then show ?thesis using 1 by (simp add: chunks_step)
  qed simp
qed

text \<open>
  The bytes of a file outside the blocks that are written over: \<open>b\<close> is the first block written of
  partition \<open>p\<close>.
\<close>

definition below :: "nat \<Rightarrow> (char \<Rightarrow> nat) \<Rightarrow> nat \<Rightarrow> nat \<Rightarrow> extent_info list \<Rightarrow> bool" where
  "below bs num p b es \<longleftrightarrow>
     (\<forall>e\<in>set es. \<forall>i. covers e i \<longrightarrow> num (ext_partition e) = p \<longrightarrow> snd (addr bs e i) div bs < b)"

lemma tape_byte_below:
  assumes "b \<le> length (T p)" "q = p \<longrightarrow> a div bs < b"
  shows "tape_byte (T(p := take b (T p) @ ds)) bs q a = tape_byte T bs q a"
  using assms tape_byte_kept [of a bs b T p "T(p := take b (T p) @ ds)" ds] by (cases "q = p") (auto simp: tape_byte_def)

lemma file_byte_below:
  assumes "wf_extents bs es" "below bs num p b es" "b \<le> length (T p)"
  shows "file_byte (T(p := take b (T p) @ ds)) bs num es i = file_byte T bs num es i"
proof (cases "byte_loc bs es i")
  case (Some ca)
  then obtain e where e: "e \<in> set es" "covers e i" "ca = addr bs e i" using byte_loc_Some [OF assms(1)] by blast
  then have "fst ca = ext_partition e" "num (fst ca) = p \<longrightarrow> snd ca div bs < b"
    using assms(2) by (auto simp: addr_def below_def)
  then show ?thesis using Some tape_byte_below [of b T p, OF assms(3)] by (cases ca) (simp add: file_byte_def)
qed (simp add: file_byte_def)

lemma cache_ok_written:
  assumes "cache_ok T vol" "ltfs_part_id2num (last_pos_partition vol) vol = p \<longrightarrow> last_pos_block vol < b" "b \<le> length (T p)"
  shows "cache_ok (T(p := take b (T p) @ ds)) vol"
  using assms by (auto simp: cache_ok_def Let_def nth_append)

lemma backed_below:
  assumes "backed T bs num es" "below bs num p b es" "b \<le> length (T p)"
  shows "backed (T(p := take b (T p) @ ds)) bs num es"
  using assms tape_byte_below [of b T p, OF assms(3)] by (auto simp: backed_def below_def)

text \<open>The contents of a file when an extent has been added for a buffer just written.\<close>

lemma written_contents:
  assumes bs: "0 < bs" and es: "wf_extents bs (extentlist d)" "wf_extents bs (extentlist d')" "below bs num p b (extentlist d)"
    "backed T bs num (extentlist d)" "bounded (d_size d) (extentlist d)"
    and b: "b \<le> length (T p)" and p: "num part = p" "p < 2"
    and T': "T' = T(p := take b (T p) @ map Data (chunks bs buf))"
    and ext: "ext = \<lparr>ext_block = b, ext_partition = part, byteoffset = 0, bytecount = length buf, fileoffset = offset\<rparr>"
    and d': "d_size d' = max (d_size d) (offset + length buf)"
      "\<And>i. byte_loc bs (extentlist d') i = (if covers ext i then Some (addr bs ext i) else byte_loc bs (extentlist d) i)"
  shows "file_contents T' bs num d' = overlay (file_contents T bs num d) offset buf"
    "backed T' bs num (extentlist d')"
proof -
  have new: "tape_byte T' bs p (snd (addr bs ext i)) = Some (buf ! (i - offset))" if "covers ext i" for i
  proof -
    have "i - offset < length buf" "snd (addr bs ext i) = b * bs + (i - offset)"
      using that by (auto simp: ext covers_def addr_def)
    then show ?thesis using tape_byte_written [OF bs, of "i - offset" buf b T p T'] b by (simp add: T')
  qed
  have fp: "fst (addr bs ext i) = part" for i by (simp add: ext addr_def)
  have old: "file_byte T' bs num (extentlist d) i = file_byte T bs num (extentlist d) i" for i
    unfolding T' by (rule file_byte_below) (use es b in auto)
  have byte: "file_byte T' bs num (extentlist d') i =
      (if covers ext i then Some (buf ! (i - offset)) else file_byte T bs num (extentlist d) i)" for i
    using new [of i] fp [of i] p(1) old [of i]
    by (cases "addr bs ext i") (simp add: file_byte_def d'(2) split: option.split)
  have past: "file_byte T bs num (extentlist d) i = Some 0" if "d_size d \<le> i" for i
    using byte_loc_past [OF es(1), of "d_size d" i] es(5) that by (simp add: file_byte_def bounded_def)
  show "file_contents T' bs num d' = overlay (file_contents T bs num d) offset buf"
    by (rule nth_equalityI) (use past in \<open>auto simp: d'(1) overlay_nth byte covers_def ext\<close>)
  show "backed T' bs num (extentlist d')"
    unfolding backed_def
  proof (intro ballI allI impI)
    fix e i assume e: "e \<in> set (extentlist d')" "covers e i"
    then have "byte_loc bs (extentlist d') i = Some (addr bs e i)" using byte_loc_Some [OF es(2)] by blast
    then consider "covers ext i" "addr bs e i = addr bs ext i"
      | e0 where "e0 \<in> set (extentlist d)" "covers e0 i" "addr bs e i = addr bs e0 i"
      using byte_loc_Some [OF es(1)] by (auto simp: d'(2) split: if_split_asm)
    then show "num (ext_partition e) < 2 \<and> tape_byte T' bs (num (ext_partition e)) (snd (addr bs e i)) \<noteq> None"
    proof cases
      case 1
      then have "ext_partition e = part" using fp [of i] by (simp add: addr_def)
      then show ?thesis using 1 new [of i] p by simp
    next
      case 2
      then have "ext_partition e = ext_partition e0" by (simp add: addr_def)
      then show ?thesis using 2 backed_below [OF es(4,3) b, of "map Data (chunks bs buf)"] by (auto simp: backed_def T')
    qed
  qed
qed

context tape_backend
begin

lemma fsraw_write_ok:
  fixes vol :: "('s, 'o) ltfs_volume"
  assumes vol: "readable_volume good tape_of at T vol" "writable_volume ops vol" and num: "num = (\<lambda>c. ltfs_part_id2num c vol)"
    and part: "part = partid_dp vol \<or> part = partid_ip vol" "num part = p" "p < 2"
    and idx: "ltfs_write_index_conditional wi (if part = partid_ip vol then partid_dp vol else partid_ip vol) vol = (Inr (), vol)"
    and jm: "journal_only jm"
    and b: "append_pos (device vol) p \<le> length (T p)" "b = append_block T (device vol) p"
    and size: "blocksize vol \<le> limit (backend_data (device vol))" "blocksize vol \<le> dev_max_block_size (device vol)"
      "b + length (chunks (blocksize vol) buf) < TAPE_BLOCK_MAX"
    and room: "\<forall>j \<le> length (chunks (blocksize vol) buf). roomy (backend_data (device vol)) p (b + j)"
    and d: "file_ok (blocksize vol) d" "backed T (blocksize vol) num (extentlist d)" "below (blocksize vol) num p b (extentlist d)"
    and cache: "num (last_pos_partition vol) = p \<longrightarrow> last_pos_block vol < b"
    and buf: "buf \<noteq> []" "offset + length buf < max_off"
    and T': "T' = T(p := take b (T p) @ map Data (chunks (blocksize vol) buf))"
  shows "\<exists>d' vol'. ltfs_fsraw_write (Suc n) ops wi rv wv jm True True True clock d buf offset part ut vol = (Inr (), d', vol') \<and>
    file_ok (blocksize vol) d' \<and> backed T' (blocksize vol) num (extentlist d') \<and>
    file_contents T' (blocksize vol) num d' = overlay (file_contents T (blocksize vol) num d) offset buf \<and>
    readable_volume good tape_of at T' vol' \<and> blocksize vol' = blocksize vol \<and> (\<lambda>c. ltfs_part_id2num c vol') = num"
proof -
  let ?bs = "blocksize vol"
  note v = vol(1) [unfolded readable_volume_def]
  have T: "contents (device vol) = T" using v by simp
  have bT: "b \<le> length (T p)" using b by (simp add: append_block_def)
  obtain vol1 where w: "fsraw_write_data_unlocked ops wi True clock part buf 1 0 vol = (Inr b, vol1)"
    "vol1 = vol\<lparr>device := device vol1, ip_index_file_end := ip_index_file_end vol1,
       dp_index_file_end := dp_index_file_end vol1, first_locate := first_locate vol1\<rparr>"
    "synced good at (device vol1)" "contents (device vol1) = T'"
    "same_state (device vol) ((device vol1)\<lparr>append_pos := append_pos (device vol)\<rparr>)"
    by (rule write_data_ok [of vol part p wi b buf clock]) (use v vol(2) part idx b size room buf T T' num in auto)
  have bs1: "blocksize vol1 = ?bs" by (subst w(2)) simp
  have num1: "ltfs_part_id2num c vol1 = num c" for c by (subst w(2)) (simp add: num)
  let ?ext = "\<lparr>ext_block = b, ext_partition = part, byteoffset = 0, bytecount = length buf, fileoffset = offset\<rparr>"
  have "b + length buf div ?bs < two64"
    using length_chunks_ge [of ?bs buf] v size(3) TAPE_BLOCK_MAX_less by linarith
  then have x: "ext_ok ?bs ?ext" using buf(2) by (simp add: ext_ok_def)
  obtain d' idx' x' where ad: "fsraw_add_extent_unlocked jm True True (snd (snd clock)) d ?ext ut vol1 =
      (Inr (), d', vol1\<lparr>others := x', index := idx'\<rparr>)"
    by (rule add_extent_unlocked_succeeds [of vol1 d ?ext jm "snd (snd clock)" ut]) (use d(1) x v jm in \<open>auto simp: bs1\<close>)
  note ok = add_extent_unlocked_ok [of vol1 d ?ext, unfolded bs1, OF d(1) x _ _ ad]
  let ?vol' = "vol1\<lparr>others := x', index := idx'\<rparr>"
  have dd: "file_ok ?bs d'" "d_size d' = max (d_size d) (offset + length buf)"
    "\<And>i. byte_loc ?bs (extentlist d') i = (if covers ?ext i then Some (addr ?bs ?ext i) else byte_loc ?bs (extentlist d) i)"
    using ok v by simp_all
  have "file_contents T' ?bs num d' = overlay (file_contents T ?bs num d) offset buf" "backed T' ?bs num (extentlist d')"
    using written_contents [OF _ _ _ d(3,2) _ bT part(2,3) T' refl dd(2,3)] v d(1) dd(1) by (auto simp: file_ok_def)
  moreover have "ltfs_fsraw_write (Suc n) ops wi rv wv jm True True True clock d buf offset part ut vol = (Inr (), d', ?vol')"
    using v w(1) ad by (simp add: ltfs_get_volume_lock_def)
  moreover have "ltfs_part_id2num c ?vol' = num c" for c using num1 by simp
  moreover have "readable_volume good tape_of at T' ?vol'"
  proof -
    have "cache_ok T' vol" unfolding T' by (rule cache_ok_written) (use v cache bT num in auto)
    then have "cache_ok T' vol1" by (subst w(2)) simp
    moreover have "reval vol1 = reval vol" "vol_last_block vol1 = vol_last_block vol" by (subst w(2), simp)+
    moreover have "fence (device vol1) = fence (device vol)" using w(5) by (simp add: same_state_def)
    ultimately show ?thesis using v w(3,4) bs1 by (simp add: readable_volume_def)
  qed
  ultimately show ?thesis using dd(1) bs1 by (intro exI [of _ d'] exI [of _ ?vol'] conjI ext) simp_all
qed

end

section \<open>Properties\<close>

text \<open>
  C4. \<open>ltfs_fsraw_add_extent\<close> puts the new extent over the old ones: a byte the new extent covers is
  where the extent says, every other byte stays where it was, whatever has been deleted, cut, split or
  merged on the way.  Size and real size follow, and the list stays ordered and free of overlaps.
\<close>

theorem add_extent_overlay:
  assumes "file_ok (blocksize vol) d" "ext_ok (blocksize vol) ext" "0 < blocksize vol" "blocksize vol < two32"
    "ltfs_fsraw_add_extent ops jm copy_ok split_ok now d ext update_time vol = (Inr (), d', vol')"
  shows "file_ok (blocksize vol) d' \<and> d_size d' = max (d_size d) (fileoffset ext + bytecount ext) \<and>
    (\<forall>i. byte_loc (blocksize vol) (extentlist d') i =
      (if covers ext i then Some (addr (blocksize vol) ext i) else byte_loc (blocksize vol) (extentlist d) i))"
proof -
  have "fsraw_add_extent_unlocked jm copy_ok split_ok now d ext update_time vol = (Inr (), d', vol')"
    using assms(5) by (auto simp: ltfs_fsraw_add_extent_def Let_def split: option.split_asm sum.split_asm)
  from add_extent_unlocked_ok [OF assms(1-4) this] show ?thesis by blast
qed

text \<open>
  C6. When \<open>ltfs_fsraw_add_extent\<close> fails, the file and the volume are as they were, also when the
  allocation for a split fails in the middle of the walk over the list.
\<close>

theorem add_extent_failure:
  assumes "file_ok (blocksize vol) d" "ext_ok (blocksize vol) ext" "0 < blocksize vol" "blocksize vol < two32"
    "ltfs_fsraw_add_extent ops jm copy_ok split_ok now d ext update_time vol = (Inl e, d', vol')"
  shows "d' = d \<and> vol' = vol"
proof -
  have "es = extentlist d"
    if "add_extent_loop (blocksize vol) split_ok ext (rev (extentlist d)) [] (d_realsize d) = (es, None)" for es
    using add_extent_loop_None [OF file_ok_add_pre [OF assms(1-4)] that] by simp
  then show ?thesis
    using assms(5)
    by (auto simp: ltfs_fsraw_add_extent_def fsraw_add_extent_unlocked_def Let_def
        split: option.split_asm sum.split_asm if_split_asm prod.split_asm)
qed

text \<open>
  C5. \<open>ltfs_fsraw_truncate\<close> cuts the contents of a file at the new length, or extends them with zeros;
  what had been behind the new end does not come back.  The real size is again the number of bytes in
  the extents.
\<close>

theorem truncate_contents:
  assumes "file_ok bs d" "n < max_off" "ltfs_fsraw_truncate jm now d n vol = (Inr (), d', vol')"
  shows "file_ok bs d' \<and> file_contents T bs num d' = take n (file_contents T bs num d) @ replicate (n - d_size d) 0"
proof -
  note t = truncate_ok [OF assms]
  have past: "byte_loc bs (extentlist d) i = None" if "d_size d \<le> i" for i
    using byte_loc_past [of bs "extentlist d" "d_size d" i] assms(1) that by (simp add: file_ok_def bounded_def)
  have "file_contents T bs num d' ! i = (take n (file_contents T bs num d) @ replicate (n - d_size d) 0) ! i" if "i < n" for i
    using that t(2,3) past by (auto simp: nth_append file_byte_def)
  then have "file_contents T bs num d' = take n (file_contents T bs num d) @ replicate (n - d_size d) 0"
    using t(2) by (intro nth_equalityI) auto
  then show ?thesis using t(1) by simp
qed

section \<open>Extents lost with a write error\<close>

lemma cleanup_file_filter:
  assumes "reval vol = None"
  shows "cleanup_file err_pos bs vol front tail n =
    (None, rev (filter (\<lambda>e. \<not> lost_extent err_pos bs vol e) front) @ tail,
     foldl (\<lambda>n e. u64_sub n (bytecount e)) n (filter (lost_extent err_pos bs vol) front))"
  using assms by (induction front arbitrary: tail n) (auto simp: ltfs_get_volume_lock_def)

fun dtree_files :: "dtree list \<Rightarrow> dentry list" where
  "dtree_files [] = []"
| "dtree_files (TFile d # ds) = d # dtree_files ds"
| "dtree_files (TDir cs # ds) = dtree_files cs @ dtree_files ds"

text \<open>
  C35. \<open>ltfs_fsraw_cleanup_extent\<close> goes through the whole tree: in every file exactly the extents whose
  computed last block is at or behind the error position are gone, the others are there in their order.
\<close>

theorem cleanup_extent_filters:
  assumes "reval vol = None" "ltfs_fsraw_cleanup_extent err_pos bs vol ret ds = (ret', ds')"
  shows "map extentlist (dtree_files ds') =
    map (filter (\<lambda>e. \<not> lost_extent err_pos bs vol e) \<circ> extentlist) (dtree_files ds)"
  using assms
  by (induction err_pos bs vol ret ds arbitrary: ret' ds' rule: ltfs_fsraw_cleanup_extent.induct)
    (auto simp: cleanup_file_filter rev_filter split: prod.split_asm)


end
