(* ===== verification/CText.thy ===== *)
theory CText
  imports Prelude
begin

text \<open>
  Numbers in text, as the functions of the C library that the modelled code calls read and write them: the
  conversions of printf for non-negative numbers with and without leading zeros, the number scanner that
  strtoull, strtoll, strtol and the conversions of sscanf share (white space, a sign, a prefix for base 16,
  digits up to a field width), and the results of the strto functions at the ends of their ranges.
\<close>

section \<open>Printing\<close>

definition digit_char :: "nat \<Rightarrow> char" where
  "digit_char d = (if d < 10 then char_of (48 + d) else char_of (87 + d))"

text \<open>The conversions \<open>%d\<close> and \<open>%x\<close> of printf for a non-negative argument.\<close>

fun print_num :: "nat \<Rightarrow> nat \<Rightarrow> string" where
  "print_num base n =
     (if n < base \<or> base < 2 then [digit_char n]
      else print_num base (n div base) @ [digit_char (n mod base)])"

declare print_num.simps [simp del]

definition digit_val :: "char \<Rightarrow> nat" where
  "digit_val c = (let n = of_char c in if n < 58 then n - 48 else n - 87)"

lemma digit_val_char [simp]: "d < 16 \<Longrightarrow> digit_val (digit_char d) = d"
  by (simp add: digit_val_def digit_char_def Let_def)

lemma print_num_value:
  "2 \<le> base \<Longrightarrow> base \<le> 16 \<Longrightarrow> foldl (\<lambda>a c. a * base + digit_val c) 0 (print_num base n) = n"
proof (induction base n rule: print_num.induct)
  case (1 base n)
  then have "n mod base < 16" using mod_less_divisor [of base n] by linarith
  with 1 show ?case by (cases "n < base") (simp_all add: print_num.simps [of base n])
qed

lemma print_num_inj [simp]: "2 \<le> base \<Longrightarrow> base \<le> 16 \<Longrightarrow> print_num base m = print_num base n \<longleftrightarrow> m = n"
  by (metis print_num_value)

lemma print_num_digits: "c \<in> set (print_num 10 n) \<Longrightarrow> c \<in> digit_char ` {..<10}"
proof (induction "10::nat" n rule: print_num.induct)
  case (1 n)
  then show ?case by (cases "n < 10") (auto simp: print_num.simps [of 10 n])
qed

lemma print_num_nonempty [simp]: "print_num base n \<noteq> []"
  by (simp add: print_num.simps)

text \<open>The conversion with leading zeros, \<open>%0wd\<close>.\<close>

definition print_pad :: "nat \<Rightarrow> nat \<Rightarrow> string" where
  "print_pad w n = replicate (w - length (print_num 10 n)) (CHR ''0'') @ print_num 10 n"

definition print_pad_int :: "nat \<Rightarrow> int \<Rightarrow> string" where
  "print_pad_int w n = (if n < 0 then CHR ''-'' # print_pad (w - 1) (nat (- n)) else print_pad w (nat n))"

section \<open>Scanning\<close>

definition isspace :: "char \<Rightarrow> bool" where
  "isspace c \<longleftrightarrow> of_char c \<in> {9, 10, 11, 12, 13, 32 :: nat}"

text \<open>The value of a digit in bases up to 16, in either case; 16 for any other character.\<close>

definition digit_of :: "char \<Rightarrow> nat" where
  "digit_of c =
     (let n = of_char c in
      if 48 \<le> n \<and> n < 58 then n - 48 else if 97 \<le> n \<and> n < 103 then n - 87 else if 65 \<le> n \<and> n < 71 then n - 55 else 16)"

definition is_digit :: "nat \<Rightarrow> char \<Rightarrow> bool" where
  "is_digit base c \<longleftrightarrow> digit_of c < base"

definition digits_value :: "nat \<Rightarrow> string \<Rightarrow> nat" where
  "digits_value base ds = foldl (\<lambda>a c. a * base + digit_of c) 0 ds"

text \<open>
  A number within a field of \<open>w\<close> characters behind white space: whether it has a minus sign, its
  magnitude and the text behind it, or \<open>None\<close> if there is no number.
\<close>

definition strip_sign :: "nat \<Rightarrow> string \<Rightarrow> bool \<times> nat \<times> string" where
  "strip_sign w s =
     (case s of c # r \<Rightarrow> if w = 0 then (False, w, s)
                        else if c = CHR ''-'' then (True, w - 1, r)
                        else if c = CHR ''+'' then (False, w - 1, r) else (False, w, s)
      | [] \<Rightarrow> (False, w, s))"

definition strip_prefix :: "nat \<Rightarrow> nat \<Rightarrow> string \<Rightarrow> nat \<times> string" where
  "strip_prefix base w s =
     (case s of z # x # d # r \<Rightarrow>
        if base = 16 \<and> z = CHR ''0'' \<and> (x = CHR ''x'' \<or> x = CHR ''X'') \<and> is_digit 16 d \<and> 2 < w then (w - 2, d # r) else (w, s)
      | _ \<Rightarrow> (w, s))"

definition scan_number :: "nat \<Rightarrow> nat \<Rightarrow> string \<Rightarrow> (bool \<times> nat \<times> string) option" where
  "scan_number base w s =
     (let (neg, w, s) = strip_sign w (dropWhile isspace s);
          (w, s) = strip_prefix base w s;
          ds = takeWhile (is_digit base) (take w s) in
      if ds = [] then None else Some (neg, digits_value base ds, drop (length ds) s))"

text \<open>The results of strtoull and strtoll and the text behind the number; without a number, 0 and all of it.\<close>

definition strtoull :: "nat \<Rightarrow> string \<Rightarrow> nat \<times> string" where
  "strtoull base s =
     (case scan_number base (length s) s of
        None \<Rightarrow> (0, s)
      | Some (neg, v, rest) \<Rightarrow>
          (if two64 \<le> v then two64 - 1 else if neg then u64_sub 0 v else v, rest))"

definition strtoll :: "nat \<Rightarrow> string \<Rightarrow> int \<times> string" where
  "strtoll base s =
     (case scan_number base (length s) s of
        None \<Rightarrow> (0, s)
      | Some (neg, v, rest) \<Rightarrow>
          (let n = (if neg then - int v else int v) in
           (if n < - (2 ^ 63) then - (2 ^ 63) else if 2 ^ 63 \<le> n then 2 ^ 63 - 1 else n, rest)))"

section \<open>Printed numbers are read back\<close>

lemma strip_prefix_10 [simp]: "strip_prefix 10 w s = (w, s)"
  by (simp add: strip_prefix_def split: list.splits)

lemma digit_of_char [simp]: "d < 16 \<Longrightarrow> digit_of (digit_char d) = d"
  by (simp add: digit_of_def digit_char_def Let_def)

lemma is_digit_chars: "c \<in> digit_char ` {..<10} \<Longrightarrow> is_digit 10 c"
  by (auto simp: is_digit_def)

lemma digit_char_not:
  assumes "c \<in> digit_char ` {..<10}"
  shows "\<not> isspace c" "c \<noteq> CHR ''-''" "c \<noteq> CHR ''+''"
proof -
  from assms have "48 \<le> (of_char c :: nat)" "(of_char c :: nat) < 58" by (auto simp: digit_char_def)
  then show "\<not> isspace c" "c \<noteq> CHR ''-''" "c \<noteq> CHR ''+''" by (auto simp: isspace_def)
qed

lemma zero_digit: "CHR ''0'' = digit_char 0"
  by code_simp

lemma print_pad_digits: "c \<in> set (print_pad w n) \<Longrightarrow> c \<in> digit_char ` {..<10}"
  using print_num_digits [of c n] by (auto simp: print_pad_def zero_digit)

lemma digits_value_zeros: "digits_value base (replicate k (CHR ''0'') @ ds) = digits_value base ds"
  by (induction k) (simp_all add: digits_value_def zero_digit)

lemma digits_value_print: "digits_value 10 (print_num 10 n) = n"
proof -
  have "digits_value 10 (print_num 10 n) = foldl (\<lambda>a c. a * 10 + digit_val c) 0 (print_num 10 n)"
    unfolding digits_value_def by (intro foldl_cong refl) (auto dest: print_num_digits)
  also have "\<dots> = n" by (rule print_num_value) simp_all
  finally show ?thesis .
qed

lemma length_print_num: "0 < w \<Longrightarrow> n < 10 ^ w \<Longrightarrow> length (print_num 10 n) \<le> w"
proof (induction w arbitrary: n)
  case (Suc w)
  show ?case
  proof (cases "n < 10")
    case False
    then have "0 < w" using Suc.prems by (cases w) auto
    moreover have "n div 10 < 10 ^ w" using Suc.prems(2) by (simp add: div_less_iff_less_mult mult.commute)
    ultimately show ?thesis using Suc.IH False by (simp add: print_num.simps [of 10 n])
  qed (simp add: print_num.simps [of 10 n])
qed simp

lemma length_print_pad [simp]: "0 < w \<Longrightarrow> n < 10 ^ w \<Longrightarrow> length (print_pad w n) = w"
  using length_print_num [of w n] by (simp add: print_pad_def)

lemma print_pad_nonempty [simp]: "print_pad w n \<noteq> []"
  by (simp add: print_pad_def)

lemma digits_value_pad [simp]: "digits_value 10 (print_pad w n) = n"
  by (simp add: print_pad_def digits_value_zeros digits_value_print)

text \<open>A field that holds the whole number, and a number in front of a character that is no digit.\<close>

lemma scan_digits:
  assumes "ds \<noteq> []" "set ds \<subseteq> digit_char ` {..<10}" "length ds \<le> w"
    and "w = length ds \<or> rest = [] \<or> \<not> is_digit 10 (hd rest)"
  shows "scan_number 10 w (ds @ rest) = Some (False, digits_value 10 ds, rest)"
proof -
  obtain d ds' where ds: "ds = d # ds'" using assms(1) by (cases ds) auto
  have d: "d \<in> digit_char ` {..<10}" using assms(2) ds by simp
  have "dropWhile isspace (ds @ rest) = ds @ rest" using digit_char_not(1) [OF d] by (simp add: ds)
  moreover have "strip_sign w (ds @ rest) = (False, w, ds @ rest)"
    using digit_char_not(2,3) [OF d] by (simp add: strip_sign_def ds)
  moreover have "takeWhile (is_digit 10) (take w (ds @ rest)) = ds"
  proof -
    have all: "\<forall>c \<in> set ds. is_digit 10 c" using assms(2) is_digit_chars by blast
    have "takeWhile (is_digit 10) (take w (ds @ rest)) = ds @ takeWhile (is_digit 10) (take (w - length ds) rest)"
      using assms(3) all by (simp add: takeWhile_append2)
    also have "takeWhile (is_digit 10) (take (w - length ds) rest) = []"
      using assms(4) by (cases rest; cases "w - length ds") auto
    finally show ?thesis by simp
  qed
  ultimately show ?thesis using assms(1) by (simp add: scan_number_def)
qed

lemma scan_pad:
  assumes "0 < w" "n < 10 ^ w"
  shows "scan_number 10 w (print_pad w n @ rest) = Some (False, n, rest)"
  using scan_digits [of "print_pad w n" w rest] print_pad_digits assms by (auto simp: subset_iff)

lemma strtoull_print:
  assumes "n < two64"
  shows "strtoull 10 (print_num 10 n) = (n, [])"
  using scan_digits [of "print_num 10 n" "length (print_num 10 n)" "[]"] print_num_digits assms
  by (auto simp: strtoull_def digits_value_print subset_iff)

lemma strtoll_small:
  assumes "scan_number base (length s) s = Some (False, v, rest)" "v < 2 ^ 63"
  shows "strtoll base s = (int v, rest)"
  using assms by (simp add: strtoll_def)

end
