(* ===== verification/FileTape.thy ===== *)
theory FileTape
  imports TapeOps Endian CText
begin

text \<open>
  The tape emulator of \<open>src/src/tape_drivers/generic/file/filedebug_tc.c\<close>, which keeps every
  block of the tape in a file of one directory.

  \<open>filedebug_data\<close> has the fields of \<open>struct filedebug_data\<close> that the modelled functions use, and
  three more for the directory: \<open>files\<close> maps the name of a file to its contents, \<open>io_fail\<close> says which
  system call fails on which file with an error other than ENOENT (and for \<open>Io_name\<close> that asprintf
  cannot allocate the name), \<open>io_short\<close> how many bytes a short write(2) accepts.  The seek delay
  emulation, which only adds up a statistic, is left out.
\<close>

section \<open>The state\<close>

datatype io_op = Io_name | Io_check | Io_check_close | Io_open_rd | Io_read | Io_close_rd
  | Io_open_wr | Io_write | Io_close_wr | Io_unlink

record filedebug_conf_tc =
  dummy_io :: bool
  emulate_readonly :: bool
  capacity_mb :: nat
  max_transfer_bytes :: nat

record filedebug_data =
  dirname :: string
  current_position :: tc_position
  max_block_size :: nat
  ready :: bool
  is_readonly :: bool
  is_worm :: bool
  unsupported_tape :: bool
  unsupported_format :: bool
  last_block :: "nat \<Rightarrow> nat"
  eod :: "nat \<Rightarrow> nat"
  partitions :: nat
  write_pass_prev :: nat
  write_pass :: nat
  p0_warning :: nat
  p1_warning :: nat
  p0_p_warning :: nat
  p1_p_warning :: nat
  clear_by_pc :: bool
  force_writeperm :: nat
  force_readperm :: nat
  write_counter :: nat
  read_counter :: nat
  force_errortype :: int
  device_reserved :: bool
  medium_locked :: bool
  conf :: filedebug_conf_tc
  files :: "string \<Rightarrow> byte list option"
  io_fail :: "io_op \<Rightarrow> string \<Rightarrow> bool"
  io_short :: "string \<Rightarrow> nat option"

definition MISSING_EOD :: nat where
  "MISSING_EOD = two64 - 1"

definition MAX_PARTITIONS :: nat where
  "MAX_PARTITIONS = 2"

definition THRESHOLD_FORCE_WRITE_NO_WRITE :: nat where
  "THRESHOLD_FORCE_WRITE_NO_WRITE = 20"

abbreviation cur_part :: "filedebug_data \<Rightarrow> nat" where
  "cur_part st \<equiv> pos_partition (current_position st)"

abbreviation cur_block :: "filedebug_data \<Rightarrow> nat" where
  "cur_block st \<equiv> pos_block (current_position st)"

abbreviation cur_filemarks :: "filedebug_data \<Rightarrow> nat" where
  "cur_filemarks st \<equiv> pos_filemarks (current_position st)"

definition set_cur_part :: "nat \<Rightarrow> filedebug_data \<Rightarrow> filedebug_data" where
  "set_cur_part p st = st\<lparr>current_position := (current_position st)\<lparr>pos_partition := p\<rparr>\<rparr>"

definition set_cur_block :: "nat \<Rightarrow> filedebug_data \<Rightarrow> filedebug_data" where
  "set_cur_block b st = st\<lparr>current_position := (current_position st)\<lparr>pos_block := b\<rparr>\<rparr>"

definition set_cur_filemarks :: "nat \<Rightarrow> filedebug_data \<Rightarrow> filedebug_data" where
  "set_cur_filemarks n st = st\<lparr>current_position := (current_position st)\<lparr>pos_filemarks := n\<rparr>\<rparr>"

definition set_file :: "string \<Rightarrow> byte list option \<Rightarrow> filedebug_data \<Rightarrow> filedebug_data" where
  "set_file f c st = st\<lparr>files := (files st)(f := c)\<rparr>"

definition calc_p0_cap :: "filedebug_data \<Rightarrow> nat" where
  "calc_p0_cap st = u64 (capacity_mb (conf st) * 5) div 100"

definition calc_p0_remaining :: "filedebug_data \<Rightarrow> nat" where
  "calc_p0_remaining st = u64_sub (calc_p0_cap st) (eod st 0 div 2)"

definition calc_p1_cap :: "filedebug_data \<Rightarrow> nat" where
  "calc_p1_cap st = u64_sub (capacity_mb (conf st)) (calc_p0_cap st)"

definition calc_p1_remaining :: "filedebug_data \<Rightarrow> nat" where
  "calc_p1_remaining st = u64_sub (calc_p1_cap st) (eod st 1 div 2)"

section \<open>Files of the directory\<close>

definition filedebug_make_filename :: "filedebug_data \<Rightarrow> nat \<Rightarrow> nat \<Rightarrow> char \<Rightarrow> string" where
  "filedebug_make_filename st part pos type =
     dirname st @ ''/'' @ print_num 10 part @ ''_'' @ print_num 10 pos @ ''_'' @ [type]"

definition filedebug_make_current_filename :: "filedebug_data \<Rightarrow> char \<Rightarrow> string" where
  "filedebug_make_current_filename st type =
     filedebug_make_filename st (cur_part st) (cur_block st) type"

definition filedebug_make_attrname :: "filedebug_data \<Rightarrow> nat \<Rightarrow> nat \<Rightarrow> string" where
  "filedebug_make_attrname st part ident =
     dirname st @ ''/attr_'' @ print_num 10 part @ ''_'' @ print_num 16 ident"

definition filedebug_check_file :: "filedebug_data \<Rightarrow> string \<Rightarrow> error + bool" where
  "filedebug_check_file st fname =
     (if io_fail st Io_check fname then Inl EDEV_RW_PERM
      else if files st fname = None then Inr False
      else if io_fail st Io_check_close fname then Inl EDEV_RW_PERM
      else Inr True)"

text \<open>The loop over \<open>rec_suffixes\<close> of \<open>_filedebug_remove_record\<close>.\<close>

primrec filedebug_unlink :: "char list \<Rightarrow> nat \<Rightarrow> nat \<Rightarrow> filedebug_data \<Rightarrow> (error + unit) \<times> filedebug_data" where
  "filedebug_unlink [] part blknum st = (Inr (), st)"
| "filedebug_unlink (t # ts) part blknum st =
     (let fname = filedebug_make_filename st part blknum t in
      if io_fail st Io_unlink fname then (Inl EDEV_RW_PERM, st)
      else filedebug_unlink ts part blknum (set_file fname None st))"

definition filedebug_remove_record :: "filedebug_data \<Rightarrow> nat \<Rightarrow> nat \<Rightarrow> (error + unit) \<times> filedebug_data" where
  "filedebug_remove_record st part blknum =
     (if io_fail st Io_name (filedebug_make_filename st part blknum (CHR ''.'')) then (Inl EDEV_NO_MEMORY, st)
      else filedebug_unlink ''RFE'' part blknum st)"

definition filedebug_remove_current_record :: "filedebug_data \<Rightarrow> (error + unit) \<times> filedebug_data" where
  "filedebug_remove_current_record st = filedebug_remove_record st (cur_part st) (cur_block st)"

text \<open>\<open>open(2)\<close> with O_CREAT and O_TRUNC, \<open>write(2)\<close> and \<open>close(2)\<close>: the bytes written, or \<open>None\<close>.\<close>

definition filedebug_create :: "string \<Rightarrow> byte list \<Rightarrow> filedebug_data \<Rightarrow> nat option \<times> filedebug_data" where
  "filedebug_create fname data st =
     (if io_fail st Io_open_wr fname then (None, st)
      else if io_fail st Io_write fname then (None, set_file fname (Some []) st)
      else let written = (case io_short st fname of None \<Rightarrow> length data | Some k \<Rightarrow> min k (length data));
               st = set_file fname (Some (take written data)) st in
           if io_fail st Io_close_wr fname then (None, st) else (Some written, st))"

text \<open>The loop of \<open>_filedebug_write_eod\<close> that removes the records \<open>i..eod\<close>: \<open>n\<close> of them.\<close>

primrec filedebug_remove_from :: "nat \<Rightarrow> nat \<Rightarrow> nat \<Rightarrow> filedebug_data \<Rightarrow> (error + unit) \<times> filedebug_data" where
  "filedebug_remove_from part i 0 st = (Inr (), st)"
| "filedebug_remove_from part i (Suc n) st =
     (case filedebug_remove_record st part i of
        (Inl e, st) \<Rightarrow> (Inl e, st)
      | (Inr _, st) \<Rightarrow> filedebug_remove_from part (Suc i) n st)"

definition filedebug_write_eod :: "filedebug_data \<Rightarrow> (error + unit) \<times> filedebug_data" where
  "filedebug_write_eod st =
     (let p = cur_part st;
          remove_extra_rec = (eod st p \<noteq> MISSING_EOD) in
      case filedebug_remove_current_record st of
        (Inl e, st) \<Rightarrow> (Inl e, st)
      | (Inr _, st) \<Rightarrow>
          let fname = filedebug_make_current_filename st (CHR ''E'') in
          if io_fail st Io_name fname then (Inl EDEV_NO_MEMORY, st)
          else if io_fail st Io_open_wr fname then (Inl EDEV_RW_PERM, st)
          else let st = set_file fname (Some []) st in
          if io_fail st Io_close_wr fname then (Inl EDEV_RW_PERM, st)
          else case (if remove_extra_rec
                     then filedebug_remove_from p (cur_block st + 1) (eod st p - cur_block st) st
                     else (Inr (), st)) of
              (Inl e, st) \<Rightarrow> (Inl e, st)
            | (Inr _, st) \<Rightarrow>
                (Inr (), st\<lparr>last_block := (last_block st)(p := u64_sub (cur_block st) 1),
                            eod := (eod st)(p := cur_block st)\<rparr>))"

section \<open>Medium auxiliary memory\<close>

definition filedebug_read_attribute ::
  "filedebug_data \<Rightarrow> nat \<Rightarrow> nat \<Rightarrow> byte list \<Rightarrow> (error + unit) \<times> byte list" where
  "filedebug_read_attribute st part ident buf =
     (let fname = filedebug_make_attrname st part ident in
      if io_fail st Io_name fname then (Inl EDEV_NO_MEMORY, buf)
      else if io_fail st Io_open_rd fname then (Inl EDEV_CM_PERM, buf)
      else case files st fname of
          None \<Rightarrow> (Inl EDEV_INVALID_FIELD_CDB, buf)
        | Some data \<Rightarrow>
            if io_fail st Io_read fname then (Inl EDEV_CM_PERM, buf)
            else (Inr (), take (length buf) data @ drop (length data) buf))"

function filedebug_write_attribute_from ::
  "nat \<Rightarrow> filedebug_data \<Rightarrow> nat \<Rightarrow> byte list \<Rightarrow> (error + unit) \<times> filedebug_data" where
  "filedebug_write_attribute_from i st part buf =
     (if i < length buf then
        if length buf < i + 5 then (Inl C_UNDEFINED, st)
        else let ident = ltfs_betou16 (drop i buf);
                 attr_size = ltfs_betou16 (drop (i + 3) buf);
                 fname = filedebug_make_attrname st part ident in
          if io_fail st Io_name fname then (Inl EDEV_NO_MEMORY, st)
          else if io_fail st Io_open_wr fname then (Inl EDEV_CM_PERM, st)
          else if io_fail st Io_write fname then (Inl EDEV_CM_PERM, set_file fname (Some []) st)
          else let written = (case io_short st fname of None \<Rightarrow> length buf | Some k \<Rightarrow> min k (length buf));
                   st = set_file fname (Some (take written buf)) st in
               filedebug_write_attribute_from (i + (attr_size + 5)) st part buf
      else (Inr (), st))"
  by pat_completeness auto
termination
  by (relation "measure (\<lambda>(i, _, _, buf). length buf - i)") auto

declare filedebug_write_attribute_from.simps [simp del]

definition filedebug_write_attribute ::
  "filedebug_data \<Rightarrow> nat \<Rightarrow> byte list \<Rightarrow> (error + unit) \<times> filedebug_data" where
  "filedebug_write_attribute st part buf = filedebug_write_attribute_from 0 st part buf"

text \<open>\<open>TC_MAM_PAGE_VCR\<close> is 9 and \<open>TC_MAM_PAGE_VCR_SIZE\<close> 4.\<close>

definition set_wp :: "filedebug_data \<Rightarrow> nat \<Rightarrow> (error + unit) \<times> filedebug_data" where
  "set_wp st wp =
     filedebug_write_attribute st 0 (ltfs_u16tobe 9 @ [0] @ ltfs_u16tobe 4 @ ltfs_u32tobe (u32 wp))"

definition get_wp :: "filedebug_data \<Rightarrow> (error + nat) \<times> filedebug_data" where
  "get_wp st =
     (case filedebug_read_attribute st 0 9 (replicate 9 0) of
        (Inr _, wp_data) \<Rightarrow> (Inr (ltfs_betou32 (drop 5 wp_data)), st)
      | (Inl _, _) \<Rightarrow>
          (case set_wp st 1 of (Inl e, st) \<Rightarrow> (Inl e, st) | (Inr _, st) \<Rightarrow> (Inr 0, st)))"

text \<open>The increment of the write pass of \<open>filedebug_write\<close> and \<open>filedebug_writefm\<close>.\<close>

definition filedebug_bump_write_pass :: "filedebug_data \<Rightarrow> (error + unit) \<times> filedebug_data" where
  "filedebug_bump_write_pass st =
     (if write_pass_prev st = write_pass st
      then let st = st\<lparr>write_pass := u64 (write_pass st + 1)\<rparr> in set_wp st (write_pass st)
      else (Inr (), st))"

section \<open>Reading and writing blocks\<close>

definition filedebug_test_unit_ready :: "filedebug_data \<Rightarrow> error + unit" where
  "filedebug_test_unit_ready st = (if \<not> ready st then Inl EDEV_NEED_INITIALIZE else Inr ())"

definition exceeds_max_transfer :: "filedebug_data \<Rightarrow> nat \<Rightarrow> bool" where
  "exceeds_max_transfer st count \<longleftrightarrow>
     max_transfer_bytes (conf st) \<noteq> 0 \<and> max_transfer_bytes (conf st) < count"

definition in_dummy_io :: "filedebug_data \<Rightarrow> bool" where
  "in_dummy_io st \<longleftrightarrow> dummy_io (conf st) \<and> cur_part st \<noteq> 0 \<and> 6 < cur_block st"

definition next_block :: "filedebug_data \<Rightarrow> filedebug_data" where
  "next_block st = set_cur_block (u64 (cur_block st + 1)) st"

definition next_filemark :: "filedebug_data \<Rightarrow> filedebug_data" where
  "next_filemark st = set_cur_filemarks (u64 (cur_filemarks st + 1)) (next_block st)"

text \<open>\<open>filedebug_read\<close> from the check of the record files on.\<close>

definition filedebug_read_files ::
  "filedebug_data \<Rightarrow> byte list \<Rightarrow> nat \<Rightarrow> tc_position \<Rightarrow> (error + nat) \<times> byte list \<times> tc_position \<times> filedebug_data" where
  "filedebug_read_files st buf count pos =
     (let fE = filedebug_make_current_filename st (CHR ''E'');
          fF = filedebug_make_current_filename st (CHR ''F'');
          fR = filedebug_make_current_filename st (CHR ''R'') in
      if io_fail st Io_name fE then (Inl EDEV_NO_MEMORY, buf, pos, st)
      else case filedebug_check_file st fE of
        Inl e \<Rightarrow> (Inl e, buf, pos, st)
      | Inr True \<Rightarrow> (Inl EDEV_EOD_NOT_FOUND, buf, pos, st)
      | Inr False \<Rightarrow> (case filedebug_check_file st fF of
        Inl e \<Rightarrow> (Inl e, buf, pos, st)
      | Inr True \<Rightarrow>
          let st = next_filemark st in
          (Inr 0, buf, pos\<lparr>pos_block := cur_block st, pos_filemarks := cur_filemarks st\<rparr>, st)
      | Inr False \<Rightarrow> (case filedebug_check_file st fR of
        Inl e \<Rightarrow> (Inl e, buf, pos, st)
      | Inr False \<Rightarrow> (Inl EDEV_RW_PERM, buf, pos, st)
      | Inr True \<Rightarrow>
          if io_fail st Io_open_rd fR \<or> io_fail st Io_read fR then (Inl EDEV_RW_PERM, buf, pos, st)
          else let data = take count (the (files st fR));
                   buf = data @ drop (length data) buf in
            if io_fail st Io_close_rd fR then (Inl EDEV_RW_PERM, buf, pos, st)
            else let st = next_block st in
              (Inr (length data), buf, pos\<lparr>pos_block := cur_block st\<rparr>, st))))"

definition filedebug_read ::
  "filedebug_data \<Rightarrow> byte list \<Rightarrow> nat \<Rightarrow> tc_position \<Rightarrow> bool \<Rightarrow>
   (error + nat) \<times> byte list \<times> tc_position \<times> filedebug_data" where
  "filedebug_read st buf count pos unusual_size =
     (if \<not> ready st then (Inl EDEV_NOT_READY, buf, pos, st)
      else if exceeds_max_transfer st count then (Inl EDEV_INVALID_ARG, buf, pos, st)
      else if unsupported_tape st \<or> unsupported_format st then (Inl EDEV_MEDIUM_FORMAT_ERROR, buf, pos, st)
      else
        let st = (if force_readperm st \<noteq> 0 then st\<lparr>read_counter := u64 (read_counter st + 1)\<rparr> else st) in
        if force_readperm st \<noteq> 0 \<and> force_readperm st < read_counter st
        then (Inl (if force_errortype st \<noteq> 0 then EDEV_NO_SENSE else EDEV_READ_PERM), buf, pos, st)
        else if eod st (cur_part st) = cur_block st then (Inl EDEV_EOD_DETECTED, buf, pos, st)
        else if in_dummy_io st then
          let st = next_block st in (Inr count, buf, pos\<lparr>pos_block := cur_block st\<rparr>, st)
        else filedebug_read_files st buf count pos)"

text \<open>The two warnings at the end of the write, filemark, locate and space functions.\<close>

definition set_early_warning :: "filedebug_data \<Rightarrow> tc_position \<Rightarrow> tc_position" where
  "set_early_warning st pos =
     (if (p0_warning st \<noteq> 0 \<and> cur_part st = 0 \<and> p0_warning st \<le> cur_block st) \<or>
         (p1_warning st \<noteq> 0 \<and> cur_part st = 1 \<and> p1_warning st \<le> cur_block st)
      then pos\<lparr>pos_early_warning := True\<rparr> else pos)"

definition set_programmable_early_warning :: "filedebug_data \<Rightarrow> tc_position \<Rightarrow> tc_position" where
  "set_programmable_early_warning st pos =
     (if (p0_p_warning st \<noteq> 0 \<and> cur_part st = 0 \<and> p0_p_warning st \<le> cur_block st) \<or>
         (p1_p_warning st \<noteq> 0 \<and> cur_part st = 1 \<and> p1_p_warning st \<le> cur_block st)
      then pos\<lparr>pos_programmable_early_warning := True\<rparr> else pos)"

text \<open>\<open>filedebug_write\<close> reports the programmable early warning on the very block only.\<close>

definition set_programmable_early_warning_exact :: "filedebug_data \<Rightarrow> tc_position \<Rightarrow> tc_position" where
  "set_programmable_early_warning_exact st pos =
     (if (p0_p_warning st \<noteq> 0 \<and> cur_part st = 0 \<and> p0_p_warning st = cur_block st) \<or>
         (p1_p_warning st \<noteq> 0 \<and> cur_part st = 1 \<and> p1_p_warning st = cur_block st)
      then pos\<lparr>pos_programmable_early_warning := True\<rparr> else pos)"

definition filedebug_write_record ::
  "filedebug_data \<Rightarrow> byte list \<Rightarrow> tc_position \<Rightarrow> (filedebug_data, nat) dev_res" where
  "filedebug_write_record st buf pos =
     (case filedebug_remove_current_record st of
        (Inl e, st) \<Rightarrow> (Inl e, pos, st)
      | (Inr _, st) \<Rightarrow> (case filedebug_bump_write_pass st of
        (Inl e, st) \<Rightarrow> (Inl e, pos, st)
      | (Inr _, st) \<Rightarrow>
          let fname = filedebug_make_current_filename st (CHR ''R'') in
          if io_fail st Io_name fname then (Inl EDEV_NO_MEMORY, pos, st)
          else case filedebug_create fname buf st of
            (None, st) \<Rightarrow> (Inl EDEV_RW_PERM, pos, st)
          | (Some written, st) \<Rightarrow>
              let st = next_block st;
                  pos = pos\<lparr>pos_block := cur_block st\<rparr> in
              (case filedebug_write_eod st of
                 (Inl e, st) \<Rightarrow> (Inl e, pos, st)
               | (Inr _, st) \<Rightarrow> (Inr written, pos, st))))"

definition filedebug_write ::
  "filedebug_data \<Rightarrow> byte list \<Rightarrow> tc_position \<Rightarrow> (filedebug_data, nat) dev_res" where
  "filedebug_write st buf pos =
     (let count = length buf in
      if \<not> ready st then (Inl EDEV_NOT_READY, pos, st)
      else if exceeds_max_transfer st count then (Inl EDEV_INVALID_ARG, pos, st)
      else if is_worm st \<and> eod st (pos_partition pos) \<noteq> pos_block pos
        then (Inl EDEV_WRITE_PROTECTED_WORM, pos, st)
      else if is_readonly st
        then (Inl (if emulate_readonly (conf st) then EDEV_WRITE_PROTECTED else EDEV_DATA_PROTECT), pos, st)
      else if unsupported_tape st \<or> unsupported_format st then (Inl EDEV_MEDIUM_FORMAT_ERROR, pos, st)
      else if count = 0 then (Inr 0, pos, st)
      else
        let st = (if force_writeperm st \<noteq> 0 then st\<lparr>write_counter := u64 (write_counter st + 1)\<rparr> else st) in
        if force_writeperm st \<noteq> 0 \<and> force_writeperm st < write_counter st
        then (Inl (if force_errortype st \<noteq> 0 then EDEV_NO_SENSE else EDEV_WRITE_PERM), pos, st)
        else if force_writeperm st \<noteq> 0 \<and>
          u64_sub (force_writeperm st) THRESHOLD_FORCE_WRITE_NO_WRITE < write_counter st
        then let st = next_block st in (Inr 0, pos\<lparr>pos_block := cur_block st\<rparr>, st)
        else if max_block_size st < count then (Inl EDEV_INVALID_ARG, pos, st)
        else case
          (if in_dummy_io st then
             let st = next_block st;
                 pos = pos\<lparr>pos_block := cur_block st\<rparr> in
             (Inr count, pos, st\<lparr>eod := (eod st)(cur_part st := cur_block st)\<rparr>)
           else filedebug_write_record st buf pos) of
            (Inl e, pos, st) \<Rightarrow> (Inl e, pos, st)
          | (Inr written, pos, st) \<Rightarrow>
              (Inr written, set_programmable_early_warning_exact st (set_early_warning st pos), st))"

primrec filedebug_writefm_files ::
  "nat \<Rightarrow> filedebug_data \<Rightarrow> tc_position \<Rightarrow> (filedebug_data, unit) dev_res" where
  "filedebug_writefm_files 0 st pos = (Inr (), pos, st)"
| "filedebug_writefm_files (Suc n) st pos =
     (case filedebug_remove_current_record st of
        (Inl e, st) \<Rightarrow> (Inl e, pos, st)
      | (Inr _, st) \<Rightarrow>
          let fname = filedebug_make_current_filename st (CHR ''F'') in
          if io_fail st Io_name fname then (Inl EDEV_NO_MEMORY, pos, st)
          else if io_fail st Io_open_wr fname then (Inl EDEV_RW_PERM, pos, st)
          else let st = set_file fname (Some []) st in
          if io_fail st Io_close_wr fname then (Inl EDEV_RW_PERM, pos, st)
          else let st = next_filemark st;
                   pos = pos\<lparr>pos_block := cur_block st, pos_filemarks := cur_filemarks st\<rparr> in
          (case filedebug_write_eod st of
             (Inl e, st) \<Rightarrow> (Inl e, pos, st)
           | (Inr _, st) \<Rightarrow> filedebug_writefm_files n st pos))"

primrec filedebug_writefm_dummy ::
  "nat \<Rightarrow> filedebug_data \<Rightarrow> tc_position \<Rightarrow> tc_position \<times> filedebug_data" where
  "filedebug_writefm_dummy 0 st pos = (pos, st)"
| "filedebug_writefm_dummy (Suc n) st pos =
     (let st = next_filemark st in
      filedebug_writefm_dummy n st (pos\<lparr>pos_block := cur_block st, pos_filemarks := cur_filemarks st\<rparr>))"

definition filedebug_writefm ::
  "filedebug_data \<Rightarrow> nat \<Rightarrow> tc_position \<Rightarrow> bool \<Rightarrow> (filedebug_data, unit) dev_res" where
  "filedebug_writefm st count pos immed =
     (if \<not> ready st then (Inl EDEV_NOT_READY, pos, st)
      else if count = 0 then (Inr (), pos, st)
      else case
        (if in_dummy_io st then
           let (pos, st) = filedebug_writefm_dummy count st pos in
           (Inr (), pos, st\<lparr>eod := (eod st)(cur_part st := cur_block st)\<rparr>)
         else case filedebug_bump_write_pass st of
             (Inl e, st) \<Rightarrow> (Inl e, pos, st)
           | (Inr _, st) \<Rightarrow> filedebug_writefm_files count st pos) of
          (Inl e, pos, st) \<Rightarrow> (Inl e, pos, st)
        | (Inr _, pos, st) \<Rightarrow> (Inr (), set_programmable_early_warning st (set_early_warning st pos), st))"

section \<open>Positioning\<close>

text \<open>
  The default of the two error injection thresholds and of the error type is zero.
\<close>

definition filedebug_rewind :: "filedebug_data \<Rightarrow> tc_position \<Rightarrow> (filedebug_data, unit) dev_res" where
  "filedebug_rewind st pos =
     (if \<not> ready st then (Inl EDEV_NOT_READY, pos, st)
      else if unsupported_tape st then (Inl EDEV_MEDIUM_FORMAT_ERROR, pos, st)
      else let st = (set_cur_filemarks 0 (set_cur_block 0 st))
                 \<lparr>clear_by_pc := False, force_writeperm := 0, force_readperm := 0,
                  write_counter := 0, read_counter := 0\<rparr> in
        (Inr (), pos\<lparr>pos_block := 0, pos_filemarks := 0, pos_early_warning := False,
                     pos_programmable_early_warning := False\<rparr>, st))"

text \<open>The loop that counts the filemarks before block \<open>n\<close>; a failing check counts as no filemark.\<close>

primrec filedebug_count_fm :: "filedebug_data \<Rightarrow> nat \<Rightarrow> nat \<Rightarrow> error + nat" where
  "filedebug_count_fm st part 0 = Inr 0"
| "filedebug_count_fm st part (Suc n) =
     (case filedebug_count_fm st part n of
        Inl e \<Rightarrow> Inl e
      | Inr c \<Rightarrow>
          let fname = filedebug_make_filename st part n (CHR ''F'') in
          if io_fail st Io_name fname then Inl EDEV_NO_MEMORY
          else Inr (if filedebug_check_file st fname = Inr True then u64 (c + 1) else c))"

text \<open>The end of \<open>filedebug_locate\<close> and \<open>filedebug_space\<close>: filemark count and warnings.\<close>

definition filedebug_settle ::
  "(error + unit) \<Rightarrow> filedebug_data \<Rightarrow> tc_position \<Rightarrow> (filedebug_data, unit) dev_res" where
  "filedebug_settle ret st pos =
     (case filedebug_count_fm st (cur_part st) (cur_block st) of
        Inl e \<Rightarrow> (Inl e, pos, st)
      | Inr count_fm \<Rightarrow>
          let st = set_cur_filemarks count_fm st;
              pos = pos\<lparr>pos_filemarks := count_fm\<rparr> in
          (ret, set_programmable_early_warning st (set_early_warning st pos), st))"

definition filedebug_locate ::
  "filedebug_data \<Rightarrow> tc_position \<Rightarrow> tc_position \<Rightarrow> (filedebug_data, unit) dev_res" where
  "filedebug_locate st dest pos =
     (if \<not> ready st then (Inl EDEV_NOT_READY, pos, st)
      else if unsupported_tape st \<or> unsupported_format st then (Inl EDEV_MEDIUM_FORMAT_ERROR, pos, st)
      else if MAX_PARTITIONS \<le> pos_partition dest then (Inl EDEV_INVALID_ARG, pos, st)
      else
        let st = (if cur_part st \<noteq> pos_partition dest \<and> clear_by_pc st
                  then st\<lparr>clear_by_pc := False, force_writeperm := 0, force_readperm := 0,
                          force_errortype := 0\<rparr>
                  else st);
            p = pos_partition dest;
            st = set_cur_part p st;
            st = set_cur_block
                   (if eod st p = MISSING_EOD \<and> last_block st p < pos_block dest
                    then u64 (last_block st p + 1)
                    else if eod st p < pos_block dest then eod st p
                    else pos_block dest) st;
            pos = pos\<lparr>pos_partition := cur_part st, pos_block := cur_block st\<rparr> in
        filedebug_settle (Inr ()) st pos)"

text \<open>
  The loops of \<open>_filedebug_space_fm\<close> and \<open>_filedebug_space_rec\<close>.  \<open>fuel\<close> bounds the number of
  rounds: forwards the blocks up to the end of data, backwards the blocks down to 0.
\<close>

primrec space_fm_loop ::
  "nat \<Rightarrow> filedebug_data \<Rightarrow> nat \<Rightarrow> nat \<Rightarrow> bool \<Rightarrow> (error + unit) \<times> filedebug_data" where
  "space_fm_loop 0 st fm_count count back = (Inl C_UNDEFINED, st)"
| "space_fm_loop (Suc fuel) st fm_count count back =
     (if \<not> back \<and> cur_block st = eod st (cur_part st) then (Inl EDEV_EOD_DETECTED, st)
      else if \<not> back \<and> cur_block st = u64 (last_block st (cur_part st) + 1) then (Inl EDEV_RW_PERM, st)
      else let fname = filedebug_make_current_filename st (CHR ''F'') in
        if io_fail st Io_name fname then (Inl EDEV_NO_MEMORY, st)
        else case filedebug_check_file st fname of
            Inl e \<Rightarrow> (Inl e, st)
          | Inr found \<Rightarrow>
              let fm_count = (if found then u64 (fm_count + 1) else fm_count) in
              if found \<and> fm_count = count then (Inr (), if back then st else next_block st)
              else if back \<and> cur_block st = 0 then (Inl EDEV_BOP_DETECTED, st)
              else space_fm_loop fuel
                (if back then set_cur_block (cur_block st - 1) st else next_block st) fm_count count back)"

definition space_fuel :: "filedebug_data \<Rightarrow> bool \<Rightarrow> nat" where
  "space_fuel st back = Suc (if back then cur_block st else u64_sub (eod st (cur_part st)) (cur_block st))"

definition filedebug_space_fm ::
  "filedebug_data \<Rightarrow> nat \<Rightarrow> bool \<Rightarrow> (error + unit) \<times> filedebug_data" where
  "filedebug_space_fm st count back =
     (if count = 0 then (Inr (), st)
      else let st = (if back \<and> 0 < cur_block st then set_cur_block (cur_block st - 1) st else st) in
        space_fm_loop (space_fuel st back) st 0 count back)"

primrec space_rec_loop ::
  "nat \<Rightarrow> filedebug_data \<Rightarrow> nat \<Rightarrow> nat \<Rightarrow> bool \<Rightarrow> (error + unit) \<times> filedebug_data" where
  "space_rec_loop 0 st rec_count count back = (Inl C_UNDEFINED, st)"
| "space_rec_loop (Suc fuel) st rec_count count back =
     (if \<not> back \<and> cur_block st = eod st (cur_part st) then (Inl EDEV_EOD_DETECTED, st)
      else if \<not> back \<and> cur_block st = u64 (last_block st (cur_part st) + 1) then (Inl EDEV_RW_PERM, st)
      else let fname = filedebug_make_current_filename st (CHR ''F'') in
        if io_fail st Io_name fname then (Inl EDEV_NO_MEMORY, st)
        else case filedebug_check_file st fname of
            Inl e \<Rightarrow> (Inl e, st)
          | Inr found \<Rightarrow>
              if found \<and> (\<not> back \<or> 0 < rec_count)
              then (Inl EDEV_RW_PERM, if back then st else next_block st)
              else if back \<and> cur_block st = 0 then (Inl EDEV_BOP_DETECTED, st)
              else let st = (if back then set_cur_block (cur_block st - 1) st else next_block st);
                       rec_count = u64 (rec_count + 1) in
                if rec_count = count then (Inr (), st) else space_rec_loop fuel st rec_count count back)"

definition filedebug_space_rec ::
  "filedebug_data \<Rightarrow> nat \<Rightarrow> bool \<Rightarrow> (error + unit) \<times> filedebug_data" where
  "filedebug_space_rec st count back =
     (if count = 0 then (Inr (), st) else space_rec_loop (space_fuel st back) st 0 count back)"

definition filedebug_space ::
  "filedebug_data \<Rightarrow> nat \<Rightarrow> space_type \<Rightarrow> tc_position \<Rightarrow> (filedebug_data, unit) dev_res" where
  "filedebug_space st count type pos =
     (if \<not> ready st then (Inl EDEV_NOT_READY, pos, st)
      else if unsupported_tape st \<or> unsupported_format st then (Inl EDEV_MEDIUM_FORMAT_ERROR, pos, st)
      else if type = TC_SPACE_EOD then
        let st = set_cur_block (eod st (cur_part st)) st in
        if cur_block st = MISSING_EOD then (Inl EDEV_RW_PERM, pos, st)
        else filedebug_settle (Inr ()) st (pos\<lparr>pos_block := cur_block st\<rparr>)
      else if cur_block st = MISSING_EOD then (Inl EDEV_RW_PERM, pos, st)
      else let (ret, st) =
          (case type of
             TC_SPACE_FM_F \<Rightarrow> filedebug_space_fm st count False
           | TC_SPACE_FM_B \<Rightarrow> filedebug_space_fm st count True
           | TC_SPACE_F \<Rightarrow> filedebug_space_rec st count False
           | _ \<Rightarrow> filedebug_space_rec st count True) in
        filedebug_settle ret st (pos\<lparr>pos_block := cur_block st\<rparr>))"

section \<open>Erasing, formatting and the rest of the interface\<close>

definition filedebug_erase ::
  "filedebug_data \<Rightarrow> tc_position \<Rightarrow> bool \<Rightarrow> (filedebug_data, unit) dev_res" where
  "filedebug_erase st pos long_erase =
     (if \<not> ready st then (Inl EDEV_NOT_READY, pos, st)
      else let pos = pos\<lparr>pos_block := cur_block st, pos_filemarks := cur_filemarks st\<rparr>;
               (ret, st) = filedebug_write_eod st in (ret, pos, st))"

definition filedebug_readpos :: "filedebug_data \<Rightarrow> tc_position \<Rightarrow> (filedebug_data, unit) dev_res" where
  "filedebug_readpos st pos =
     (if \<not> ready st then (Inl EDEV_NOT_READY, pos, st)
      else (Inr (), pos\<lparr>pos_partition := cur_part st, pos_block := cur_block st,
                        pos_filemarks := cur_filemarks st\<rparr>, st))"

text \<open>Both partitions are erased, the second one first; the results of the erasures are ignored.\<close>

definition filedebug_erase_all :: "filedebug_data \<Rightarrow> tc_position \<Rightarrow> filedebug_data" where
  "filedebug_erase_all st pos =
     (let (_, pos, st) = filedebug_erase (set_cur_block 0 (set_cur_part 1 st)) pos False;
          (_, pos, st) = filedebug_erase (set_cur_block 0 (set_cur_part 0 st)) pos False in st)"

definition filedebug_setcap ::
  "filedebug_data \<Rightarrow> nat \<Rightarrow> tc_position \<Rightarrow> (error + unit) \<times> filedebug_data" where
  "filedebug_setcap st proportion pos =
     (if cur_part st \<noteq> 0 \<or> cur_block st \<noteq> 0 then (Inl EDEV_ILLEGAL_REQUEST, st)
      else (Inr (), filedebug_erase_all (st\<lparr>partitions := 1\<rparr>) pos))"

definition filedebug_calc_warnings :: "filedebug_data \<Rightarrow> filedebug_data" where
  "filedebug_calc_warnings st =
     (let w0 = u32 (calc_p0_cap st * 2);
          w1 = u32 (calc_p1_cap st * 2) in
      if partitions st = 2 then
        st\<lparr>p0_warning := w0, p1_warning := w1, p0_p_warning := w0 div 2,
           p1_p_warning := u32 (w1 + two32 - w0 div 2)\<rparr>
      else st\<lparr>p0_warning := w0, p1_warning := 0, p0_p_warning := u32 (w0 * 2), p1_p_warning := 0\<rparr>)"

text \<open>
  \<open>struct tc_position pos\<close> of \<open>filedebug_format\<close> and \<open>filedebug_setcap\<close> is not initialised; the
  parameter \<open>pos\<close> is its contents.
\<close>

definition filedebug_format ::
  "tc_position \<Rightarrow> filedebug_data \<Rightarrow> format_type \<Rightarrow> (error + unit) \<times> filedebug_data" where
  "filedebug_format pos st format =
     (if cur_part st \<noteq> 0 \<or> cur_block st \<noteq> 0 then (Inl EDEV_ILLEGAL_REQUEST, st)
      else if is_worm st \<and> (eod st 0 \<noteq> 0 \<or> eod st 1 \<noteq> 0) then (Inl EDEV_WRITE_PROTECTED_WORM, st)
      else if is_readonly st
        then (Inl (if emulate_readonly (conf st) then EDEV_WRITE_PROTECTED else EDEV_DATA_PROTECT), st)
      else if format = TC_FORMAT_MAX then (Inl EDEV_INVALID_ARG, st)
      else let st = st\<lparr>partitions := (if format = TC_FORMAT_DEFAULT then 1 else 2)\<rparr> in
        (Inr (), filedebug_calc_warnings (filedebug_erase_all st pos)))"

definition filedebug_remaining_capacity ::
  "filedebug_data \<Rightarrow> tc_remaining_cap \<Rightarrow> (error + unit) \<times> tc_remaining_cap" where
  "filedebug_remaining_capacity st cap =
     (if \<not> ready st then (Inr (), cap)
      else if partitions st = 2 then
        (Inr (), \<lparr>remaining_p0 = calc_p0_remaining st, remaining_p1 = calc_p1_remaining st,
                  max_p0 = calc_p0_cap st, max_p1 = calc_p1_cap st\<rparr>)
      else (Inr (), \<lparr>remaining_p0 = 0, remaining_p1 = 0, max_p0 = capacity_mb (conf st), max_p1 = 0\<rparr>))"

definition filedebug_reserve_unit :: "filedebug_data \<Rightarrow> (error + unit) \<times> filedebug_data" where
  "filedebug_reserve_unit st =
     (if device_reserved st then (Inl EDEV_ILLEGAL_REQUEST, st)
      else (Inr (), st\<lparr>device_reserved := True\<rparr>))"

definition filedebug_release_unit :: "filedebug_data \<Rightarrow> (error + unit) \<times> filedebug_data" where
  "filedebug_release_unit st = (Inr (), st\<lparr>device_reserved := False\<rparr>)"

definition filedebug_prevent_medium_removal :: "filedebug_data \<Rightarrow> (error + unit) \<times> filedebug_data" where
  "filedebug_prevent_medium_removal st =
     (if \<not> ready st then (Inl EDEV_NOT_READY, st) else (Inr (), st\<lparr>medium_locked := True\<rparr>))"

definition filedebug_allow_medium_removal :: "filedebug_data \<Rightarrow> (error + unit) \<times> filedebug_data" where
  "filedebug_allow_medium_removal st =
     (if \<not> ready st then (Inl EDEV_NOT_READY, st) else (Inr (), st\<lparr>medium_locked := False\<rparr>))"

definition filedebug_set_compression ::
  "filedebug_data \<Rightarrow> bool \<Rightarrow> tc_position \<Rightarrow> (filedebug_data, unit) dev_res" where
  "filedebug_set_compression st enable_compression pos =
     (if \<not> ready st then (Inl EDEV_NOT_READY, pos, st)
      else (Inr (), pos\<lparr>pos_block := cur_block st, pos_filemarks := cur_filemarks st\<rparr>, st))"

datatype eod_status = EOD_GOOD | EOD_MISSING

definition filedebug_get_eod_status :: "filedebug_data \<Rightarrow> nat \<Rightarrow> eod_status" where
  "filedebug_get_eod_status st part = (if eod st part = MISSING_EOD then EOD_MISSING else EOD_GOOD)"

text \<open>
  The search for the end of data of a partition, for a directory whose dummy I/O mode is off: the
  scan over the record files and what follows it.  \<open>fuel\<close> bounds the number of blocks looked at.
\<close>

primrec search_eod_loop :: "nat \<Rightarrow> filedebug_data \<Rightarrow> (error + bool) \<times> filedebug_data" where
  "search_eod_loop 0 st = (Inl C_UNDEFINED, st)"
| "search_eod_loop (Suc fuel) st =
     (if io_fail st Io_name (filedebug_make_current_filename st (CHR ''.'')) then (Inl EDEV_NO_MEMORY, st)
      else case filedebug_check_file st (filedebug_make_current_filename st (CHR ''R'')) of
        Inl e \<Rightarrow> (Inl e, st)
      | Inr f0 \<Rightarrow> (case filedebug_check_file st (filedebug_make_current_filename st (CHR ''F'')) of
        Inl e \<Rightarrow> (Inl e, st)
      | Inr f1 \<Rightarrow> (case filedebug_check_file st (filedebug_make_current_filename st (CHR ''E'')) of
        Inl e \<Rightarrow> (Inl e, st)
      | Inr f2 \<Rightarrow>
          let st = next_block st in
          if (f0 \<or> f1) \<and> \<not> f2 then search_eod_loop fuel st else (Inr f2, st))))"

definition filedebug_search_eod :: "filedebug_data \<Rightarrow> nat \<Rightarrow> (error + unit) \<times> filedebug_data" where
  "filedebug_search_eod st part =
     (case search_eod_loop two64 (set_cur_block 0 (set_cur_part part st)) of
        (Inl e, st) \<Rightarrow> (Inl e, st)
      | (Inr f2, st) \<Rightarrow>
          let st = set_cur_block (u64_sub (cur_block st) 1) st in
          if \<not> f2 \<and> cur_block st \<noteq> 0
          then (Inr (), st\<lparr>last_block := (last_block st)(part := cur_block st),
                           eod := (eod st)(part := MISSING_EOD)\<rparr>)
          else filedebug_write_eod st)"

definition filedebug_get_worm_status :: "filedebug_data \<Rightarrow> error + bool" where
  "filedebug_get_worm_status st = Inr (is_worm st)"

definition filedebug_get_next_block_to_xfer ::
  "filedebug_data \<Rightarrow> tc_position \<Rightarrow> (error + unit) \<times> tc_position" where
  "filedebug_get_next_block_to_xfer st pos =
     (Inr (), pos\<lparr>pos_partition := cur_part st,
                  pos_block := u64_sub (cur_block st) THRESHOLD_FORCE_WRITE_NO_WRITE\<rparr>)"

definition filedebug_allow_overwrite :: "filedebug_data \<Rightarrow> tc_position \<Rightarrow> error + unit" where
  "filedebug_allow_overwrite st pos = Inr ()"

text \<open>
  The table of the backend.  \<open>ro\<close> is \<open>filedebug_is_readonly\<close>, whose answer is that of
  \<open>ibm_tape_is_mountable\<close> in the drive tables, and \<open>junk\<close> the contents of the uninitialised
  position of \<open>filedebug_format\<close>.
\<close>

definition filedebug_ops :: "(filedebug_data \<Rightarrow> bool) \<Rightarrow> tc_position \<Rightarrow> filedebug_data tape_ops" where
  "filedebug_ops ro junk = \<lparr>
     op_read = filedebug_read,
     op_write = filedebug_write,
     op_writefm = filedebug_writefm,
     op_rewind = filedebug_rewind,
     op_locate = filedebug_locate,
     op_space = filedebug_space,
     op_erase = filedebug_erase,
     op_readpos = filedebug_readpos,
     op_remaining_capacity = filedebug_remaining_capacity,
     op_is_readonly = ro,
     op_allow_overwrite = filedebug_allow_overwrite,
     op_format = filedebug_format junk,
     op_read_attribute = filedebug_read_attribute,
     op_get_worm_status = filedebug_get_worm_status,
     op_get_next_block_to_xfer = filedebug_get_next_block_to_xfer,
     op_write_attribute = filedebug_write_attribute\<rparr>"

text \<open>
  Loading.  A cartridge that is loaded is rewound, without a word of it in \<open>pos\<close>; \<open>insert_tape\<close> is the rest of
  the function, which looks for the directory of the cartridge and reads its configuration.
\<close>

definition filedebug_load ::
  "(filedebug_data \<Rightarrow> tc_position \<Rightarrow> (filedebug_data, unit) dev_res) \<Rightarrow>
   filedebug_data \<Rightarrow> tc_position \<Rightarrow> (filedebug_data, unit) dev_res" where
  "filedebug_load insert_tape st pos =
     (if ready st then
        (Inr (), pos, (set_cur_filemarks 0 (set_cur_block 0 (set_cur_part 0 st)))\<lparr>clear_by_pc := False,
           force_writeperm := 0, force_readperm := 0, write_counter := 0, read_counter := 0\<rparr>)
      else insert_tape st pos)"

definition filedebug_drive_ops ::
  "(filedebug_data \<Rightarrow> tc_position \<Rightarrow> (filedebug_data, unit) dev_res) \<Rightarrow> tc_position \<Rightarrow>
   filedebug_data drive_ops" where
  "filedebug_drive_ops insert_tape junk = \<lparr>
     op_load = filedebug_load insert_tape,
     op_setcap = (\<lambda>st proportion. filedebug_setcap st proportion junk),
     op_test_unit_ready = filedebug_test_unit_ready,
     op_set_compression = filedebug_set_compression\<rparr>"

end
