(* ===== verification/FileTapeLaws.thy ===== *)
theory FileTapeLaws
  imports FileTape
begin

text \<open>
  The file backend keeps the contract \<open>tape_backend\<close>.  The names of the block files are distinct for
  distinct blocks, so that the directory is a map from partition, block and kind of record to bytes
  (\<open>recs\<close>); \<open>fd_good\<close> is the invariant of that map and of the state beside it, and \<open>fd_tape\<close> the
  tape it stands for.
\<close>

section \<open>Names of files\<close>

lemma digit_char_plain: "c \<in> digit_char ` {..<10} \<Longrightarrow> c \<noteq> CHR ''_'' \<and> c \<noteq> CHR ''a''"
proof -
  assume "c \<in> digit_char ` {..<10}"
  then have "of_char c < (58 :: nat)" by (auto simp: digit_char_def)
  then show ?thesis by auto
qed

lemma print_num_no_sep: "CHR ''_'' \<notin> set (print_num 10 n)"
  using print_num_digits digit_char_plain by blast

lemma split_at_sep:
  assumes "x \<notin> set as" "x \<notin> set bs" "as @ x # cs = bs @ x # ds"
  shows "as = bs \<and> cs = ds"
  using assms by (induction as arbitrary: bs) (auto simp: Cons_eq_append_conv append_eq_Cons_conv)

lemma make_filename_inj [simp]:
  assumes "dirname st = dirname st'"
  shows "filedebug_make_filename st p b t = filedebug_make_filename st' p' b' t' \<longleftrightarrow> p = p' \<and> b = b' \<and> t = t'"
proof
  assume "filedebug_make_filename st p b t = filedebug_make_filename st' p' b' t'"
  then have "print_num 10 p @ CHR ''_'' # print_num 10 b @ CHR ''_'' # [t] =
      print_num 10 p' @ CHR ''_'' # print_num 10 b' @ CHR ''_'' # [t']"
    using assms by (simp add: filedebug_make_filename_def)
  then have "print_num 10 p = print_num 10 p' \<and>
      print_num 10 b @ CHR ''_'' # [t] = print_num 10 b' @ CHR ''_'' # [t']"
    using split_at_sep print_num_no_sep by metis
  then show "p = p' \<and> b = b' \<and> t = t'"
    using split_at_sep [OF print_num_no_sep print_num_no_sep, of b "[t]" b' "[t']"] by simp
qed (simp add: filedebug_make_filename_def assms)

lemma make_filename_cong [simp]:
  "filedebug_make_filename (st\<lparr>files := fs\<rparr>) = filedebug_make_filename st"
  "filedebug_make_filename (set_file f c st) = filedebug_make_filename st"
  "filedebug_make_filename (set_cur_block b st) = filedebug_make_filename st"
  "filedebug_make_filename (set_cur_part b st) = filedebug_make_filename st"
  "filedebug_make_filename (set_cur_filemarks b st) = filedebug_make_filename st"
  "filedebug_make_filename (next_block st) = filedebug_make_filename st"
  "filedebug_make_filename (next_filemark st) = filedebug_make_filename st"
  "filedebug_make_filename (st\<lparr>write_pass := n\<rparr>) = filedebug_make_filename st"
  "filedebug_make_filename (st\<lparr>last_block := g\<rparr>) = filedebug_make_filename st"
  "filedebug_make_filename (st\<lparr>eod := g\<rparr>) = filedebug_make_filename st"
  by (auto simp: filedebug_make_filename_def fun_eq_iff set_file_def set_cur_block_def set_cur_part_def
      set_cur_filemarks_def next_block_def next_filemark_def)

lemma attrname_not_filename [simp]:
  assumes "dirname st = dirname st'"
  shows "filedebug_make_attrname st part ident \<noteq> filedebug_make_filename st' p b t"
proof
  assume "filedebug_make_attrname st part ident = filedebug_make_filename st' p b t"
  then have "print_num 10 p @ ''_'' @ print_num 10 b @ ''_'' @ [t] =
      CHR ''a'' # ''ttr_'' @ print_num 10 part @ ''_'' @ print_num 16 ident"
    using assms by (simp add: filedebug_make_attrname_def filedebug_make_filename_def)
  then have "CHR ''a'' \<in> set (print_num 10 p)"
    using hd_in_set [of "print_num 10 p"] by (auto simp: append_eq_Cons_conv)
  then show False using print_num_digits digit_char_plain by blast
qed


lemma filename_not_attrname [simp]:
  "dirname st = dirname st' \<Longrightarrow> filedebug_make_filename st' p b t \<noteq> filedebug_make_attrname st part ident"
  using attrname_not_filename by metis

section \<open>The directory in working order\<close>

definition no_fail :: "filedebug_data \<Rightarrow> bool" where
  "no_fail st \<longleftrightarrow> io_fail st = (\<lambda>_ _. False) \<and> io_short st = (\<lambda>_. None)"

text \<open>The record files of a directory, by partition, block and kind.\<close>

definition recs :: "filedebug_data \<Rightarrow> nat \<Rightarrow> nat \<Rightarrow> char \<Rightarrow> byte list option" where
  "recs st p b t = files st (filedebug_make_filename st p b t)"

lemma no_fail_simps [simp]:
  "no_fail st \<Longrightarrow> io_fail st x f = False" "no_fail st \<Longrightarrow> io_short st f = None"
  by (simp_all add: no_fail_def)

lemma state_simps [simp]:
  "no_fail (st\<lparr>files := fs\<rparr>) = no_fail st" "no_fail (st\<lparr>eod := f\<rparr>) = no_fail st"
  "no_fail (st\<lparr>last_block := f\<rparr>) = no_fail st" "no_fail (st\<lparr>write_pass := n\<rparr>) = no_fail st"
  "no_fail (st\<lparr>current_position := q\<rparr>) = no_fail st"
  by (simp_all add: no_fail_def)

lemma recs_files [simp]:
  "recs (st\<lparr>files := (files st)(filedebug_make_filename st p b t := c)\<rparr>) p' b' t' =
    (if p' = p \<and> b' = b \<and> t' = t then c else recs st p' b' t')"
  by (simp add: recs_def)

lemma recs_cong [simp]:
  "recs (st\<lparr>eod := f\<rparr>) = recs st" "recs (st\<lparr>last_block := f\<rparr>) = recs st"
  "recs (st\<lparr>write_pass := n\<rparr>) = recs st" "recs (st\<lparr>current_position := q\<rparr>) = recs st"
  by (simp_all add: recs_def fun_eq_iff filedebug_make_filename_def)

text \<open>What a change of the record files alone looks like.\<close>

definition upd_recs :: "filedebug_data \<Rightarrow> (nat \<Rightarrow> nat \<Rightarrow> char \<Rightarrow> byte list option) \<Rightarrow> filedebug_data \<Rightarrow> bool" where
  "upd_recs st g st' \<longleftrightarrow> (\<exists>fs. st' = st\<lparr>files := fs\<rparr>) \<and> recs st' = g"

lemma upd_recs_trans: "upd_recs st g st' \<Longrightarrow> upd_recs st' h st'' \<Longrightarrow> upd_recs st h st''"
  by (auto simp: upd_recs_def)

lemma upd_recs_set_file:
  "upd_recs st (\<lambda>p' b' t'. if p' = p \<and> b' = b \<and> t' = t then c else recs st p' b' t')
     (set_file (filedebug_make_filename st p b t) c st)"
  by (auto simp: upd_recs_def set_file_def fun_eq_iff)

lemma upd_recs_fields:
  assumes "upd_recs st g st'"
  shows "current_position st' = current_position st" "eod st' = eod st" "last_block st' = last_block st"
    "no_fail st' = no_fail st" "filedebug_make_filename st' = filedebug_make_filename st" "recs st' = g"
  using assms by (auto simp: upd_recs_def)

definition wipe :: "nat \<Rightarrow> nat set \<Rightarrow> (nat \<Rightarrow> nat \<Rightarrow> char \<Rightarrow> byte list option) \<Rightarrow> nat \<Rightarrow> nat \<Rightarrow> char \<Rightarrow> byte list option" where
  "wipe p B g p' b' t = (if p' = p \<and> b' \<in> B \<and> t \<in> set ''RFE'' then None else g p' b' t)"

lemma remove_record_ok:
  assumes "no_fail st"
  obtains st' where "filedebug_remove_record st p b = (Inr (), st')" "upd_recs st (wipe p {b} (recs st)) st'"
proof -
  let ?st' = "set_file (filedebug_make_filename st p b CHR ''E'') None
    (set_file (filedebug_make_filename st p b CHR ''F'') None
      (set_file (filedebug_make_filename st p b CHR ''R'') None st))"
  have "filedebug_remove_record st p b = (Inr (), ?st')"
    using assms by (simp add: filedebug_remove_record_def no_fail_def set_file_def)
  moreover have "upd_recs st (wipe p {b} (recs st)) ?st'"
    by (auto simp: upd_recs_def set_file_def recs_def wipe_def fun_eq_iff)
  ultimately show thesis using that by blast
qed

lemma remove_from_ok:
  assumes "no_fail st"
  shows "\<exists>st'. filedebug_remove_from p i n st = (Inr (), st') \<and> upd_recs st (wipe p {i..<i + n} (recs st)) st'"
  using assms
proof (induction n arbitrary: st i)
  case 0
  then show ?case by (auto simp: upd_recs_def wipe_def fun_eq_iff intro: exI [of _ "files st"])
next
  case (Suc n)
  obtain st1 where st1: "filedebug_remove_record st p i = (Inr (), st1)" "upd_recs st (wipe p {i} (recs st)) st1"
    using remove_record_ok Suc.prems by blast
  note f = upd_recs_fields [OF st1(2)]
  obtain st2 where st2: "filedebug_remove_from p (Suc i) n st1 = (Inr (), st2)"
      "upd_recs st1 (wipe p {Suc i..<Suc i + n} (recs st1)) st2"
    using Suc.IH [of st1 "Suc i"] Suc.prems f(4) by auto
  have "wipe p {Suc i..<Suc i + n} (wipe p {i} (recs st)) = wipe p {i..<i + Suc n} (recs st)"
    by (auto simp: wipe_def fun_eq_iff)
  then show ?case using st1 st2 upd_recs_trans [OF st1(2) st2(2)] f(6) by auto
qed


lemma write_eod_ok:
  assumes "no_fail st"
  obtains st' fs where "filedebug_write_eod st = (Inr (), st')"
    "st' = st\<lparr>files := fs, last_block := (last_block st)(cur_part st := u64_sub (cur_block st) 1),
             eod := (eod st)(cur_part st := cur_block st)\<rparr>"
    "recs st' = (\<lambda>p b t. if p = cur_part st \<and> b = cur_block st \<and> t = CHR ''E'' then Some []
       else wipe (cur_part st) {cur_block st..(if eod st (cur_part st) = MISSING_EOD then cur_block st
         else max (cur_block st) (eod st (cur_part st)))} (recs st) p b t)"
proof -
  let ?p = "cur_part st" and ?b = "cur_block st"
  obtain st1 where st1: "filedebug_remove_record st ?p ?b = (Inr (), st1)" "upd_recs st (wipe ?p {?b} (recs st)) st1"
    using remove_record_ok assms by blast
  note f1 = upd_recs_fields [OF st1(2)]
  let ?E = "filedebug_make_filename st1 ?p ?b CHR ''E''"
  let ?st2 = "set_file ?E (Some []) st1"
  note u2 = upd_recs_set_file [of st1 ?p ?b "CHR ''E''" "Some []"]
  note f2 = upd_recs_fields [OF u2]
  let ?n = "if eod st ?p = MISSING_EOD then 0 else eod st ?p - ?b"
  obtain st3 where st3: "filedebug_remove_from ?p (?b + 1) ?n ?st2 = (Inr (), st3)"
      "upd_recs ?st2 (wipe ?p {?b + 1..<?b + 1 + ?n} (recs ?st2)) st3"
    using remove_from_ok [of ?st2] assms f1 f2 by blast
  note f3 = upd_recs_fields [OF st3(2)]
  let ?st' = "st3\<lparr>last_block := (last_block st)(?p := u64_sub ?b 1), eod := (eod st)(?p := ?b)\<rparr>"
  have nf: "no_fail st1" "no_fail ?st2" using assms(1) f1 f2 by auto
  have "filedebug_write_eod st = (Inr (), ?st')"
    using assms nf st1(1) st3(1) f1 f2 f3
    by (simp add: filedebug_write_eod_def filedebug_remove_current_record_def filedebug_make_current_filename_def
        Let_def split: if_split_asm)
  moreover obtain fs where "st3 = st\<lparr>files := fs\<rparr>"
    using upd_recs_trans [OF upd_recs_trans [OF st1(2) u2] st3(2)] by (auto simp: upd_recs_def)
  moreover have "recs ?st' = (\<lambda>p b t. if p = ?p \<and> b = ?b \<and> t = CHR ''E'' then Some []
       else wipe ?p {?b..(if eod st ?p = MISSING_EOD then ?b else max ?b (eod st ?p))} (recs st) p b t)"
    using f1(6) f2(6) f3(6) by (auto simp: wipe_def fun_eq_iff)
  ultimately show thesis using that [of ?st' fs] by simp
qed

lemma write_attribute_single:
  assumes "no_fail st" "length buf = 5 + n" "ltfs_betou16 buf = ident" "ltfs_betou16 (drop 3 buf) = n"
  shows "filedebug_write_attribute st part buf =
    (Inr (), set_file (filedebug_make_attrname st part ident) (Some buf) st)"
  using assms
  by (simp add: filedebug_write_attribute_def filedebug_write_attribute_from.simps [of 0]
      filedebug_write_attribute_from.simps [of "n + 5"] Let_def no_fail_def)

lemma bump_write_pass_ok:
  assumes "no_fail st"
  obtains st' wp fs where "filedebug_bump_write_pass st = (Inr (), st')"
    "st' = st\<lparr>write_pass := wp, files := fs\<rparr>" "recs st' = recs st"
proof (cases "write_pass_prev st = write_pass st")
  case True
  let ?st1 = "st\<lparr>write_pass := u64 (write_pass st + 1)\<rparr>"
  let ?f = "filedebug_make_attrname ?st1 0 9"
  have "set_wp ?st1 (write_pass ?st1) =
      (Inr (), set_file ?f (Some (ltfs_u16tobe 9 @ [0] @ ltfs_u16tobe 4 @ ltfs_u32tobe (u32 (write_pass ?st1)))) ?st1)"
    unfolding set_wp_def
    using assms betou16_u16tobe [of 9] betou16_u16tobe [of 4]
    by (intro write_attribute_single [where n = 4]) (simp_all add: no_fail_def)
  then obtain buf where "set_wp ?st1 (write_pass ?st1) = (Inr (), set_file ?f (Some buf) ?st1)" by blast
  moreover have "recs (set_file ?f (Some buf) ?st1) = recs st"
    by (simp add: recs_def set_file_def fun_eq_iff)
  ultimately show thesis
    using that [of "set_file ?f (Some buf) ?st1"] True
    by (simp add: filedebug_bump_write_pass_def set_file_def)
next
  case False
  then show thesis using that [where st' = st and wp = "write_pass st" and fs = "files st"] by (simp add: filedebug_bump_write_pass_def)
qed


section \<open>The tape the directory stands for\<close>

definition rec_at :: "filedebug_data \<Rightarrow> nat \<Rightarrow> nat \<Rightarrow> tape_record" where
  "rec_at st p b = (case recs st p b (CHR ''R'') of Some d \<Rightarrow> Data d | None \<Rightarrow> Filemark)"

definition fd_tape :: "filedebug_data \<Rightarrow> nat \<Rightarrow> tape_record list" where
  "fd_tape st p = map (rec_at st p) [0..<eod st p]"

text \<open>
  The files of a partition: every block before the end of data is either a record or a filemark,
  the block at the end of data is the end of data mark, and nothing follows it.
\<close>

definition fd_partition :: "filedebug_data \<Rightarrow> nat \<Rightarrow> bool" where
  "fd_partition st p \<longleftrightarrow> eod st p < MISSING_EOD \<and>
     (\<forall>b < eod st p. recs st p b (CHR ''E'') = None \<and>
        (recs st p b (CHR ''F'') = None \<longleftrightarrow> recs st p b (CHR ''R'') \<noteq> None)) \<and>
     recs st p (eod st p) (CHR ''E'') \<noteq> None \<and>
     recs st p (eod st p) (CHR ''R'') = None \<and> recs st p (eod st p) (CHR ''F'') = None \<and>
     (\<forall>b > eod st p. \<forall>t \<in> set ''RFE''. recs st p b t = None)"

definition fd_good :: "filedebug_data \<Rightarrow> bool" where
  "fd_good st \<longleftrightarrow> ready st \<and> \<not> is_readonly st \<and> \<not> is_worm st \<and> \<not> unsupported_tape st \<and>
     \<not> unsupported_format st \<and> force_readperm st = 0 \<and> force_writeperm st = 0 \<and>
     \<not> dummy_io (conf st) \<and> max_transfer_bytes (conf st) = 0 \<and> no_fail st \<and>
     cur_part st < MAX_PARTITIONS \<and> cur_block st \<le> eod st (cur_part st) \<and>
     (\<forall>p < MAX_PARTITIONS. fd_partition st p)"

definition fd_at :: "filedebug_data \<Rightarrow> nat \<times> nat" where
  "fd_at st = (cur_part st, cur_block st)"

text \<open>No warning is raised at a block.\<close>

definition fd_roomy :: "filedebug_data \<Rightarrow> nat \<Rightarrow> nat \<Rightarrow> bool" where
  "fd_roomy st p b \<longleftrightarrow>
     (p = 0 \<longrightarrow> (p0_warning st \<noteq> 0 \<longrightarrow> b < p0_warning st) \<and> (p0_p_warning st \<noteq> 0 \<longrightarrow> b < p0_p_warning st)) \<and>
     (p = 1 \<longrightarrow> (p1_warning st \<noteq> 0 \<longrightarrow> b < p1_warning st) \<and> (p1_p_warning st \<noteq> 0 \<longrightarrow> b < p1_p_warning st))"

lemma length_fd_tape [simp]: "length (fd_tape st p) = eod st p"
  by (simp add: fd_tape_def)

lemma fd_tape_nth [simp]: "b < eod st p \<Longrightarrow> fd_tape st p ! b = rec_at st p b"
  by (simp add: fd_tape_def)

text \<open>One more record at block \<open>b\<close>: what the two write functions do to the files.\<close>

definition put_rec :: "nat \<Rightarrow> nat \<Rightarrow> char \<Rightarrow> byte list \<Rightarrow> filedebug_data \<Rightarrow> nat \<Rightarrow> nat \<Rightarrow> char \<Rightarrow> byte list option" where
  "put_rec p b t d st p' b' t' =
     (if p' = p \<and> b' = b + 1 \<and> t' = CHR ''E'' then Some []
      else if p' = p \<and> b' = b \<and> t' = t then Some d
      else wipe p {b..} (recs st) p' b' t')"

lemma fd_partition_put:
  assumes "fd_partition st p" "b \<le> eod st p" "b + 1 < MISSING_EOD" "t = CHR ''R'' \<or> t = CHR ''F''"
    "recs st' = put_rec p b t d st" "eod st' p = b + 1"
  shows "fd_partition st' p"
  using assms
  by (auto simp: fd_partition_def put_rec_def wipe_def less_Suc_eq)

lemma fd_partition_other:
  assumes "fd_partition st p'" "p' \<noteq> p" "recs st' = put_rec p b t d st" "eod st' p' = eod st p'"
  shows "fd_partition st' p'"
  using assms by (simp add: fd_partition_def put_rec_def wipe_def)

lemma fd_tape_put:
  assumes "b \<le> eod st p" "t = CHR ''R'' \<or> t = CHR ''F''" "recs st' = put_rec p b t d st" "eod st' = (eod st)(p := b + 1)"
  shows "fd_tape st' = (fd_tape st)(p := take b (fd_tape st p) @ [if t = CHR ''R'' then Data d else Filemark])"
proof
  fix p'
  have "map (rec_at st' p) [0..<b] = map (rec_at st p) [0..<b]"
    using assms(3) by (simp add: rec_at_def put_rec_def wipe_def)
  moreover have "take b (fd_tape st p) = map (rec_at st p) [0..<b]"
    using assms(1) by (simp add: fd_tape_def take_map)
  moreover have "rec_at st' p b = (if t = CHR ''R'' then Data d else Filemark)"
    using assms(2,3) by (auto simp: rec_at_def put_rec_def wipe_def)
  moreover have "p' \<noteq> p \<Longrightarrow> fd_tape st' p' = fd_tape st p'"
    using assms(3,4) by (simp add: fd_tape_def rec_at_def put_rec_def wipe_def)
  ultimately show "fd_tape st' p' = ((fd_tape st)(p := take b (fd_tape st p) @ [if t = CHR ''R'' then Data d else Filemark])) p'"
    using assms(4) by (simp add: fd_tape_def)
qed


text \<open>The state after a record has been put: everything but the files and the position is kept.\<close>

definition after_put :: "filedebug_data \<Rightarrow> char \<Rightarrow> byte list \<Rightarrow> nat \<Rightarrow> filedebug_data \<Rightarrow> bool" where
  "after_put st t d fm st' \<longleftrightarrow>
     (\<exists>fs wp lb. st' = st\<lparr>files := fs, write_pass := wp, last_block := lb,
        eod := (eod st)(cur_part st := cur_block st + 1),
        current_position := (current_position st)\<lparr>pos_block := cur_block st + 1, pos_filemarks := fm\<rparr>\<rparr>) \<and>
     recs st' = put_rec (cur_part st) (cur_block st) t d st"

lemma after_put_good:
  assumes "fd_good st" "after_put st t d fm st'" "t = CHR ''R'' \<or> t = CHR ''F''" "cur_block st + 1 < MISSING_EOD"
  shows "fd_good st'" "fd_at st' = (cur_part st, cur_block st + 1)" "fd_roomy st' = fd_roomy st"
    "max_block_size st' = max_block_size st"
    "fd_tape st' = (fd_tape st)(cur_part st := take (cur_block st) (fd_tape st (cur_part st)) @
       [if t = CHR ''R'' then Data d else Filemark])"
proof -
  obtain fs wp lb where st': "st' = st\<lparr>files := fs, write_pass := wp, last_block := lb,
        eod := (eod st)(cur_part st := cur_block st + 1),
        current_position := (current_position st)\<lparr>pos_block := cur_block st + 1, pos_filemarks := fm\<rparr>\<rparr>"
      and r: "recs st' = put_rec (cur_part st) (cur_block st) t d st"
    using assms(2) unfolding after_put_def by blast
  have e: "eod st' = (eod st)(cur_part st := cur_block st + 1)" by (simp add: st')
  have le: "cur_block st \<le> eod st (cur_part st)" using assms(1) by (simp add: fd_good_def)
  have "fd_partition st' p" if "p < MAX_PARTITIONS" for p
  proof (cases "p = cur_part st")
    case True
    then show ?thesis
      using fd_partition_put [OF _ le assms(4,3) r] e assms(1) that by (auto simp: fd_good_def)
  next
    case False
    then show ?thesis
      using fd_partition_other [OF _ _ r] e assms(1) that by (auto simp: fd_good_def)
  qed
  then show "fd_good st'"
    using assms(1) by (auto simp: fd_good_def st')
  show "fd_at st' = (cur_part st, cur_block st + 1)" "fd_roomy st' = fd_roomy st"
    "max_block_size st' = max_block_size st"
    by (simp_all add: st' fd_at_def fd_roomy_def fun_eq_iff)
  show "fd_tape st' = (fd_tape st)(cur_part st := take (cur_block st) (fd_tape st (cur_part st)) @
       [if t = CHR ''R'' then Data d else Filemark])"
    by (rule fd_tape_put [OF le assms(3) r e])
qed

lemma fd_good_blocks:
  assumes "fd_good st"
  shows "eod st (cur_part st) \<noteq> MISSING_EOD" "cur_block st \<le> eod st (cur_part st)" "no_fail st"
    "MISSING_EOD \<le> eod st (cur_part st) \<Longrightarrow> False"
    "eod st (cur_part st) < b \<Longrightarrow> t \<in> set ''RFE'' \<Longrightarrow> recs st (cur_part st) b t = None"
  using assms by (auto simp: fd_good_def fd_partition_def)

text \<open>From a block file that has just been created to the end of data mark behind it.\<close>

lemma write_eod_after:
  assumes "fd_good st" "cur_block st + 1 < MISSING_EOD"
    and st1: "st1 = st\<lparr>files := fs, write_pass := wp,
      current_position := (current_position st)\<lparr>pos_block := cur_block st + 1, pos_filemarks := fm\<rparr>\<rparr>"
    and r1: "recs st1 = (\<lambda>p' b' t'. if p' = cur_part st \<and> b' = cur_block st \<and> t' = t then Some d
      else wipe (cur_part st) {cur_block st} (recs st) p' b' t')"
  obtains st' where "filedebug_write_eod st1 = (Inr (), st')" "after_put st t d fm st'"
proof -
  let ?p = "cur_part st" and ?b = "cur_block st"
  note g = fd_good_blocks [OF assms(1)]
  have "no_fail st1" using g(3) by (simp add: st1 no_fail_def)
  then obtain st' fs' where w: "filedebug_write_eod st1 = (Inr (), st')"
    "st' = st1\<lparr>files := fs', last_block := (last_block st1)(cur_part st1 := u64_sub (cur_block st1) 1),
             eod := (eod st1)(cur_part st1 := cur_block st1)\<rparr>"
    "recs st' = (\<lambda>p b t. if p = cur_part st1 \<and> b = cur_block st1 \<and> t = CHR ''E'' then Some []
       else wipe (cur_part st1) {cur_block st1..(if eod st1 (cur_part st1) = MISSING_EOD then cur_block st1
         else max (cur_block st1) (eod st1 (cur_part st1)))} (recs st1) p b t)"
    using write_eod_ok by blast
  have f: "cur_part st1 = ?p" "cur_block st1 = ?b + 1" "eod st1 = eod st" by (simp_all add: st1)
  have "recs st' p b t' = put_rec ?p ?b t d st p b t'" for p b t'
    unfolding w(3) r1 put_rec_def f using g(1,2) g(5) [of b t'] by (auto simp: wipe_def le_max_iff_disj)
  moreover have "st' = st\<lparr>files := fs', write_pass := wp, last_block := last_block st',
        eod := (eod st)(?p := ?b + 1),
        current_position := (current_position st)\<lparr>pos_block := ?b + 1, pos_filemarks := fm\<rparr>\<rparr>"
    using w(2) by (simp add: st1)
  ultimately have "after_put st t d fm st'"
    unfolding after_put_def by blast
  with w(1) show thesis using that by blast
qed


lemma make_current [simp]:
  "filedebug_make_current_filename st t = filedebug_make_filename st (cur_part st) (cur_block st) t"
  by (simp add: filedebug_make_current_filename_def)

lemma write_record_ok:
  assumes "fd_good st" "cur_block st + 1 < MISSING_EOD"
  obtains st' where "filedebug_write_record st buf pos = (Inr (length buf), pos\<lparr>pos_block := cur_block st + 1\<rparr>, st')"
    "after_put st (CHR ''R'') buf (cur_filemarks st) st'"
proof -
  let ?p = "cur_part st" and ?b = "cur_block st"
  note g = fd_good_blocks [OF assms(1)]
  obtain st1 where st1: "filedebug_remove_record st ?p ?b = (Inr (), st1)" "upd_recs st (wipe ?p {?b} (recs st)) st1"
    using remove_record_ok g(3) by blast
  note f1 = upd_recs_fields [OF st1(2)]
  obtain st2 wp fs2 where st2: "filedebug_bump_write_pass st1 = (Inr (), st2)"
      "st2 = st1\<lparr>write_pass := wp, files := fs2\<rparr>" "recs st2 = recs st1"
    using bump_write_pass_ok f1(4) g(3) by blast
  have f2: "no_fail st2" "cur_part st2 = ?p" "cur_block st2 = ?b" using st2(2) f1 g(3) by auto
  let ?st3 = "set_file (filedebug_make_filename st2 ?p ?b CHR ''R'') (Some buf) st2"
  note u3 = upd_recs_set_file [of st2 ?p ?b "CHR ''R''" "Some buf"]
  note f3 = upd_recs_fields [OF u3]
  let ?st4 = "next_block ?st3"
  have wrap: "u64 (?b + 1) = ?b + 1" using assms(2) by (simp add: MISSING_EOD_def u64_id)
  obtain fs1 where "st1 = st\<lparr>files := fs1\<rparr>" using st1(2) by (auto simp: upd_recs_def)
  then have s4: "?st4 = st\<lparr>files := files ?st3, write_pass := wp,
      current_position := (current_position st)\<lparr>pos_block := ?b + 1, pos_filemarks := cur_filemarks st\<rparr>\<rparr>"
    using st2(2) wrap by (simp add: next_block_def set_cur_block_def set_file_def)
  have "recs ?st4 = (\<lambda>p' b' t'. if p' = ?p \<and> b' = ?b \<and> t' = CHR ''R'' then Some buf
      else wipe ?p {?b} (recs st) p' b' t')"
    using f3(6) unfolding st2(3) f1(6) by (simp add: next_block_def set_cur_block_def)
  then obtain st' where st': "filedebug_write_eod ?st4 = (Inr (), st')"
      "after_put st (CHR ''R'') buf (cur_filemarks st) st'"
    using write_eod_after [OF assms s4] by blast
  have b4: "cur_block ?st4 = ?b + 1" by (subst s4) simp
  have "filedebug_write_record st buf pos = (Inr (length buf), pos\<lparr>pos_block := ?b + 1\<rparr>, st')"
    using st1(1) st2(1) st'(1) f2 b4 f3(4)
    by (simp add: filedebug_write_record_def filedebug_remove_current_record_def filedebug_create_def Let_def)
  with st'(2) show thesis using that by blast
qed


lemma writefm_files_ok:
  assumes "fd_good st" "cur_block st + n < MISSING_EOD"
  shows "\<exists>pos' st'. filedebug_writefm_files n st pos = (Inr (), pos', st') \<and>
    fd_good st' \<and> fd_at st' = (cur_part st, cur_block st + n) \<and> fd_roomy st' = fd_roomy st \<and>
    max_block_size st' = max_block_size st \<and>
    fd_tape st' = (if n = 0 then fd_tape st else
      (fd_tape st)(cur_part st := take (cur_block st) (fd_tape st (cur_part st)) @ replicate n Filemark)) \<and>
    pos_partition pos' = pos_partition pos \<and> (n \<noteq> 0 \<longrightarrow> pos_block pos' = cur_block st + n) \<and>
    pos_early_warning pos' = pos_early_warning pos \<and>
    pos_programmable_early_warning pos' = pos_programmable_early_warning pos"
  using assms
proof (induction n arbitrary: st pos)
  case 0
  then show ?case by (simp add: fd_at_def)
next
  case (Suc n)
  let ?p = "cur_part st" and ?b = "cur_block st" and ?fm = "u64 (cur_filemarks st + 1)"
  note g = fd_good_blocks [OF Suc.prems(1)]
  have lim: "?b + 1 < MISSING_EOD" using Suc.prems(2) by simp
  obtain st1 where st1: "filedebug_remove_record st ?p ?b = (Inr (), st1)" "upd_recs st (wipe ?p {?b} (recs st)) st1"
    using remove_record_ok g(3) by blast
  note f1 = upd_recs_fields [OF st1(2)]
  let ?st3 = "set_file (filedebug_make_filename st1 ?p ?b CHR ''F'') (Some []) st1"
  note u3 = upd_recs_set_file [of st1 ?p ?b "CHR ''F''" "Some []"]
  note f3 = upd_recs_fields [OF u3]
  let ?st4 = "next_filemark ?st3"
  have wrap: "u64 (?b + 1) = ?b + 1" using lim by (simp add: MISSING_EOD_def u64_id)
  obtain fs1 where "st1 = st\<lparr>files := fs1\<rparr>" using st1(2) by (auto simp: upd_recs_def)
  then have s4: "?st4 = st\<lparr>files := files ?st3, write_pass := write_pass st,
      current_position := (current_position st)\<lparr>pos_block := ?b + 1, pos_filemarks := ?fm\<rparr>\<rparr>"
    using wrap by (simp add: next_filemark_def next_block_def set_cur_filemarks_def set_cur_block_def set_file_def)
  have "recs ?st4 = (\<lambda>p' b' t'. if p' = ?p \<and> b' = ?b \<and> t' = CHR ''F'' then Some []
      else wipe ?p {?b} (recs st) p' b' t')"
    using f3(6) unfolding f1(6) by (simp add: next_filemark_def set_cur_filemarks_def next_block_def set_cur_block_def)
  then obtain st' where st': "filedebug_write_eod ?st4 = (Inr (), st')" "after_put st (CHR ''F'') [] ?fm st'"
    using write_eod_after [OF Suc.prems(1) lim s4] by blast
  note a = after_put_good [OF Suc.prems(1) st'(2) _ lim, simplified]
  let ?pos = "pos\<lparr>pos_block := ?b + 1, pos_filemarks := ?fm\<rparr>"
  have c4: "cur_block ?st4 = ?b + 1" "cur_filemarks ?st4 = ?fm" by (subst s4, simp)+
  have nf: "no_fail st1" "no_fail ?st3" using f1(4) f3(4) g(3) by simp_all
  have step: "filedebug_writefm_files (Suc n) st pos = filedebug_writefm_files n st' ?pos"
    using st1(1) st'(1) f1(1) nf c4
    by (simp add: filedebug_remove_current_record_def Let_def)
  have at': "cur_part st' = ?p" "cur_block st' = ?b + 1" using a(2) by (auto simp: fd_at_def)
  obtain pos' st'' where ih: "filedebug_writefm_files n st' ?pos = (Inr (), pos', st'')"
    "fd_good st''" "fd_at st'' = (cur_part st', cur_block st' + n)" "fd_roomy st'' = fd_roomy st'"
    "max_block_size st'' = max_block_size st'"
    "fd_tape st'' = (if n = 0 then fd_tape st' else
      (fd_tape st')(cur_part st' := take (cur_block st') (fd_tape st' (cur_part st')) @ replicate n Filemark))"
    "pos_partition pos' = pos_partition ?pos" "n \<noteq> 0 \<longrightarrow> pos_block pos' = cur_block st' + n"
    "pos_early_warning pos' = pos_early_warning ?pos"
    "pos_programmable_early_warning pos' = pos_programmable_early_warning ?pos"
    using Suc.IH [of st' ?pos] a(1) at' Suc.prems(2) by auto
  have "length (take ?b (fd_tape st ?p)) = ?b" using g(2) by simp
  then have "fd_tape st'' = (fd_tape st)(?p := take ?b (fd_tape st ?p) @ replicate (Suc n) Filemark)"
    using ih(6) a(5) at' by (auto simp: fun_eq_iff)
  moreover have "n = 0 \<Longrightarrow> pos' = ?pos" using ih(1) by simp
  ultimately show ?case using step ih a(3,4) at' by (cases n) auto
qed


section \<open>The emulator implements the contract of a tape\<close>

lemma check_file_ok [simp]: "no_fail st \<Longrightarrow> filedebug_check_file st f = Inr (files st f \<noteq> None)"
  by (simp add: filedebug_check_file_def)

lemma count_fm_ok: "no_fail st \<Longrightarrow> \<exists>c. filedebug_count_fm st p n = Inr c"
  by (induction n) (auto simp: Let_def)

lemma warnings_roomy:
  "fd_roomy st (cur_part st) (cur_block st) \<Longrightarrow> set_early_warning st pos = pos"
  "fd_roomy st (cur_part st) (cur_block st) \<Longrightarrow> set_programmable_early_warning st pos = pos"
  "fd_roomy st (cur_part st) (cur_block st) \<Longrightarrow> set_programmable_early_warning_exact st pos = pos"
  by (auto simp: fd_roomy_def set_early_warning_def set_programmable_early_warning_def
      set_programmable_early_warning_exact_def)

lemma warnings_fields [simp]:
  "pos_block (set_early_warning st pos) = pos_block pos"
  "pos_block (set_programmable_early_warning st pos) = pos_block pos"
  "pos_block (set_programmable_early_warning_exact st pos) = pos_block pos"
  "pos_partition (set_early_warning st pos) = pos_partition pos"
  "pos_partition (set_programmable_early_warning st pos) = pos_partition pos"
  "pos_partition (set_programmable_early_warning_exact st pos) = pos_partition pos"
  by (simp_all add: set_early_warning_def set_programmable_early_warning_def
      set_programmable_early_warning_exact_def)

lemma fd_good_position:
  assumes "fd_good st" "p < MAX_PARTITIONS" "b \<le> eod st p"
  shows "fd_good (st\<lparr>current_position := q\<lparr>pos_partition := p, pos_block := b\<rparr>\<rparr>)"
  using assms by (simp add: fd_good_def fd_partition_def)

lemma fd_tape_position [simp]: "fd_tape (st\<lparr>current_position := q\<rparr>) = fd_tape st"
  by (simp add: fd_tape_def rec_at_def fun_eq_iff)

lemma fd_roomy_position [simp]: "fd_roomy (st\<lparr>current_position := q\<rparr>) = fd_roomy st"
  by (simp add: fd_roomy_def fun_eq_iff)

lemma settle_ok:
  assumes "no_fail st"
  obtains c where "filedebug_settle ret st pos =
    (ret, set_programmable_early_warning (set_cur_filemarks c st) (set_early_warning (set_cur_filemarks c st)
      (pos\<lparr>pos_filemarks := c\<rparr>)), set_cur_filemarks c st)"
  using count_fm_ok [OF assms, of "cur_part st" "cur_block st"] by (auto simp: filedebug_settle_def Let_def)

text \<open>A locate is refused, or ends in \<open>filedebug_settle\<close> at the new position.\<close>

lemma locate_settles:
  assumes "filedebug_locate st dest pos = (r, pos', st')"
  obtains "pos' = pos" "st' = st"
  | st1 where "filedebug_settle (Inr ()) st1 (pos\<lparr>pos_partition := cur_part st1, pos_block := cur_block st1\<rparr>) = (r, pos', st')"
    "cur_filemarks st1 = cur_filemarks st"
proof (cases "\<not> ready st \<or> unsupported_tape st \<or> unsupported_format st \<or> MAX_PARTITIONS \<le> pos_partition dest")
  case True
  then show ?thesis using assms that(1) by (auto simp: filedebug_locate_def split: if_splits)
next
  case False
  define st0 where "st0 = (if cur_part st \<noteq> pos_partition dest \<and> clear_by_pc st
    then st\<lparr>clear_by_pc := False, force_writeperm := 0, force_readperm := 0, force_errortype := 0\<rparr> else st)"
  have fm: "cur_filemarks (set_cur_block b (set_cur_part p st0)) = cur_filemarks st" for b p
    by (simp add: st0_def set_cur_block_def set_cur_part_def)
  from False obtain b where
    "filedebug_settle (Inr ()) (set_cur_block b (set_cur_part (pos_partition dest) st0))
      (pos\<lparr>pos_partition := cur_part (set_cur_block b (set_cur_part (pos_partition dest) st0)),
           pos_block := cur_block (set_cur_block b (set_cur_part (pos_partition dest) st0))\<rparr>) = (r, pos', st')"
    using assms unfolding filedebug_locate_def Let_def st0_def [symmetric] by simp
  then show ?thesis by (rule that(2)) (rule fm)
qed

lemma fd_locate:
  assumes "fd_good st" "pos_partition dest < 2"
  shows "\<exists>pos' st'. filedebug_locate st dest pos = (Inr (), pos', st') \<and> fd_good st' \<and>
    fd_tape st' = fd_tape st \<and> fd_roomy st' = fd_roomy st \<and> max_block_size st' = max_block_size st \<and>
    fd_at st' = (pos_partition dest, min (pos_block dest) (length (fd_tape st (pos_partition dest)))) \<and>
    pos_partition pos' = pos_partition dest \<and> pos_block pos' = snd (fd_at st') \<and>
    (fd_roomy st (pos_partition dest) (snd (fd_at st')) \<longrightarrow> keeps_warnings pos pos')"
proof -
  let ?p = "pos_partition dest"
  let ?st0 = "if cur_part st \<noteq> ?p \<and> clear_by_pc st
    then st\<lparr>clear_by_pc := False, force_writeperm := 0, force_readperm := 0, force_errortype := 0\<rparr> else st"
  have "fd_partition st ?p" using assms by (simp add: fd_good_def MAX_PARTITIONS_def)
  then have e: "eod st ?p < MISSING_EOD" by (simp add: fd_partition_def)
  let ?b = "min (pos_block dest) (eod st ?p)"
  let ?st1 = "?st0\<lparr>current_position := (current_position st)\<lparr>pos_partition := ?p, pos_block := ?b\<rparr>\<rparr>"
  have g0: "fd_good ?st0" using assms(1) by (simp add: fd_good_def fd_partition_def recs_def filedebug_make_filename_def no_fail_def)
  have g1: "fd_good ?st1"
    using fd_good_position [OF g0, of ?p ?b "current_position st"] assms(2) by (simp add: MAX_PARTITIONS_def)
  obtain c where c: "filedebug_settle (Inr ()) ?st1 (pos\<lparr>pos_partition := ?p, pos_block := ?b\<rparr>) =
    (Inr (), set_programmable_early_warning (set_cur_filemarks c ?st1) (set_early_warning (set_cur_filemarks c ?st1)
      (pos\<lparr>pos_partition := ?p, pos_block := ?b, pos_filemarks := c\<rparr>)), set_cur_filemarks c ?st1)"
    using settle_ok [of ?st1 "Inr ()" "pos\<lparr>pos_partition := ?p, pos_block := ?b\<rparr>"] g1
    by (auto simp: fd_good_def)
  have "filedebug_locate st dest pos =
      filedebug_settle (Inr ()) ?st1 (pos\<lparr>pos_partition := ?p, pos_block := ?b\<rparr>)"
    using assms e
    by (cases "cur_part st \<noteq> ?p \<and> clear_by_pc st")
      (simp_all add: filedebug_locate_def fd_good_def MAX_PARTITIONS_def Let_def set_cur_part_def
        set_cur_block_def min_def)
  moreover have "fd_good (set_cur_filemarks c ?st1)"
    using g1 by (simp add: set_cur_filemarks_def fd_good_def fd_partition_def)
  moreover have "fd_tape ?st0 = fd_tape st" "fd_roomy ?st0 = fd_roomy st"
    by (auto simp: fd_tape_def rec_at_def fd_roomy_def fun_eq_iff recs_def filedebug_make_filename_def)
  moreover have "fd_tape (set_cur_filemarks c ?st1) = fd_tape ?st0" "fd_roomy (set_cur_filemarks c ?st1) = fd_roomy ?st0"
    by (simp_all add: set_cur_filemarks_def)
  ultimately show ?thesis
    using c warnings_roomy [of "set_cur_filemarks c ?st1"]
    by (auto simp: fd_at_def set_cur_filemarks_def keeps_warnings_def)
qed


lemma fd_next_block:
  assumes "fd_good st" "cur_block st < eod st (cur_part st)"
  shows "fd_good (next_block st)" "fd_at (next_block st) = (cur_part st, cur_block st + 1)"
    "fd_tape (next_block st) = fd_tape st" "fd_roomy (next_block st) = fd_roomy st"
    "max_block_size (next_block st) = max_block_size st" "cur_block (next_block st) = cur_block st + 1"
proof -
  have "cur_block st + 1 < two64"
    using assms by (auto simp: fd_good_def fd_partition_def MISSING_EOD_def)
  then have n: "next_block st = st\<lparr>current_position := (current_position st)\<lparr>pos_partition := cur_part st, pos_block := cur_block st + 1\<rparr>\<rparr>"
    by (simp add: next_block_def set_cur_block_def u64_id)
  show "fd_good (next_block st)"
    unfolding n using assms by (intro fd_good_position) (simp_all add: fd_good_def)
  show "fd_at (next_block st) = (cur_part st, cur_block st + 1)"
    "fd_tape (next_block st) = fd_tape st" "fd_roomy (next_block st) = fd_roomy st"
    "max_block_size (next_block st) = max_block_size st" "cur_block (next_block st) = cur_block st + 1"
    by (simp_all add: n fd_at_def)
qed

lemma fd_read_data:
  assumes "fd_good st" "fd_at st = (p, b)" "b < length (fd_tape st p)" "fd_tape st p ! b = Data d"
  shows "\<exists>st'. filedebug_read st buf count pos unusual =
      (Inr (min count (length d)), take count d @ drop (min count (length d)) buf, pos\<lparr>pos_block := b + 1\<rparr>, st') \<and>
    fd_good st' \<and> fd_tape st' = fd_tape st \<and> fd_roomy st' = fd_roomy st \<and> max_block_size st' = max_block_size st \<and>
    fd_at st' = (p, b + 1)"
proof -
  have pb: "cur_part st = p" "cur_block st = b" using assms(2) by (auto simp: fd_at_def)
  have lt: "b < eod st p" using assms(3) by simp
  have "fd_partition st p" using assms(1) pb by (auto simp: fd_good_def)
  then have f: "recs st p b (CHR ''R'') = Some d" "recs st p b (CHR ''F'') = None" "recs st p b (CHR ''E'') = None"
    using lt assms(4) by (auto simp: fd_partition_def rec_at_def split: option.split_asm)
  have nf: "no_fail st" using assms(1) by (simp add: fd_good_def)
  note n = fd_next_block [OF assms(1)]
  have "filedebug_read_files st buf count pos =
    (Inr (min count (length d)), take count d @ drop (min count (length d)) buf, pos\<lparr>pos_block := b + 1\<rparr>, next_block st)"
    using f nf pb lt n(6) by (simp add: filedebug_read_files_def recs_def Let_def min.commute)
  moreover have "filedebug_read st buf count pos unusual = filedebug_read_files st buf count pos"
    using assms(1) pb lt by (simp add: filedebug_read_def fd_good_def exceeds_max_transfer_def in_dummy_io_def)
  ultimately show ?thesis using n pb lt by simp
qed

lemma fd_read_fm:
  assumes "fd_good st" "fd_at st = (p, b)" "b < length (fd_tape st p)" "fd_tape st p ! b = Filemark"
  shows "\<exists>n st'. filedebug_read st buf count pos unusual = (Inr 0, buf, pos\<lparr>pos_block := b + 1, pos_filemarks := n\<rparr>, st') \<and>
    fd_good st' \<and> fd_tape st' = fd_tape st \<and> fd_roomy st' = fd_roomy st \<and> max_block_size st' = max_block_size st \<and>
    fd_at st' = (p, b + 1)"
proof -
  have pb: "cur_part st = p" "cur_block st = b" using assms(2) by (auto simp: fd_at_def)
  have lt: "b < eod st p" using assms(3) by simp
  have "fd_partition st p" using assms(1) pb by (auto simp: fd_good_def)
  then have f: "recs st p b (CHR ''R'') = None" "recs st p b (CHR ''F'') \<noteq> None" "recs st p b (CHR ''E'') = None"
    using lt assms(4) by (auto simp: fd_partition_def rec_at_def split: option.split_asm)
  have nf: "no_fail st" using assms(1) by (simp add: fd_good_def)
  note n = fd_next_block [OF assms(1)]
  let ?c = "u64 (cur_filemarks st + 1)"
  have nx: "next_filemark st = set_cur_filemarks ?c (next_block st)" by (simp add: next_filemark_def)
  have "filedebug_read_files st buf count pos =
    (Inr 0, buf, pos\<lparr>pos_block := b + 1, pos_filemarks := ?c\<rparr>, next_filemark st)"
    using f nf pb lt n(6) by (simp add: filedebug_read_files_def recs_def Let_def nx set_cur_filemarks_def)
  moreover have "filedebug_read st buf count pos unusual = filedebug_read_files st buf count pos"
    using assms(1) pb lt by (simp add: filedebug_read_def fd_good_def exceeds_max_transfer_def in_dummy_io_def)
  moreover have "fd_good (set_cur_filemarks ?c (next_block st))"
    using n(1) lt pb by (simp add: set_cur_filemarks_def fd_good_def fd_partition_def)
  ultimately show ?thesis using n pb lt by (auto simp: nx set_cur_filemarks_def fd_at_def)
qed

lemma fd_write:
  assumes "fd_good st" "fd_at st = (p, b)" "d \<noteq> []" "length d \<le> max_block_size st" "b + 1 < TAPE_BLOCK_MAX"
  shows "\<exists>pos' st'. filedebug_write st d pos = (Inr (length d), pos', st') \<and> fd_good st' \<and>
    fd_tape st' = (fd_tape st)(p := take b (fd_tape st p) @ [Data d]) \<and> fd_at st' = (p, b + 1) \<and>
    fd_roomy st' = fd_roomy st \<and> max_block_size st' = max_block_size st \<and>
    pos_partition pos' = pos_partition pos \<and> pos_block pos' = b + 1 \<and>
    (fd_roomy st p (b + 1) \<longrightarrow> keeps_warnings pos pos')"
proof -
  have pb: "cur_part st = p" "cur_block st = b" using assms(2) by (auto simp: fd_at_def)
  have lim: "cur_block st + 1 < MISSING_EOD" using assms(5) pb by (simp add: MISSING_EOD_def TAPE_BLOCK_MAX_def)
  obtain st' where st': "filedebug_write_record st d pos = (Inr (length d), pos\<lparr>pos_block := b + 1\<rparr>, st')"
      "after_put st (CHR ''R'') d (cur_filemarks st) st'"
    using write_record_ok [OF assms(1) lim] pb by metis
  note a = after_put_good [OF assms(1) st'(2) _ lim, simplified]
  have "filedebug_write st d pos = (Inr (length d),
      set_programmable_early_warning_exact st' (set_early_warning st' (pos\<lparr>pos_block := b + 1\<rparr>)), st')"
    using assms st'(1)
    by (simp add: filedebug_write_def fd_good_def exceeds_max_transfer_def in_dummy_io_def Let_def)
  then show ?thesis
    using a pb warnings_roomy [of st'] by (auto simp: keeps_warnings_def fd_at_def)
qed

lemma fd_writefm:
  assumes "fd_good st" "fd_at st = (p, b)" "0 < n" "b + n < TAPE_BLOCK_MAX"
  shows "\<exists>pos' st'. filedebug_writefm st n pos immed = (Inr (), pos', st') \<and> fd_good st' \<and>
    fd_tape st' = (fd_tape st)(p := take b (fd_tape st p) @ replicate n Filemark) \<and> fd_at st' = (p, b + n) \<and>
    fd_roomy st' = fd_roomy st \<and> max_block_size st' = max_block_size st \<and>
    pos_partition pos' = pos_partition pos \<and> pos_block pos' = b + n \<and>
    (fd_roomy st p (b + n) \<longrightarrow> keeps_warnings pos pos')"
proof -
  have pb: "cur_part st = p" "cur_block st = b" using assms(2) by (auto simp: fd_at_def)
  have nf: "no_fail st" using assms(1) by (simp add: fd_good_def)
  obtain st1 wp fs where st1: "filedebug_bump_write_pass st = (Inr (), st1)"
      "st1 = st\<lparr>write_pass := wp, files := fs\<rparr>" "recs st1 = recs st"
    using bump_write_pass_ok [OF nf] by blast
  have g1: "fd_good st1" using assms(1) st1(3) by (simp add: st1(2) fd_good_def fd_partition_def)
  have f1: "cur_part st1 = p" "cur_block st1 = b" "fd_tape st1 = fd_tape st" "fd_roomy st1 = fd_roomy st"
      "max_block_size st1 = max_block_size st"
    using pb st1(3) by (auto simp: st1(2) fd_tape_def rec_at_def fd_roomy_def fun_eq_iff)
  have "cur_block st1 + n < MISSING_EOD" using assms(4) f1 by (simp add: MISSING_EOD_def TAPE_BLOCK_MAX_def)
  from writefm_files_ok [OF g1 this, of pos] obtain pos' st' where
    st': "filedebug_writefm_files n st1 pos = (Inr (), pos', st')" "fd_good st'" "fd_at st' = (p, b + n)"
      "fd_roomy st' = fd_roomy st" "max_block_size st' = max_block_size st"
      "fd_tape st' = (fd_tape st)(p := take b (fd_tape st p) @ replicate n Filemark)"
      "pos_partition pos' = pos_partition pos" "pos_block pos' = b + n" "keeps_warnings pos pos'"
    using assms(3) f1 by (auto simp: keeps_warnings_def)
  have "filedebug_writefm st n pos immed =
      (Inr (), set_programmable_early_warning st' (set_early_warning st' pos'), st')"
    using assms st1(1) st'(1) by (simp add: filedebug_writefm_def fd_good_def in_dummy_io_def)
  then show ?thesis
    using st' warnings_roomy [of st'] by (auto simp: keeps_warnings_def fd_at_def)
qed

lemma fd_at_law:
  "fd_good st \<Longrightarrow> fd_at st = (p, b) \<Longrightarrow> p < 2 \<and> b \<le> length (fd_tape st p) \<and> b < TAPE_BLOCK_MAX"
  by (auto simp: fd_good_def fd_at_def MAX_PARTITIONS_def fd_partition_def MISSING_EOD_def TAPE_BLOCK_MAX_def
      intro: le_less_trans)

lemma fd_read_eod:
  "fd_good st \<Longrightarrow> fd_at st = (p, b) \<Longrightarrow> b = length (fd_tape st p) \<Longrightarrow>
   filedebug_read st buf count pos unusual = (Inl EDEV_EOD_DETECTED, buf, pos, st)"
  by (auto simp: filedebug_read_def fd_good_def exceeds_max_transfer_def fd_at_def)

lemma fd_writefm_0: "fd_good st \<Longrightarrow> filedebug_writefm st 0 pos immed = (Inr (), pos, st)"
  by (simp add: filedebug_writefm_def fd_good_def)

lemma filedebug_ops_sel:
  "op_read (filedebug_ops ro junk) = filedebug_read"
  "op_write (filedebug_ops ro junk) = filedebug_write"
  "op_writefm (filedebug_ops ro junk) = filedebug_writefm"
  "op_locate (filedebug_ops ro junk) = filedebug_locate"
  "op_read_attribute (filedebug_ops ro junk) = filedebug_read_attribute"
  "op_write_attribute (filedebug_ops ro junk) = filedebug_write_attribute"
  by (simp_all add: filedebug_ops_def)

lemmas filedebug_laws = fd_at_law fd_locate fd_read_data fd_read_fm fd_read_eod fd_write fd_writefm fd_writefm_0

theorem filedebug_backend: "tape_backend (filedebug_ops ro junk) fd_good fd_tape fd_at max_block_size fd_roomy"
  by (unfold_locales; (unfold filedebug_ops_sel)?; rule filedebug_laws; assumption)

end
