(* ===== verification/TapeModel.thy ===== *)
theory TapeModel
  imports TapeOps
begin

text \<open>
  The abstract tape: two lists of records and a head, with the four commands the device layer is
  built on.  A backend that keeps the contract \<open>tape_backend\<close> answers every sequence of commands like
  the abstract tape does.
\<close>

section \<open>Specification\<close>

type_synonym tape = "(nat \<Rightarrow> tape_record list) \<times> nat \<times> nat"

datatype tape_cmd =
    Cmd_locate nat nat
  | Cmd_read nat
  | Cmd_write "byte list"
  | Cmd_filemarks nat

datatype tape_answer =
    Ans_at nat nat
  | Ans_data "byte list"
  | Ans_written nat
  | Ans_done
  | Ans_error error

fun tape_do :: "tape_cmd \<Rightarrow> tape \<Rightarrow> tape_answer \<times> tape" where
  "tape_do (Cmd_locate p' b') (T, p, b) =
     (let b'' = min b' (length (T p')) in (Ans_at p' b'', T, p', b''))"
| "tape_do (Cmd_read n) (T, p, b) =
     (if b = length (T p) then (Ans_error EDEV_EOD_DETECTED, T, p, b)
      else (case T p ! b of Data d \<Rightarrow> Ans_data (take n d) | Filemark \<Rightarrow> Ans_data [], T, p, b + 1))"
| "tape_do (Cmd_write d) (T, p, b) =
     (Ans_written (length d), T(p := take b (T p) @ [Data d]), p, b + 1)"
| "tape_do (Cmd_filemarks n) (T, p, b) =
     (Ans_done, if n = 0 then T else T(p := take b (T p) @ replicate n Filemark), p, b + n)"

text \<open>The commands the contract is about: two partitions, blocks of a legal size, room for block numbers.\<close>

fun cmd_legal :: "nat \<Rightarrow> tape_cmd \<Rightarrow> tape \<Rightarrow> bool" where
  "cmd_legal lim (Cmd_locate p' b') t \<longleftrightarrow> p' < 2"
| "cmd_legal lim (Cmd_read n) t \<longleftrightarrow> True"
| "cmd_legal lim (Cmd_write d) (T, p, b) \<longleftrightarrow> d \<noteq> [] \<and> length d \<le> lim \<and> b + 1 < TAPE_BLOCK_MAX"
| "cmd_legal lim (Cmd_filemarks n) (T, p, b) \<longleftrightarrow> b + n < TAPE_BLOCK_MAX"

primrec tape_cmds :: "tape_cmd list \<Rightarrow> tape \<Rightarrow> tape_answer list \<times> tape" where
  "tape_cmds [] t = ([], t)"
| "tape_cmds (c # cs) t =
     (let (a, t) = tape_do c t; (as, t) = tape_cmds cs t in (a # as, t))"

primrec cmds_legal :: "nat \<Rightarrow> tape_cmd list \<Rightarrow> tape \<Rightarrow> bool" where
  "cmds_legal lim [] t \<longleftrightarrow> True"
| "cmds_legal lim (c # cs) t \<longleftrightarrow> cmd_legal lim c t \<and> cmds_legal lim cs (snd (tape_do c t))"

section \<open>The same commands on a backend\<close>

fun backend_cmd :: "'s tape_ops \<Rightarrow> tape_cmd \<Rightarrow> tc_position \<times> 's \<Rightarrow> tape_answer \<times> tc_position \<times> 's" where
  "backend_cmd ops (Cmd_locate p' b') (pos, s) =
     (let (ret, pos, s) = op_locate ops s (pos\<lparr>pos_partition := p', pos_block := b'\<rparr>) pos in
      (case ret of Inl e \<Rightarrow> Ans_error e | Inr _ \<Rightarrow> Ans_at (pos_partition pos) (pos_block pos), pos, s))"
| "backend_cmd ops (Cmd_read n) (pos, s) =
     (let (ret, buf, pos, s) = op_read ops s (replicate n 0) n pos False in
      (case ret of Inl e \<Rightarrow> Ans_error e | Inr k \<Rightarrow> Ans_data (take k buf), pos, s))"
| "backend_cmd ops (Cmd_write d) (pos, s) =
     (let (ret, pos, s) = op_write ops s d pos in
      (case ret of Inl e \<Rightarrow> Ans_error e | Inr k \<Rightarrow> Ans_written k, pos, s))"
| "backend_cmd ops (Cmd_filemarks n) (pos, s) =
     (let (ret, pos, s) = op_writefm ops s n pos False in
      (case ret of Inl e \<Rightarrow> Ans_error e | Inr _ \<Rightarrow> Ans_done, pos, s))"

primrec backend_cmds ::
  "'s tape_ops \<Rightarrow> tape_cmd list \<Rightarrow> tc_position \<times> 's \<Rightarrow> tape_answer list \<times> tc_position \<times> 's" where
  "backend_cmds ops [] ps = ([], ps)"
| "backend_cmds ops (c # cs) ps =
     (let (a, ps) = backend_cmd ops c ps; (as, ps) = backend_cmds ops cs ps in (a # as, ps))"

section \<open>Refinement\<close>

context tape_backend
begin

definition stands_for :: "'s \<Rightarrow> tape \<Rightarrow> bool" where
  "stands_for s t \<longleftrightarrow> good s \<and> t = (tape_of s, at s)"

lemma cmd_simulates:
  assumes "stands_for s t" "cmd_legal (limit s) c t"
  shows "\<exists>pos' s'. backend_cmd ops c (pos, s) = (fst (tape_do c t), pos', s') \<and>
    stands_for s' (snd (tape_do c t)) \<and> limit s' = limit s"
proof -
  obtain p b where ab: "at s = (p, b)" and t: "t = (tape_of s, p, b)" and g: "good s"
    using assms(1) by (metis stands_for_def prod.exhaust)
  note lim = at_partition [OF g ab]
  show ?thesis
  proof (cases c)
    case (Cmd_locate p' b')
    then show ?thesis
      using locate_law [OF g, of "pos\<lparr>pos_partition := p', pos_block := b'\<rparr>" pos] assms(2) t
      by (fastforce simp: stands_for_def Let_def)
  next
    case (Cmd_read n)
    consider "b = length (tape_of s p)" | d where "b < length (tape_of s p)" "tape_of s p ! b = Data d"
      | "b < length (tape_of s p)" "tape_of s p ! b = Filemark"
      using lim by (metis tape_record.exhaust le_neq_implies_less)
    then show ?thesis
    proof cases
      case 1
      then show ?thesis
        using Cmd_read read_eod_law [OF g ab 1] t g ab by (auto simp: stands_for_def)
    next
      case 2
      obtain s' where "op_read ops s (replicate n 0) n pos False = (Inr (min n (length d)),
          take n d @ drop (min n (length d)) (replicate n 0), pos\<lparr>pos_block := b + 1\<rparr>, s')"
        "good s'" "tape_of s' = tape_of s" "limit s' = limit s" "at s' = (p, b + 1)"
        using read_data_law [OF g ab 2] by blast
      moreover have "take (min n (length d)) (take n d @ xs) = take n d" for xs by (simp add: min_def)
      ultimately show ?thesis using 2 Cmd_read t by (simp add: stands_for_def)
    next
      case 3
      then show ?thesis
        using Cmd_read read_fm_law [OF g ab 3, of "replicate n 0" n pos False] t
        by (fastforce simp: stands_for_def)
    qed
  next
    case (Cmd_write d)
    then have "d \<noteq> []" "length d \<le> limit s" "b + 1 < TAPE_BLOCK_MAX" using assms(2) t by auto
    from write_law [OF g ab this, of pos] show ?thesis
      using Cmd_write t by (fastforce simp: stands_for_def)
  next
    case (Cmd_filemarks n)
    then have "b + n < TAPE_BLOCK_MAX" using assms(2) t by auto
    then show ?thesis
      using Cmd_filemarks t g ab writefm_0_law [OF g] writefm_law [OF g ab, of n pos False]
      by (cases "n = 0") (fastforce simp: stands_for_def)+
  qed
qed

lemma cmds_simulate:
  assumes "stands_for s t" "cmds_legal (limit s) cs t"
  shows "\<exists>pos' s'. backend_cmds ops cs (pos, s) = (fst (tape_cmds cs t), pos', s') \<and>
    stands_for s' (snd (tape_cmds cs t))"
  using assms
proof (induction cs arbitrary: pos s t)
  case Nil
  then show ?case by simp
next
  case (Cons c cs)
  obtain pos1 s1 where 1: "backend_cmd ops c (pos, s) = (fst (tape_do c t), pos1, s1)"
    "stands_for s1 (snd (tape_do c t))" "limit s1 = limit s"
    using cmd_simulates [OF Cons.prems(1), of c pos] Cons.prems(2) by auto
  with Cons.IH [OF 1(2), of pos1] Cons.prems(2) show ?case
    by (auto simp: case_prod_unfold Let_def)
qed

end

end
