(* ===== verification/FileVolume.thy ===== *)
theory FileVolume
  imports FileContents FileTapeLaws TapeModel
begin

text \<open>
  Files on a volume of the file backend: the results of \<open>FileContents\<close> for the interpretation of the
  backend contract by \<open>filedebug_tc.c\<close>, from \<open>ltfs_fsraw_write\<close> and \<open>ltfs_fsraw_read\<close> down to the
  block files in the directory.
\<close>

interpretation filedebug: tape_backend "filedebug_ops ro junk" fd_good fd_tape fd_at max_block_size fd_roomy
  by (rule filedebug_backend)

section \<open>Concrete states\<close>

definition fd_empty :: filedebug_data where
  "fd_empty = \<lparr>dirname = ''tape'',
     current_position = \<lparr>pos_block = 0, pos_filemarks = 0, pos_partition = 0, pos_early_warning = False,
       pos_programmable_early_warning = False\<rparr>,
     max_block_size = 1048576, ready = True, is_readonly = False, is_worm = False, unsupported_tape = False,
     unsupported_format = False, last_block = (\<lambda>_. 0), eod = (\<lambda>_. 0), partitions = 2, write_pass_prev = 0,
     write_pass = 0, p0_warning = 0, p1_warning = 0, p0_p_warning = 0, p1_p_warning = 0, clear_by_pc = False,
     force_writeperm = 0, force_readperm = 0, write_counter = 0, read_counter = 0, force_errortype = 0,
     device_reserved = False, medium_locked = False,
     conf = \<lparr>dummy_io = False, emulate_readonly = False, capacity_mb = 3072, max_transfer_bytes = 0\<rparr>,
     files = (\<lambda>_. None), io_fail = (\<lambda>_ _. False), io_short = (\<lambda>_. None)\<rparr>"

text \<open>A formatted tape without data: the end of data marks of the two partitions.\<close>

definition fd_blank :: filedebug_data where
  "fd_blank = fd_empty\<lparr>files := (\<lambda>_. None)(filedebug_make_filename fd_empty 0 0 (CHR ''E'') := Some [],
     filedebug_make_filename fd_empty 1 0 (CHR ''E'') := Some [])\<rparr>"

lemma recs_blank: "recs fd_blank p b t = (if p < 2 \<and> b = 0 \<and> t = CHR ''E'' then Some [] else None)"
  by (auto simp: recs_def fd_blank_def fd_empty_def less_2_cases_iff)

lemma fd_blank_simps [simp]:
  "eod fd_blank = (\<lambda>_. 0)" "max_block_size fd_blank = 1048576" "fd_at fd_blank = (0, 0)" "fd_tape fd_blank p = []"
  "fd_roomy fd_blank = (\<lambda>_ _. True)"
  by (simp_all add: fd_blank_def fd_empty_def fd_at_def fd_tape_def fd_roomy_def fun_eq_iff)

lemma fd_good_blank: "fd_good fd_blank"
proof -
  have "fd_partition fd_blank p" if "p < 2" for p
    using that by (auto simp: fd_partition_def recs_blank MISSING_EOD_def two64_def)
  then show ?thesis
    by (auto simp: fd_good_def MAX_PARTITIONS_def no_fail_def) (simp_all add: fd_blank_def fd_empty_def)
qed

definition blank_device :: "filedebug_data device_data" where
  "blank_device = \<lparr>position = seek_pos 0 0, append_pos = (\<lambda>_. 0), dev_max_block_size = 1048576,
     partition_space = (\<lambda>_. PART_WRITABLE), write_protected = 0, write_error = False, medium_modified = False,
     fence = False, append_only_mode = False, previous_exist = (0, 0),
     capacity = \<lparr>remaining_p0 = 0, remaining_p1 = 0, max_p0 = 0, max_p1 = 0\<rparr>, capacity_time = (0, 0),
     capacity_written = 0, capacity_valid = False, backend_data = fd_blank\<rparr>"

definition blank_volume :: "(filedebug_data, unit) ltfs_volume" where
  "blank_volume = \<lparr>device = blank_device, blocksize = 4, partid_ip = CHR ''a'', partid_dp = CHR ''b'',
     part_num2id = (\<lambda>n. if n = 0 then CHR ''a'' else CHR ''b''), ip_index_file_end = True, dp_index_file_end = True,
     first_locate = (0, 0), vol_last_block = None, last_pos_partition = CHR 0x00, last_pos_block = 0, last_size = 0,
     reval = None, index = \<lparr>idx_dirty = False, idx_inc_dirty = False, idx_atime_dirty = False, use_atime = False,
       idx_version = 0, write_version = 0, selfptr_partition = CHR ''a''\<rparr>, others = ()\<rparr>"

definition empty_file :: dentry where
  "empty_file = \<lparr>d_size = 0, d_realsize = 0, extentlist = [], modify_time = (0, 0), change_time = (0, 0),
     access_time = (0, 0), extents_dirty = False, d_dirty = False, has_parent = True\<rparr>"

abbreviation fd_ops :: "filedebug_data tape_ops" where
  "fd_ops \<equiv> filedebug_ops (\<lambda>_. False) (seek_pos 0 0)"

section \<open>Volumes of the file backend\<close>

abbreviation fd_readable :: "(nat \<Rightarrow> tape_record list) \<Rightarrow> (filedebug_data, 'o) ltfs_volume \<Rightarrow> bool" where
  "fd_readable \<equiv> readable_volume fd_good fd_tape fd_at"

text \<open>
  There is room for the buffer at the end of the data partition, no index has to be written before,
  and the block in the cache is not one that is written over.
\<close>

definition fd_room :: "(nat \<Rightarrow> tape_record list) \<Rightarrow> byte list \<Rightarrow> (filedebug_data, 'o) ltfs_volume \<Rightarrow> bool" where
  "fd_room T buf vol \<longleftrightarrow>
     (let p = ltfs_part_id2num (partid_dp vol) vol; b = append_block T (device vol) p;
          n = length (chunks (blocksize vol) buf) in
      p < 2 \<and> partid_ip vol \<noteq> partid_dp vol \<and> ip_index_file_end vol \<and> append_pos (device vol) p \<le> length (T p) \<and>
      blocksize vol \<le> max_block_size (backend_data (device vol)) \<and> blocksize vol \<le> dev_max_block_size (device vol) \<and>
      b + n < TAPE_BLOCK_MAX \<and> (\<forall>j \<le> n. fd_roomy (backend_data (device vol)) p (b + j)) \<and>
      (ltfs_part_id2num (last_pos_partition vol) vol = p \<longrightarrow> last_pos_block vol < b))"

text \<open>The blocks of a file that the next write to the data partition leaves alone.\<close>

definition fd_kept :: "(nat \<Rightarrow> tape_record list) \<Rightarrow> (filedebug_data, 'o) ltfs_volume \<Rightarrow> dentry \<Rightarrow> bool" where
  "fd_kept T vol d \<longleftrightarrow>
     (let num = (\<lambda>c. ltfs_part_id2num c vol); p = num (partid_dp vol) in
      file_ok (blocksize vol) d \<and> backed T (blocksize vol) num (extentlist d) \<and>
      below (blocksize vol) num p (append_block T (device vol) p) (extentlist d))"

abbreviation vol_contents :: "(nat \<Rightarrow> tape_record list) \<Rightarrow> ('s, 'o) ltfs_volume \<Rightarrow> dentry \<Rightarrow> byte list" where
  "vol_contents T vol d \<equiv> file_contents T (blocksize vol) (\<lambda>c. ltfs_part_id2num c vol) d"

text \<open>The tape after a buffer has been appended to the data partition.\<close>

definition appended ::
  "(nat \<Rightarrow> tape_record list) \<Rightarrow> byte list \<Rightarrow> ('s, 'o) ltfs_volume \<Rightarrow> nat \<Rightarrow> tape_record list" where
  "appended T buf vol =
     (let p = ltfs_part_id2num (partid_dp vol) vol in
      T(p := take (append_block T (device vol) p) (T p) @ map Data (chunks (blocksize vol) buf)))"

lemma fd_write_ok:
  fixes vol :: "(filedebug_data, 'o) ltfs_volume"
  assumes "fd_readable T vol" "writable_volume (filedebug_ops ro junk) vol" "fd_room T buf vol" "journal_only jm"
    "fd_kept T vol d" "buf \<noteq> []" "offset + length buf < max_off"
  shows "\<exists>d' vol'. ltfs_fsraw_write (Suc n) (filedebug_ops ro junk) wi rv wv jm True True True clock d buf offset
      (partid_dp vol) ut vol = (Inr (), d', vol') \<and> file_ok (blocksize vol) d' \<and>
    backed (appended T buf vol) (blocksize vol) (\<lambda>c. ltfs_part_id2num c vol) (extentlist d') \<and>
    vol_contents (appended T buf vol) vol d' = overlay (vol_contents T vol d) offset buf \<and>
    fd_readable (appended T buf vol) vol' \<and> blocksize vol' = blocksize vol \<and>
    (\<lambda>c. ltfs_part_id2num c vol') = (\<lambda>c. ltfs_part_id2num c vol)"
proof -
  have "ltfs_write_index_conditional wi (if partid_dp vol = partid_ip vol then partid_dp vol else partid_ip vol) vol = (Inr (), vol)"
    using assms(3) by (auto simp: ltfs_write_index_conditional_def fd_room_def Let_def)
  then show ?thesis
    using assms unfolding fd_room_def fd_kept_def Let_def
    by (intro filedebug.fsraw_write_ok) (simp_all add: appended_def Let_def)
qed

text \<open>The blank volume is in order, and six bytes can be written to it.\<close>

lemma blank_parts [simp]:
  "ltfs_part_id2num (CHR ''b'') blank_volume = 1" "ltfs_part_id2num (CHR 0x00) blank_volume = two32 - 1"
  "partid_dp blank_volume = CHR ''b''" "blocksize blank_volume = 4" "device blank_volume = blank_device"
  by (simp_all add: blank_volume_def ltfs_part_id2num_def)

lemma blank_tape: "fd_tape fd_blank = (\<lambda>_. [])"
  by (rule ext) simp

lemma blank_readable: "fd_readable (\<lambda>_. []) blank_volume"
proof -
  have "last_pos_partition blank_volume = CHR 0x00" by (simp add: blank_volume_def)
  then have "cache_ok (\<lambda>_. []) blank_volume" by (simp add: cache_ok_def two32_def)
  then show ?thesis
    using fd_good_blank blank_tape
    by (simp add: readable_volume_def synced_def two32_def) (simp add: blank_volume_def blank_device_def)
qed

lemma blank_writable: "writable_volume (filedebug_ops (\<lambda>_. False) junk) blank_volume"
  by (simp add: writable_volume_def quiet_def filedebug_ops_def) (simp add: blank_volume_def blank_device_def)

lemma chunks_example: "chunks 4 [1, 2, 3, 4, 5, 6 :: byte] = [[1, 2, 3, 4], [5, 6]]"
  by (simp add: chunks_step)

lemma blank_room: "fd_room (\<lambda>_. []) [1, 2, 3, 4, 5, 6] blank_volume"
  by (simp add: fd_room_def append_block_def chunks_example Let_def)
    (simp add: blank_volume_def blank_device_def ltfs_part_id2num_def TAPE_BLOCK_MAX_def two64_def two32_def)

lemma blank_kept: "fd_kept (\<lambda>_. []) blank_volume empty_file"
  by (simp add: fd_kept_def file_ok_def wf_extents_def backed_def below_def empty_file_def max_off_def)

lemma blank_contents: "file_contents T bs num empty_file = []"
  by (simp add: file_contents_def empty_file_def)

lemma no_journal: "journal_only (\<lambda>_ v. v)"
  unfolding journal_only_def by (metis (mono_tags, lifting) ltfs_volume.surjective ltfs_volume.update_convs(15))

lemma overlay_example: "overlay [] 3 [1, 2, 3, 4, 5, 6 :: byte] = [0, 0, 0, 1, 2, 3, 4, 5, 6]"
proof -
  have "replicate 3 0 = [0, 0, 0 :: byte]" by (simp add: numeral_3_eq_3)
  then show ?thesis by (simp add: overlay_def)
qed

declare ltfs_fsraw_write.simps [simp del] ltfs_fsraw_read.simps [simp del]

lemmas blank_facts = blank_readable blank_writable blank_room no_journal blank_kept

section \<open>Extent lists on the blank volume\<close>

definition example_file :: dentry where
  "example_file = empty_file\<lparr>d_size := 20, d_realsize := 20, extentlist :=
     [\<lparr>ext_block = 5, ext_partition = CHR ''b'', byteoffset = 0, bytecount = 20, fileoffset = 0\<rparr>]\<rparr>"

abbreviation example_extent :: extent_info where
  "example_extent \<equiv> \<lparr>ext_block = 30, ext_partition = CHR ''b'', byteoffset = 0, bytecount = 6, fileoffset = 7\<rparr>"

lemma example_file_ok: "file_ok 4 example_file" "ext_ok 4 example_extent"
  by (simp_all add: file_ok_def example_file_def wf_extents_def ext_ok_def max_off_def two32_def two64_def)

lemma example_add:
  "ltfs_fsraw_add_extent fd_ops (\<lambda>_ v. v) True split_ok (7, 0) example_file example_extent True blank_volume =
     fsraw_add_extent_unlocked (\<lambda>_ v. v) True split_ok (7, 0) example_file example_extent True blank_volume"
  by (simp add: ltfs_fsraw_add_extent_def ltfs_get_partition_readonly_def tape_read_only_def filedebug_ops_def
      ltfs_get_volume_lock_def blank_volume_def blank_device_def ltfs_part_id2num_def)

theorem add_extent_overlay_witness:
  "\<exists>d' vol'. ltfs_fsraw_add_extent fd_ops (\<lambda>_ v. v) True True (7, 0) example_file example_extent True blank_volume =
      (Inr (), d', vol') \<and> d_size d' = 20 \<and> byte_loc 4 (extentlist d') 7 = Some (CHR ''b'', 120) \<and>
      byte_loc 4 (extentlist d') 6 = Some (CHR ''b'', 26) \<and> byte_loc 4 (extentlist d') 13 = Some (CHR ''b'', 33)"
proof -
  obtain d' idx x where run: "ltfs_fsraw_add_extent fd_ops (\<lambda>_ v. v) True True (7, 0) example_file example_extent True blank_volume =
      (Inr (), d', blank_volume\<lparr>others := x, index := idx\<rparr>)"
    using add_extent_unlocked_succeeds [of blank_volume example_file example_extent "\<lambda>_ v. v" "(7, 0)" True]
      example_file_ok no_journal by (auto simp: example_add two32_def)
  have "d_size example_file = 20" "byte_loc 4 (extentlist example_file) 6 = Some (CHR ''b'', 26)"
    "byte_loc 4 (extentlist example_file) 13 = Some (CHR ''b'', 33)"
    by (simp_all add: example_file_def covers_def addr_def)
  then show ?thesis
    using add_extent_overlay [of blank_volume example_file example_extent, OF _ _ _ _ run] example_file_ok run
    by (auto simp: covers_def addr_def two32_def)
qed

theorem add_extent_failure_witness:
  "\<exists>e. ltfs_fsraw_add_extent fd_ops (\<lambda>_ v. v) True False (7, 0) example_file example_extent True blank_volume =
      (Inl e, example_file, blank_volume)"
proof -
  obtain d' vol' where run: "ltfs_fsraw_add_extent fd_ops (\<lambda>_ v. v) True False (7, 0) example_file example_extent True blank_volume =
      (Inl LTFS_NO_MEMORY, d', vol')"
    unfolding example_add by (simp add: fsraw_add_extent_unlocked_def example_file_def fileoffset_end_def u64_def two64_def Let_def)
  then show ?thesis
    using add_extent_failure [of blank_volume example_file example_extent, OF _ _ _ _ run] example_file_ok
    by (auto simp: two32_def)
qed

theorem truncate_contents_witness:
  "\<exists>d' vol'. ltfs_fsraw_truncate (\<lambda>_ v. v) (7, 0) (empty_file\<lparr>d_size := 3\<rparr>) 5 blank_volume = (Inr (), d', vol') \<and>
     file_ok 4 d' \<and> file_contents (\<lambda>_. []) 4 (\<lambda>_. 0) d' = [0, 0, 0, 0, 0]"
proof -
  obtain d' vol' where run: "ltfs_fsraw_truncate (\<lambda>_ v. v) (7, 0) (empty_file\<lparr>d_size := 3\<rparr>) 5 blank_volume = (Inr (), d', vol')"
    by (simp add: ltfs_fsraw_truncate_def ltfs_get_volume_lock_def blank_volume_def ltfs_set_dentry_dirty_def Let_def)
  moreover have "file_ok 4 (empty_file\<lparr>d_size := 3\<rparr>)" by (simp add: file_ok_def empty_file_def wf_extents_def max_off_def)
  moreover have "file_contents (\<lambda>_. []) 4 (\<lambda>_. 0) (empty_file\<lparr>d_size := 3\<rparr>) = [0, 0, 0]"
    by (simp add: file_contents_def empty_file_def file_byte_def numeral_3_eq_3)
  ultimately show ?thesis
    using truncate_contents [of 4 "empty_file\<lparr>d_size := 3\<rparr>" 5 "\<lambda>_ v. v" "(7, 0)" blank_volume d' vol' "\<lambda>_. []" "\<lambda>_. 0"]
    by (auto simp: max_off_def numeral_2_eq_2)
qed

theorem cleanup_extent_filters_witness:
  "\<exists>ret ds. ltfs_fsraw_cleanup_extent (1, 9) 4 blank_volume (Inr ()) [TDir [TFile example_file]] = (ret, ds) \<and>
     map extentlist (dtree_files ds) = [[]]"
proof -
  obtain ret ds where run: "ltfs_fsraw_cleanup_extent (1, 9) 4 blank_volume (Inr ()) [TDir [TFile example_file]] = (ret, ds)"
    by (rule prod.exhaust)
  moreover have "reval blank_volume = None" by (simp add: blank_volume_def)
  moreover have "filter (\<lambda>e. \<not> lost_extent (1, 9) 4 blank_volume e) (extentlist example_file) = []"
    by (simp add: example_file_def lost_extent_def extent_last_def u64_def u64_sub_def two64_def)
  ultimately show ?thesis using cleanup_extent_filters [of blank_volume "(1, 9)" 4 "Inr ()"] by fastforce
qed


section \<open>Writing and reading\<close>

text \<open>
  C2. Reading.  On a volume of the file backend that is in order, \<open>ltfs_fsraw_read\<close> of \<open>count\<close> bytes at
  \<open>offset\<close> returns the number of bytes the file has there, at most \<open>count\<close>; they are the bytes of the
  file, zeros in its holes, and the rest of the buffer is not touched.  The volume is still in order.
\<close>

theorem fsraw_read_correct:
  fixes vol :: "(filedebug_data, 'o) ltfs_volume"
  assumes "fd_readable T vol" "length lb0 = blocksize vol"
    "file_ok (blocksize vol) d" "backed T (blocksize vol) (\<lambda>c. ltfs_part_id2num c vol) (extentlist d)"
    "offset < max_off" "0 < count" "count < max_off" "count \<le> length buf"
  defines "m \<equiv> min count (d_size d - offset)"
  shows "\<exists>vol'. ltfs_fsraw_read (Suc n) (filedebug_ops ro junk) rekey rv wv True (Some lb0) clock d buf count offset vol =
      (Inr m, take m (drop offset (vol_contents T vol d)) @ drop m buf, d\<lparr>access_time := snd (snd clock)\<rparr>, vol') \<and>
    fd_readable T vol' \<and> blocksize vol' = blocksize vol \<and> (\<lambda>c. ltfs_part_id2num c vol') = (\<lambda>c. ltfs_part_id2num c vol)"
  unfolding m_def by (rule filedebug.fsraw_read_ok) (use assms(1-8) in auto)

theorem fsraw_read_correct_witness:
  "\<exists>d (vol :: (filedebug_data, unit) ltfs_volume) T vol'. fd_readable T vol \<and>
     vol_contents T vol d = [0, 0, 0, 1, 2, 3, 4, 5, 6] \<and>
     ltfs_fsraw_read 1 fd_ops (\<lambda>_. None) (\<lambda>v. (Inr (), v)) (\<lambda>v. (Inr (), v)) True
       (Some [9, 9, 9, 9]) ((0, 0), (0, 0), (7, 0)) d [8, 8, 8, 8, 8, 8, 8, 8] 8 2 vol =
     (Inr 7, [0, 1, 2, 3, 4, 5, 6, 8], d\<lparr>access_time := (7, 0)\<rparr>, vol')"
proof -
  let ?T = "appended (\<lambda>_. []) [1, 2, 3, 4, 5, 6] blank_volume"
  let ?num = "\<lambda>c. ltfs_part_id2num c blank_volume"
  obtain d and vol :: "(filedebug_data, unit) ltfs_volume" where
    w: "file_ok 4 d" "backed ?T 4 ?num (extentlist d)" "file_contents ?T 4 ?num d = overlay [] 3 [1, 2, 3, 4, 5, 6]"
      "fd_readable ?T vol" "blocksize vol = 4" "(\<lambda>c. ltfs_part_id2num c vol) = ?num"
    using fd_write_ok [OF blank_facts, of 3 0 "seek_pos 0 0" "\<lambda>_ v. (Inr (), v)" "\<lambda>v. (Inr (), v)" "\<lambda>v. (Inr (), v)"
        "((0, 0), (0, 0), (0, 0))" True]
    by (auto simp: max_off_def blank_contents)
  have c: "vol_contents ?T vol d = [0, 0, 0, 1, 2, 3, 4, 5, 6]" unfolding w(3,5,6) overlay_example ..
  then have "length (vol_contents ?T vol d) = 9" by (simp only: list.size)
  then have "d_size d = 9" by simp
  then have "\<exists>vol'. ltfs_fsraw_read 1 fd_ops (\<lambda>_. None) (\<lambda>v. (Inr (), v)) (\<lambda>v. (Inr (), v)) True
       (Some [9, 9, 9, 9]) ((0, 0), (0, 0), (7, 0)) d [8, 8, 8, 8, 8, 8, 8, 8] 8 2 vol =
     (Inr 7, [0, 1, 2, 3, 4, 5, 6, 8], d\<lparr>access_time := (7, 0)\<rparr>, vol')"
    using fsraw_read_correct [of ?T vol "[9, 9, 9, 9]" d 2 8 "[8, 8, 8, 8, 8, 8, 8, 8]" 0 "\<lambda>_. False" "seek_pos 0 0" "\<lambda>_. None"
        "\<lambda>v. (Inr (), v)" "\<lambda>v. (Inr (), v)" "((0, 0), (0, 0), (7, 0))"] w c by (auto simp: max_off_def)
  then show ?thesis using w(4) c by blast
qed

text \<open>
  C3. Writing.  On a writable volume of the file backend with room, \<open>ltfs_fsraw_write\<close> succeeds, and the
  contents of the file afterwards are its contents before with the buffer put in at the offset
  (with zeros in between if the file was shorter).  The invariant of the file, the blocks behind its
  extents and the order of the volume are kept, so that reading and writing can go on.
\<close>

theorem fsraw_write_correct:
  fixes vol :: "(filedebug_data, 'o) ltfs_volume"
  assumes "fd_readable T vol" "writable_volume (filedebug_ops ro junk) vol" "fd_room T buf vol" "journal_only jm"
    "fd_kept T vol d" "buf \<noteq> []" "offset + length buf < max_off"
  shows "\<exists>d' vol' T'. ltfs_fsraw_write (Suc n) (filedebug_ops ro junk) wi rv wv jm True True True clock d buf offset
      (partid_dp vol) ut vol = (Inr (), d', vol') \<and> fd_readable T' vol' \<and> file_ok (blocksize vol') d' \<and>
    backed T' (blocksize vol') (\<lambda>c. ltfs_part_id2num c vol') (extentlist d') \<and>
    vol_contents T' vol' d' = overlay (vol_contents T vol d) offset buf"
proof -
  obtain d' vol' where w: "ltfs_fsraw_write (Suc n) (filedebug_ops ro junk) wi rv wv jm True True True clock d buf offset
      (partid_dp vol) ut vol = (Inr (), d', vol')" "file_ok (blocksize vol) d'"
    "backed (appended T buf vol) (blocksize vol) (\<lambda>c. ltfs_part_id2num c vol) (extentlist d')"
    "vol_contents (appended T buf vol) vol d' = overlay (vol_contents T vol d) offset buf"
    "fd_readable (appended T buf vol) vol'" "blocksize vol' = blocksize vol"
    "(\<lambda>c. ltfs_part_id2num c vol') = (\<lambda>c. ltfs_part_id2num c vol)"
    using fd_write_ok [OF assms] by blast
  show ?thesis
    by (intro exI [of _ d'] exI [of _ vol'] exI [of _ "appended T buf vol"] conjI) (use w in simp_all)
qed

theorem fsraw_write_correct_witness:
  "\<exists>d' vol' T'. ltfs_fsraw_write 1 fd_ops (\<lambda>_ v. (Inr (), v)) (\<lambda>v. (Inr (), v)) (\<lambda>v. (Inr (), v))
      (\<lambda>_ v. v) True True True ((0, 0), (0, 0), (0, 0)) empty_file [1, 2, 3, 4, 5, 6] 3 (CHR ''b'') True blank_volume =
      (Inr (), d', vol') \<and> fd_readable T' vol' \<and> vol_contents T' vol' d' = [0, 0, 0, 1, 2, 3, 4, 5, 6]"
  using fsraw_write_correct [OF blank_facts, of 3 0 "seek_pos 0 0" "\<lambda>_ v. (Inr (), v)" "\<lambda>v. (Inr (), v)" "\<lambda>v. (Inr (), v)"
      "((0, 0), (0, 0), (0, 0))" True]
  by (auto simp: max_off_def blank_contents overlay_example)

text \<open>
  C1. Round trip.  What \<open>ltfs_fsraw_write\<close> has written, \<open>ltfs_fsraw_read\<close> of the same range gives back,
  through the extent list of the file, the device and the block files of the backend.
\<close>

theorem fsraw_write_read:
  fixes vol :: "(filedebug_data, 'o) ltfs_volume"
  assumes "fd_readable T vol" "writable_volume (filedebug_ops ro junk) vol" "fd_room T buf vol" "journal_only jm"
    "fd_kept T vol d" "buf \<noteq> []" "offset + length buf < max_off" "length lb0 = blocksize vol" "length rbuf = length buf"
  shows "\<exists>d' vol' d'' vol''.
    ltfs_fsraw_write (Suc n) (filedebug_ops ro junk) wi rv wv jm True True True clock d buf offset
      (partid_dp vol) ut vol = (Inr (), d', vol') \<and>
    ltfs_fsraw_read (Suc k) (filedebug_ops ro junk) rekey rv wv True (Some lb0) clock' d' rbuf (length buf) offset vol' =
      (Inr (length buf), buf, d'', vol'')"
proof -
  let ?T = "appended T buf vol" and ?num = "\<lambda>c. ltfs_part_id2num c vol"
  obtain d' vol' where w: "ltfs_fsraw_write (Suc n) (filedebug_ops ro junk) wi rv wv jm True True True clock d buf offset
      (partid_dp vol) ut vol = (Inr (), d', vol')" "file_ok (blocksize vol) d'" "backed ?T (blocksize vol) ?num (extentlist d')"
    "vol_contents ?T vol d' = overlay (vol_contents T vol d) offset buf" "fd_readable ?T vol'" "blocksize vol' = blocksize vol"
    "(\<lambda>c. ltfs_part_id2num c vol') = ?num"
    using fd_write_ok [OF assms(1-7)] by blast
  have "length (vol_contents ?T vol d') = max (d_size d) (offset + length buf)" unfolding w(4) by simp
  then have m: "min (length buf) (d_size d' - offset) = length buf" by simp
  have "\<exists>vol''. ltfs_fsraw_read (Suc k) (filedebug_ops ro junk) rekey rv wv True (Some lb0) clock' d' rbuf (length buf) offset vol' =
      (Inr (length buf), take (length buf) (drop offset (file_contents ?T (blocksize vol') ?num d')) @ drop (length buf) rbuf,
       d'\<lparr>access_time := snd (snd clock')\<rparr>, vol'') \<and>
    fd_readable ?T vol'' \<and> blocksize vol'' = blocksize vol' \<and> (\<lambda>c. ltfs_part_id2num c vol'') = ?num"
    by (rule filedebug.fsraw_read_ok) (use w assms(6-9) m in auto)
  moreover have "take (length buf) (drop offset (file_contents ?T (blocksize vol') ?num d')) = buf"
    unfolding w(6) w(4) by (simp add: overlay_def)
  ultimately show ?thesis using w(1) assms(9) by auto
qed

theorem fsraw_write_read_witness:
  "\<exists>d' vol' d'' vol''.
    ltfs_fsraw_write 1 fd_ops (\<lambda>_ v. (Inr (), v)) (\<lambda>v. (Inr (), v)) (\<lambda>v. (Inr (), v))
      (\<lambda>_ v. v) True True True ((0, 0), (0, 0), (0, 0)) empty_file [1, 2, 3, 4, 5, 6] 3 (CHR ''b'') True blank_volume =
      (Inr (), d', vol') \<and>
    ltfs_fsraw_read 1 fd_ops (\<lambda>_. None) (\<lambda>v. (Inr (), v)) (\<lambda>v. (Inr (), v)) True (Some [9, 9, 9, 9])
      ((0, 0), (0, 0), (0, 0)) d' [0, 0, 0, 0, 0, 0] 6 3 vol' = (Inr 6, [1, 2, 3, 4, 5, 6], d'', vol'')"
proof -
  have "length [1, 2, 3, 4, 5, 6 :: byte] = 6" by simp
  then show ?thesis
    using fsraw_write_read [OF blank_facts, of 3 "[9, 9, 9, 9]" "[0, 0, 0, 0, 0, 0]" 0 "seek_pos 0 0" "\<lambda>_ v. (Inr (), v)" "\<lambda>v. (Inr (), v)"
      "\<lambda>v. (Inr (), v)" "((0, 0), (0, 0), (0, 0))" True 0 "\<lambda>_. None" "((0, 0), (0, 0), (0, 0))"]
    by (simp only:) (auto simp: max_off_def)
qed

text \<open>
  C7. Writing to one file leaves the contents of every other file of the volume alone whose blocks are
  before the append position.
\<close>

theorem fsraw_write_others:
  fixes vol :: "(filedebug_data, 'o) ltfs_volume"
  assumes "fd_readable T vol" "writable_volume (filedebug_ops ro junk) vol" "fd_room T buf vol" "journal_only jm"
    "fd_kept T vol d" "buf \<noteq> []" "offset + length buf < max_off" "fd_kept T vol d2"
  shows "\<exists>d' vol' T'. ltfs_fsraw_write (Suc n) (filedebug_ops ro junk) wi rv wv jm True True True clock d buf offset
      (partid_dp vol) ut vol = (Inr (), d', vol') \<and> fd_readable T' vol' \<and>
    backed T' (blocksize vol') (\<lambda>c. ltfs_part_id2num c vol') (extentlist d2) \<and> vol_contents T' vol' d2 = vol_contents T vol d2"
proof -
  let ?T = "appended T buf vol"
  obtain d' vol' where w: "ltfs_fsraw_write (Suc n) (filedebug_ops ro junk) wi rv wv jm True True True clock d buf offset
      (partid_dp vol) ut vol = (Inr (), d', vol')" "fd_readable ?T vol'" "blocksize vol' = blocksize vol"
    "(\<lambda>c. ltfs_part_id2num c vol') = (\<lambda>c. ltfs_part_id2num c vol)"
    using fd_write_ok [OF assms(1-7)] by blast
  have k: "wf_extents (blocksize vol) (extentlist d2)"
    "backed T (blocksize vol) (\<lambda>c. ltfs_part_id2num c vol) (extentlist d2)"
    "below (blocksize vol) (\<lambda>c. ltfs_part_id2num c vol) (ltfs_part_id2num (partid_dp vol) vol)
       (append_block T (device vol) (ltfs_part_id2num (partid_dp vol) vol)) (extentlist d2)"
    "append_block T (device vol) (ltfs_part_id2num (partid_dp vol) vol) \<le> length (T (ltfs_part_id2num (partid_dp vol) vol))"
    using assms(3,8) by (auto simp: fd_kept_def file_ok_def fd_room_def append_block_def Let_def)
  have "vol_contents ?T vol d2 = vol_contents T vol d2"
    using file_byte_below [OF k(1,3), of T] k(4) by (simp add: file_contents_def appended_def Let_def)
  moreover have "backed ?T (blocksize vol) (\<lambda>c. ltfs_part_id2num c vol) (extentlist d2)"
    unfolding appended_def Let_def by (rule backed_below) (use k in auto)
  ultimately show ?thesis
    by (intro exI [of _ d'] exI [of _ vol'] exI [of _ ?T] conjI) (use w in simp_all)
qed

theorem fsraw_write_others_witness:
  "\<exists>d' vol' T'. ltfs_fsraw_write 1 fd_ops (\<lambda>_ v. (Inr (), v)) (\<lambda>v. (Inr (), v)) (\<lambda>v. (Inr (), v))
      (\<lambda>_ v. v) True True True ((0, 0), (0, 0), (0, 0)) empty_file [1, 2, 3, 4, 5, 6] 3 (CHR ''b'') True blank_volume =
      (Inr (), d', vol') \<and> fd_readable T' vol' \<and> vol_contents T' vol' (empty_file\<lparr>d_size := 2\<rparr>) = [0, 0]"
proof -
  have k: "fd_kept (\<lambda>_. []) blank_volume (empty_file\<lparr>d_size := 2\<rparr>)"
    using blank_kept by (simp add: fd_kept_def file_ok_def empty_file_def max_off_def wf_extents_def Let_def)
  have "vol_contents (\<lambda>_. []) blank_volume (empty_file\<lparr>d_size := 2\<rparr>) = [0, 0]"
    by (simp add: file_contents_def empty_file_def file_byte_def numeral_2_eq_2)
  then show ?thesis
    using fsraw_write_others [OF blank_facts _ _ k, of 3 0 "seek_pos 0 0" "\<lambda>_ v. (Inr (), v)" "\<lambda>v. (Inr (), v)" "\<lambda>v. (Inr (), v)"
        "((0, 0), (0, 0), (0, 0))" True]
    by (auto simp: max_off_def)
qed

end
