(* ===== verification/DeviceProps.thy ===== *)
theory DeviceProps
  imports FileVolume
begin

text \<open>
  The device layer and the file backend under arbitrary sequences of calls: what stays true whatever
  the calls are and whichever of them fail, that the file backend answers like the abstract tape, that
  spacing ends, and the cartridge memory.
\<close>

section \<open>Sequences of device calls\<close>

text \<open>
  One call, with any arguments and any result, of a function of \<open>tape.c\<close> that positions, reads, writes,
  erases, asks or sets flags while the cartridge stays where it is.  Not among the calls are those that
  load or unload the cartridge (\<open>tape_load_tape\<close>, \<open>tape_unload_tape\<close>, \<open>tape_format\<close>,
  \<open>tape_enable_append_only_mode\<close>, \<open>tape_recover_eod_status\<close>, \<open>tape_medium_present\<close>) and
  \<open>tape_reset_capacity\<close>, which loads it too and is considered apart.
\<close>

inductive device_step :: "'s tape_ops \<Rightarrow> 's drive_ops \<Rightarrow> 's device_data \<Rightarrow> 's device_data \<Rightarrow> bool" for ops dops where
  step_rewind: "device_step ops dops dev (snd (tape_rewind ops now dev))"
| step_seek: "device_step ops dops dev (snd (tape_seek ops now dev pos))"
| step_seek_eod: "device_step ops dops dev (snd (tape_seek_eod ops now dev part))"
| step_seek_append: "device_step ops dops dev (snd (tape_seek_append_position ops now dev part unlock))"
| step_update_position: "device_step ops dops dev (snd (tape_update_position ops dev))"
| step_untransfered: "device_step ops dops dev (snd (snd (tape_get_first_untransfered_position ops dev pos)))"
| step_spacefm: "device_step ops dops dev (snd (tape_spacefm ops now dev count))"
| step_write: "device_step ops dops dev (snd (tape_write ops now dev buf il ins))"
| step_write_filemark: "device_step ops dops dev (snd (tape_write_filemark ops now dev n il ins immed))"
| step_read: "device_step ops dops dev (snd (snd (tape_read ops rekey now dev buf n unusual)))"
| step_erase: "device_step ops dops dev (snd (tape_erase ops now dev long))"
| step_unformat_hard: "device_step ops dops dev (snd (tape_unformat_hard ops dev))"
| step_capacity: "device_step ops dops dev (snd (snd (tape_get_capacity ops now dev cap)))"
| step_set_append: "device_step ops dops dev (snd (tape_set_append_position dev part blk))"
| step_set_ip_append: "device_step ops dops dev (snd (tape_set_ip_append_position ops dev part blk))"
| step_coherency: "device_step ops dops dev (snd (tape_set_cart_coherency ops dev part coh))"
| step_force_read_only: "device_step ops dops dev (tape_force_read_only dev)"
| step_start_fence: "device_step ops dops dev (tape_start_fence dev)"
| step_release_fence: "device_step ops dops dev (tape_release_fence dev)"
| step_next_index: "device_step ops dops dev (snd (tape_locate_next_index ops now dev))"
| step_previous_index: "device_step ops dops dev (snd (tape_locate_previous_index ops now dev))"
| step_first_index: "device_step ops dops dev (snd (tape_locate_first_index ops now dev part))"
| step_last_index: "device_step ops dops dev (snd (tape_locate_last_index ops now dev part))"
| step_test_unit_ready: "device_step ops dops dev (snd (tape_test_unit_ready dops now dev))"
| step_set_compression: "device_step ops dops dev (snd (tape_set_compression dops dev compress))"

lemmas device_defs = tape_rewind_def tape_seek_def tape_seek_eod_def tape_seek_append_position_def
  tape_update_position_def tape_get_first_untransfered_position_def tape_spacefm_def
  tape_read_def tape_erase_def tape_unformat_hard_def tape_get_capacity_def tape_set_append_position_def
  tape_set_ip_append_position_def tape_set_cart_coherency_def tape_force_read_only_def tape_start_fence_def
  tape_release_fence_def tape_capacity_forget_def tape_test_unit_ready_def tape_set_compression_def
  tape_reset_capacity_def

lemma steps_invariant:
  assumes "R\<^sup>*\<^sup>* dev dev'" "I dev" "\<And>d d'. R d d' \<Longrightarrow> I d \<Longrightarrow> I d'"
  shows "I dev'"
  using assms(1,2) by (induction rule: rtranclp_induct) (auto intro: assms(3))

section \<open>The latch of a write error\<close>

lemma write_error_refused:
  "write_error dev \<Longrightarrow> \<exists>e \<in> {LTFS_WRITE_PROTECT, LTFS_WRITE_ERROR}. write_refused dev il ins = Some e"
  by (simp add: write_refused_def Let_def)

lemma write_error_seek: "write_error (snd (tape_seek ops now dev pos)) = write_error dev"
  by (auto simp: tape_seek_def Let_def split: prod.split sum.split)

lemma seek_append_form:
  obtains pos we ap where "snd (tape_seek_append_position ops now dev part unlock) =
    (snd (tape_seek ops now dev pos))\<lparr>write_error := we, append_pos := ap\<rparr>"
    "write_error (snd (tape_seek ops now dev pos)) \<Longrightarrow> we"
proof -
  let ?blk = "if append_pos dev part = 0 then TAPE_BLOCK_MAX else append_pos dev part"
  obtain ret d where sk: "tape_seek ops now dev (seek_pos part ?blk) = (ret, d)" by (rule prod.exhaust)
  show thesis
  proof (cases ret)
    case (Inl e)
    then show ?thesis
      using that [where pos = "seek_pos part ?blk" and we = True and ap = "append_pos d"] sk
      by (simp add: tape_seek_append_position_def Let_def)
  next
    case (Inr u)
    then show ?thesis
      using that [where pos = "seek_pos part ?blk" and we = "write_error d" and ap =
          "if append_pos d part = 0 then (append_pos d)(part := pos_block (position d)) else append_pos d"] sk
      by (simp add: tape_seek_append_position_def Let_def)
  qed
qed

text \<open>A call that is only made when the one before it has succeeded.\<close>

lemma and_then_snd:
  "snd (case x of (Inl e, d) \<Rightarrow> (Inl e, d) | (Inr u, d) \<Rightarrow> f d) = (if isl (fst x) then snd x else snd (f (snd x)))"
  by (auto split: prod.split sum.split)

lemma write_error_moves:
  "write_error (snd (tape_spacefm ops now dev count)) = write_error dev"
  "write_error (snd (tape_seek_eod ops now dev part)) = write_error dev"
  by (auto simp: tape_spacefm_def tape_seek_eod_def Let_def split: prod.split sum.split)

lemma write_error_index:
  "write_error (snd (tape_locate_next_index ops now dev)) = write_error dev"
  "write_error (snd (tape_locate_previous_index ops now dev)) = write_error dev"
  "write_error (snd (tape_locate_first_index ops now dev part)) = write_error dev"
  "write_error (snd (tape_locate_last_index ops now dev part)) = write_error dev"
  unfolding tape_locate_next_index_def tape_locate_previous_index_def tape_locate_first_index_def
    tape_locate_last_index_def
  by (simp_all add: and_then_snd write_error_moves write_error_seek)

lemma write_error_step: "device_step ops dops dev dev' \<Longrightarrow> write_error dev \<Longrightarrow> write_error dev'"
proof (induction rule: device_step.induct)
  case (step_seek dev now pos)
  then show ?case by (simp add: write_error_seek)
next
  case (step_seek_append dev now part unlock)
  then show ?case
    by (rule_tac seek_append_form [of ops now dev part unlock]) (simp add: write_error_seek)
next
  case (step_write dev now buf il ins)
  then show ?case using write_error_refused [of dev il ins] by (auto simp: tape_write_def)
next
  case (step_write_filemark dev now n il ins immed)
  then show ?case using write_error_refused [of dev il ins] by (auto simp: tape_write_filemark_def)
qed (auto simp: device_defs write_error_index Let_def split: prod.split sum.split option.split)

lemma write_error_reset: "write_error (snd (tape_reset_capacity dops dev)) = write_error dev"
  by (auto simp: device_defs Let_def split: prod.split sum.split)


abbreviation fd_drive :: "filedebug_data drive_ops" where
  "fd_drive \<equiv> filedebug_drive_ops (\<lambda>st pos. (Inl EDEV_NO_MEDIUM, pos, st)) (seek_pos 0 0)"

definition failing_device :: "filedebug_data device_data" where
  "failing_device = blank_device\<lparr>backend_data := fd_blank\<lparr>force_writeperm := 1, write_counter := 1\<rparr>\<rparr>"


section \<open>Forcing a device read-only\<close>

text \<open>\<open>tape_force_read_only\<close> changes nothing: the flag it sets is bit 32 of an unsigned int of 32
  bits.\<close>

lemma force_read_only_noop: "tape_force_read_only dev = dev"
proof -
  have "(ucast ((ucast w :: 64 word) OR 0x100000000) :: 32 word) = w" for w :: "32 word"
  proof (rule bit_word_eqI)
    fix n assume n: "n < LENGTH(32)"
    then have "\<not> bit (0x100000000 :: 64 word) n"
      using bit_push_bit_iff [of 32 "1 :: 64 word" n] by (simp add: push_bit_eq_mult)
    with n show "bit (ucast ((ucast w :: 64 word) OR 0x100000000) :: 32 word) n \<longleftrightarrow> bit w n"
      by (simp add: bit_simps)
  qed
  then show ?thesis by (simp add: tape_force_read_only_def VOL_FORCE_READ_ONLY_def)
qed

section \<open>Device and backend agree on the position\<close>

text \<open>The partition, block and filemark count the device remembers are those the emulator is at.\<close>

definition agree :: "tc_position \<Rightarrow> filedebug_data \<Rightarrow> bool" where
  "agree pos st \<longleftrightarrow> pos_partition pos = cur_part st \<and> pos_block pos = cur_block st \<and> pos_filemarks pos = cur_filemarks st"

lemma agree_simps [simp]:
  "agree (set_early_warning st' pos) st = agree pos st"
  "agree (set_programmable_early_warning st' pos) st = agree pos st"
  "agree (set_programmable_early_warning_exact st' pos) st = agree pos st"
  "agree pos (st\<lparr>eod := e\<rparr>) = agree pos st"
  by (auto simp: agree_def set_early_warning_def set_programmable_early_warning_def
      set_programmable_early_warning_exact_def)

named_theorems here \<open>functions of the emulator that do not move the head\<close>

lemma unlink_here [here]: "current_position (snd (filedebug_unlink ts p b st)) = current_position st"
  by (induction ts arbitrary: st) (auto simp: Let_def set_file_def)

lemma remove_record_here [here]: "current_position (snd (filedebug_remove_record st p b)) = current_position st"
  using unlink_here [of "''RFE''"] by (simp add: filedebug_remove_record_def del: filedebug_unlink.simps)

lemma remove_current_here [here]: "current_position (snd (filedebug_remove_current_record st)) = current_position st"
  by (simp add: filedebug_remove_current_record_def here)

lemma remove_from_here [here]: "current_position (snd (filedebug_remove_from p i n st)) = current_position st"
proof (induction n arbitrary: i st)
  case (Suc n)
  then show ?case using remove_record_here [of st p i] by (auto split: prod.split sum.split)
qed simp

lemma write_attribute_here [here]:
  "current_position (snd (filedebug_write_attribute_from i st p buf)) = current_position st"
proof (induction i st p buf rule: filedebug_write_attribute_from.induct)
  case (1 i st p buf)
  then show ?case
    by (subst filedebug_write_attribute_from.simps) (auto simp: Let_def set_file_def)
qed

lemma bump_write_pass_here [here]: "current_position (snd (filedebug_bump_write_pass st)) = current_position st"
  by (simp add: filedebug_bump_write_pass_def set_wp_def filedebug_write_attribute_def here Let_def)

lemma create_here [here]: "current_position (snd (filedebug_create f d st)) = current_position st"
  by (simp add: filedebug_create_def Let_def set_file_def)

lemma write_eod_here [here]: "current_position (snd (filedebug_write_eod st)) = current_position st"
proof -
  obtain r1 st1 where 1: "filedebug_remove_current_record st = (r1, st1)" by (rule prod.exhaust)
  let ?st2 = "set_file (filedebug_make_current_filename st1 (CHR ''E'')) (Some []) st1"
  obtain r2 st2 where 2: "filedebug_remove_from (cur_part st) (cur_block ?st2 + 1) (eod ?st2 (cur_part st) - cur_block ?st2) ?st2 = (r2, st2)"
    by (rule prod.exhaust)
  have p: "current_position st1 = current_position st" "current_position ?st2 = current_position st1" "current_position st2 = current_position ?st2"
    using remove_current_here [of st] 1 remove_from_here [of "cur_part st" "cur_block ?st2 + 1" "eod ?st2 (cur_part st) - cur_block ?st2" ?st2] 2
    by (simp_all add: set_file_def)
  show ?thesis
    unfolding filedebug_write_eod_def Let_def 1
    using 2 p by (auto split: sum.split)
qed

lemma agree_cong: "current_position st' = current_position st \<Longrightarrow> agree pos st' = agree pos st"
  by (simp add: agree_def)

lemma agree_next [simp]:
  "agree pos st \<Longrightarrow> agree (pos\<lparr>pos_block := cur_block (next_block st)\<rparr>) (next_block st)"
  "agree pos st \<Longrightarrow>
   agree (pos\<lparr>pos_block := cur_block (next_filemark st), pos_filemarks := cur_filemarks (next_filemark st)\<rparr>) (next_filemark st)"
  by (simp_all add: agree_def next_filemark_def next_block_def set_cur_block_def set_cur_filemarks_def)

lemma agree_rewind:
  "filedebug_rewind st pos = (r, pos', st') \<Longrightarrow> agree pos st \<Longrightarrow> agree pos' st'"
  by (auto simp: filedebug_rewind_def agree_def set_cur_block_def set_cur_filemarks_def split: if_splits)

lemma agree_settle:
  "filedebug_settle ret st pos = (r, pos', st') \<Longrightarrow> agree pos st \<Longrightarrow> agree pos' st'"
  by (auto simp: filedebug_settle_def Let_def agree_def set_cur_filemarks_def set_early_warning_def
      set_programmable_early_warning_def split: sum.splits)

lemma agree_locate:
  "filedebug_locate st dest pos = (r, pos', st') \<Longrightarrow> agree pos st \<Longrightarrow> agree pos' st'"
  by (erule locate_settles) (auto simp: agree_def elim!: agree_settle [unfolded agree_def])

lemma agree_read:
  "filedebug_read st buf n pos unusual = (r, buf', pos', st') \<Longrightarrow> agree pos st \<Longrightarrow> agree pos' st'"
proof -
  assume rd: "filedebug_read st buf n pos unusual = (r, buf', pos', st')" and ag: "agree pos st"
  define st0 where "st0 = (if force_readperm st \<noteq> 0 then st\<lparr>read_counter := u64 (read_counter st + 1)\<rparr> else st)"
  have ag0: "agree pos st0" using ag by (simp add: st0_def agree_def)
  have files: "agree pos' st'" if "filedebug_read_files st0 buf n pos = (r, buf', pos', st')"
    using that ag0 unfolding filedebug_read_files_def Let_def
    by (auto split: if_splits sum.splits bool.splits)
  show ?thesis
    using rd ag ag0 files unfolding filedebug_read_def st0_def [symmetric] Let_def
    by (auto split: if_splits)
qed

lemma agree_write_record:
  assumes "filedebug_write_record st buf pos = (r, pos', st')" "agree pos st"
  shows "agree pos' st'"
proof -
  obtain r1 st1 where 1: "filedebug_remove_current_record st = (r1, st1)" by (rule prod.exhaust)
  obtain r2 st2 where 2: "filedebug_bump_write_pass st1 = (r2, st2)" by (rule prod.exhaust)
  obtain r3 st3 where 3: "filedebug_create (filedebug_make_current_filename st2 (CHR ''R'')) buf st2 = (r3, st3)"
    by (rule prod.exhaust)
  obtain r4 st4 where 4: "filedebug_write_eod (next_block st3) = (r4, st4)" by (rule prod.exhaust)
  have p: "current_position st1 = current_position st" "current_position st2 = current_position st1"
    "current_position st3 = current_position st2" "current_position st4 = current_position (next_block st3)"
    using bump_write_pass_here [of st1] create_here [of "filedebug_make_current_filename st2 (CHR ''R'')" buf st2]
      write_eod_here [of "next_block st3"] remove_current_here [of st] 1 2 3 4 by simp_all
  have "agree pos st1" "agree pos st2" "agree pos st3" using assms(2) p by (simp_all add: agree_def)
  moreover have "agree (pos\<lparr>pos_block := cur_block (next_block st3)\<rparr>) st4"
    using agree_next(1) [OF \<open>agree pos st3\<close>] agree_cong [OF p(4)] by simp
  ultimately show ?thesis
    using assms(1) unfolding filedebug_write_record_def 1 Let_def
    by (auto simp: 2 3 4 simp del: make_current split: if_splits sum.splits option.splits prod.splits)
qed

lemma agree_write:
  assumes "filedebug_write st buf pos = (r, pos', st')" "agree pos st"
  shows "agree pos' st'"
proof -
  define st0 where "st0 = (if force_writeperm st \<noteq> 0 then st\<lparr>write_counter := u64 (write_counter st + 1)\<rparr> else st)"
  have ag0: "agree pos st0" using assms(2) by (simp add: st0_def agree_def)
  obtain r1 pos1 st1 where 1: "filedebug_write_record st0 buf pos = (r1, pos1, st1)" by (metis prod.exhaust)
  have ag1: "agree pos1 st1" by (rule agree_write_record [OF 1 ag0])
  show ?thesis
    using assms ag0 ag1 agree_next(1) [OF ag0] unfolding filedebug_write_def st0_def [symmetric] Let_def
    by (auto simp: 1 split: if_splits sum.splits)
qed

lemma agree_writefm_files:
  "filedebug_writefm_files n st pos = (r, pos', st') \<Longrightarrow> agree pos st \<Longrightarrow> agree pos' st'"
proof (induction n arbitrary: st pos)
  case (Suc n)
  obtain r1 st1 where 1: "filedebug_remove_current_record st = (r1, st1)" by (rule prod.exhaust)
  let ?st2 = "set_file (filedebug_make_current_filename st1 (CHR ''F'')) (Some []) st1"
  let ?pos = "pos\<lparr>pos_block := cur_block (next_filemark ?st2), pos_filemarks := cur_filemarks (next_filemark ?st2)\<rparr>"
  obtain r4 st4 where 4: "filedebug_write_eod (next_filemark ?st2) = (r4, st4)" by (rule prod.exhaust)
  have p: "current_position st1 = current_position st" "current_position ?st2 = current_position st1"
    "current_position st4 = current_position (next_filemark ?st2)"
    using remove_current_here [of st] write_eod_here [of "next_filemark ?st2"] 1 4 by (simp_all add: set_file_def)
  have "agree pos st1" "agree pos ?st2" using Suc.prems(2) p(1,2) by (simp_all add: agree_def)
  moreover have "agree ?pos st4"
    using agree_next(2) [OF \<open>agree pos ?st2\<close>] agree_cong [OF p(3)] by simp
  ultimately show ?case
    using Suc.prems(1) Suc.IH [of st4 ?pos] unfolding filedebug_writefm_files.simps 1 Let_def
    by (auto simp: 4 simp del: make_current split: if_splits sum.splits)
qed simp

lemma agree_writefm_dummy:
  "filedebug_writefm_dummy n st pos = (pos', st') \<Longrightarrow> agree pos st \<Longrightarrow> agree pos' st'"
  by (induction n arbitrary: st pos) (auto simp: Let_def)

lemma agree_writefm:
  assumes "filedebug_writefm st n pos immed = (r, pos', st')" "agree pos st"
  shows "agree pos' st'"
proof -
  obtain pos1 st1 where 1: "filedebug_writefm_dummy n st pos = (pos1, st1)" by (rule prod.exhaust)
  obtain r2 st2 where 2: "filedebug_bump_write_pass st = (r2, st2)" by (rule prod.exhaust)
  obtain r3 pos3 st3 where 3: "filedebug_writefm_files n st2 pos = (r3, pos3, st3)" by (metis prod.exhaust)
  have "agree pos st2" using bump_write_pass_here [of st] 2 assms(2) by (simp add: agree_def)
  then have "agree pos3 st3" "agree pos1 st1"
    using agree_writefm_files [OF 3] agree_writefm_dummy [OF 1 assms(2)] by auto
  then show ?thesis
    using assms \<open>agree pos st2\<close> unfolding filedebug_writefm_def Let_def
    by (auto simp: 1 2 3 split: if_splits sum.splits)
qed

lemma space_fm_part:
  "cur_part (snd (space_fm_loop fuel st n count back)) = cur_part st"
  "cur_filemarks (snd (space_fm_loop fuel st n count back)) = cur_filemarks st"
  by (induction fuel arbitrary: st n)
    (auto simp: Let_def next_block_def set_cur_block_def split: sum.split)

lemma space_rec_part:
  "cur_part (snd (space_rec_loop fuel st n count back)) = cur_part st"
  "cur_filemarks (snd (space_rec_loop fuel st n count back)) = cur_filemarks st"
  by (induction fuel arbitrary: st n)
    (auto simp: Let_def next_block_def set_cur_block_def split: sum.split)

lemma space_part:
  "cur_part (snd (filedebug_space_fm st count back)) = cur_part st"
  "cur_filemarks (snd (filedebug_space_fm st count back)) = cur_filemarks st"
  "cur_part (snd (filedebug_space_rec st count back)) = cur_part st"
  "cur_filemarks (snd (filedebug_space_rec st count back)) = cur_filemarks st"
  by (simp_all add: filedebug_space_fm_def filedebug_space_rec_def space_fm_part space_rec_part Let_def set_cur_block_def)

lemma agree_space:
  assumes "filedebug_space st count type pos = (r, pos', st')" "agree pos st" "type \<noteq> TC_SPACE_EOD"
  shows "agree pos' st'"
proof -
  define rs where "rs = (case type of
     TC_SPACE_FM_F \<Rightarrow> filedebug_space_fm st count False | TC_SPACE_FM_B \<Rightarrow> filedebug_space_fm st count True
   | TC_SPACE_F \<Rightarrow> filedebug_space_rec st count False | _ \<Rightarrow> filedebug_space_rec st count True)"
  obtain r1 st1 where 1: "rs = (r1, st1)" by (rule prod.exhaust)
  have "cur_part st1 = cur_part st \<and> cur_filemarks st1 = cur_filemarks st"
    using 1 space_part [of st count False] space_part [of st count True]
    by (auto simp: rs_def split: space_type.splits)
  then have "agree (pos\<lparr>pos_block := cur_block st1\<rparr>) st1"
    using assms(2) by (simp add: agree_def)
  then show ?thesis
    using assms agree_settle [of r1 st1 "pos\<lparr>pos_block := cur_block st1\<rparr>"]
    unfolding filedebug_space_def rs_def [symmetric] 1 Let_def by (auto split: if_splits)
qed

lemma agree_erase:
  "filedebug_erase st pos long = (r, pos', st') \<Longrightarrow> agree pos st \<Longrightarrow> agree pos' st'"
  using write_eod_here [of st]
  by (auto simp: filedebug_erase_def agree_def Let_def split: if_splits prod.splits)

lemma agree_set_compression:
  "filedebug_set_compression st c pos = (r, pos', st') \<Longrightarrow> agree pos st \<Longrightarrow> agree pos' st'"
  by (auto simp: filedebug_set_compression_def agree_def split: if_splits)

lemma agree_readpos:
  "filedebug_readpos st pos = (r, pos', st') \<Longrightarrow> agree pos st \<Longrightarrow> agree pos' st'"
  by (auto simp: filedebug_readpos_def agree_def split: if_splits)

lemma erase_here: "current_position (snd (snd (filedebug_erase st pos long))) = current_position st"
  using write_eod_here [of st] by (simp add: filedebug_erase_def Let_def case_prod_unfold)

lemma erase_all_here:
  "current_position (filedebug_erase_all st pos) = (current_position st)\<lparr>pos_partition := 0, pos_block := 0\<rparr>"
  using erase_here by (simp add: filedebug_erase_all_def Let_def case_prod_unfold set_cur_block_def set_cur_part_def)

lemma agree_format:
  assumes "filedebug_format junk st fmt = (r, st')" "agree pos st"
  shows "agree pos st'"
proof -
  have "current_position (filedebug_calc_warnings (filedebug_erase_all s q)) =
      (current_position s)\<lparr>pos_partition := 0, pos_block := 0\<rparr>" for s q
    by (simp add: filedebug_calc_warnings_def Let_def erase_all_here)
  then show ?thesis
    using assms by (auto simp: filedebug_format_def agree_def Let_def split: if_splits)
qed

lemma agree_write_attribute:
  "filedebug_write_attribute st part buf = (r, st') \<Longrightarrow> agree pos st \<Longrightarrow> agree pos st'"
  using write_attribute_here [of 0 st part buf] by (simp add: filedebug_write_attribute_def agree_def)

lemma bookkeeping_simps [simp]:
  "position (set_append_here dev) = position dev" "backend_data (set_append_here dev) = backend_data dev"
  "position (set_space_here sp dev) = position dev" "backend_data (set_space_here sp dev) = backend_data dev"
  "position (tape_capacity_forget dev) = position dev" "backend_data (tape_capacity_forget dev) = backend_data dev"
  by (simp_all add: set_append_here_def set_space_here_def tape_capacity_forget_def)

text \<open>
  A backend that reports every movement of its head, in calls that fail as well, and does not ask for
  keys: the device that remembers the reports always agrees with it.
\<close>

locale reporting_backend =
  fixes ops :: "'s tape_ops" and dops :: "'s drive_ops" and agr :: "tc_position \<Rightarrow> 's \<Rightarrow> bool"
  assumes rewind_reports: "op_rewind ops s pos = (r, pos', s') \<Longrightarrow> agr pos s \<Longrightarrow> agr pos' s'"
    and locate_reports: "op_locate ops s dest pos = (r, pos', s') \<Longrightarrow> agr pos s \<Longrightarrow> agr pos' s'"
    and read_reports: "op_read ops s buf n pos u = (r', buf', pos', s') \<Longrightarrow> agr pos s \<Longrightarrow> agr pos' s'"
    and read_needs_no_key: "op_read ops s buf n pos u = (Inl e, buf', pos', s') \<Longrightarrow> e \<noteq> EDEV_CRYPTO_ERROR \<and> e \<noteq> EDEV_KEY_REQUIRED"
    and write_reports: "op_write ops s d pos = (r', pos', s') \<Longrightarrow> agr pos s \<Longrightarrow> agr pos' s'"
    and writefm_reports: "op_writefm ops s n pos immed = (r, pos', s') \<Longrightarrow> agr pos s \<Longrightarrow> agr pos' s'"
    and space_reports: "op_space ops s n type pos = (r, pos', s') \<Longrightarrow> agr pos s \<Longrightarrow> type \<noteq> TC_SPACE_EOD \<Longrightarrow> agr pos' s'"
    and erase_reports: "op_erase ops s pos long = (r, pos', s') \<Longrightarrow> agr pos s \<Longrightarrow> agr pos' s'"
    and readpos_reports: "op_readpos ops s pos = (r, pos', s') \<Longrightarrow> agr pos s \<Longrightarrow> agr pos' s'"
    and format_reports: "op_format ops s fmt = (r, s') \<Longrightarrow> agr pos s \<Longrightarrow> agr pos s'"
    and attribute_reports: "op_write_attribute ops s part buf' = (r, s') \<Longrightarrow> agr pos s \<Longrightarrow> agr pos s'"
    and compression_reports: "op_set_compression dops s c pos = (r, pos', s') \<Longrightarrow> agr pos s \<Longrightarrow> agr pos' s'"
begin

lemmas reports = rewind_reports locate_reports read_reports write_reports writefm_reports space_reports
  erase_reports readpos_reports format_reports attribute_reports compression_reports

abbreviation tracks :: "'s device_data \<Rightarrow> bool" where
  "tracks dev \<equiv> agr (position dev) (backend_data dev)"

lemma tracks_seek: "tracks dev \<Longrightarrow> tracks (snd (tape_seek ops now dev pos))"
  by (auto simp: tape_seek_def Let_def split: prod.split sum.split intro: locate_reports)

lemma tracks_read: "tracks dev \<Longrightarrow> tracks (snd (snd (tape_read ops rekey now dev buf n u)))"
proof -
  assume t: "tracks dev"
  obtain r buf' pos' s' where rd: "op_read ops (backend_data dev) buf n (position dev) u = (r, buf', pos', s')"
    by (metis prod.exhaust)
  moreover have "r \<noteq> Inl EDEV_CRYPTO_ERROR" "r \<noteq> Inl EDEV_KEY_REQUIRED"
    using read_needs_no_key [of "backend_data dev" buf n "position dev" u _ buf' pos' s'] rd by blast+
  ultimately show ?thesis
    using read_reports [OF rd t] by (auto simp: tape_read_def Let_def split: sum.split)
qed

lemma tracks_write: "tracks dev \<Longrightarrow> tracks (snd (tape_write ops now dev buf il ins))"
proof (cases "write_refused dev il ins")
  case None
  assume t: "tracks dev"
  obtain r pos' s' where wr: "op_write ops (backend_data dev) buf (position dev) = (r, pos', s')"
    by (metis prod.exhaust)
  note t' = write_reports [OF wr t]
  show ?thesis
    unfolding tape_write_def None option.case wr Let_def prod.case
    by (cases r) (simp_all add: t t')
qed (simp add: tape_write_def)

lemma tracks_write_filemark: "tracks dev \<Longrightarrow> tracks (snd (tape_write_filemark ops now dev n il ins immed))"
proof (cases "write_refused dev il ins")
  case None
  assume t: "tracks dev"
  obtain r pos' s' where wr: "op_writefm ops (backend_data dev) n (position dev) immed = (r, pos', s')"
    by (metis prod.exhaust)
  obtain r2 pos2 s2 where fl: "op_writefm ops s' 0 pos' False = (r2, pos2, s2)" by (metis prod.exhaust)
  note t1 = writefm_reports [OF wr t]
  note t2 = writefm_reports [OF fl t1]
  show ?thesis
    unfolding tape_write_filemark_def None option.case wr Let_def prod.case
    by (cases r; cases r2; cases "immed \<or> n = 0"; cases "n = 0") (simp_all add: fl t1 t2)
qed (simp add: tape_write_filemark_def)

lemma tracks_rewind: "tracks dev \<Longrightarrow> tracks (snd (tape_rewind ops now dev))"
  by (auto simp: tape_rewind_def Let_def split: prod.split sum.split intro: rewind_reports)

lemma tracks_seek_eod: "tracks dev \<Longrightarrow> tracks (snd (tape_seek_eod ops now dev part))"
  by (auto simp: tape_seek_eod_def Let_def split: prod.split sum.split intro: locate_reports)

lemma tracks_seek_append: "tracks dev \<Longrightarrow> tracks (snd (tape_seek_append_position ops now dev part unlock))"
  by (rule seek_append_form [of ops now dev part unlock]) (simp add: tracks_seek)

lemma tracks_readpos:
  "tracks dev \<Longrightarrow> tracks (snd (tape_update_position ops dev))"
  "tracks dev \<Longrightarrow> tracks (snd (snd (tape_get_first_untransfered_position ops dev pos)))"
  by (auto simp: tape_update_position_def tape_get_first_untransfered_position_def Let_def
      split: prod.split sum.split intro: readpos_reports)

lemma tracks_spacefm: "tracks dev \<Longrightarrow> tracks (snd (tape_spacefm ops now dev count))"
  by (auto simp: tape_spacefm_def Let_def split: prod.split sum.split if_split_asm intro: space_reports)

lemma tracks_erase: "tracks dev \<Longrightarrow> tracks (snd (tape_erase ops now dev long))"
  by (auto simp: tape_erase_def tape_capacity_forget_def Let_def split: prod.split sum.split intro: erase_reports)

lemma tracks_unformat: "tracks dev \<Longrightarrow> tracks (snd (tape_unformat_hard ops dev))"
proof -
  assume t: "tracks dev"
  obtain r pos' s' where lo: "op_locate ops (backend_data dev) (seek_pos 0 0) (position dev) = (r, pos', s')"
    by (metis prod.exhaust)
  obtain r2 s2 where fm: "op_format ops s' TC_FORMAT_DEFAULT = (r2, s2)" by (rule prod.exhaust)
  note t1 = locate_reports [OF lo t]
  show ?thesis
    using t1 format_reports [OF fm t1]
    by (auto simp: tape_unformat_hard_def tape_capacity_forget_def lo fm Let_def split: sum.split)
qed

lemma tracks_capacity: "tracks dev \<Longrightarrow> tracks (snd (snd (tape_get_capacity ops now dev cap)))"
  by (auto simp: tape_get_capacity_def split: prod.split sum.split)

lemma tracks_set_append:
  "tracks dev \<Longrightarrow> tracks (snd (tape_set_append_position dev part blk))"
  "tracks dev \<Longrightarrow> tracks (snd (tape_set_ip_append_position ops dev part blk))"
  by (simp_all add: tape_set_append_position_def tape_set_ip_append_position_def)

lemma tracks_coherency: "tracks dev \<Longrightarrow> tracks (snd (tape_set_cart_coherency ops dev part coh))"
  by (auto simp: tape_set_cart_coherency_def split: prod.split intro: attribute_reports)

lemma tracks_flags:
  "tracks dev \<Longrightarrow> tracks (tape_force_read_only dev)" "tracks dev \<Longrightarrow> tracks (tape_start_fence dev)"
  "tracks dev \<Longrightarrow> tracks (tape_release_fence dev)"
  by (simp_all add: tape_force_read_only_def tape_start_fence_def tape_release_fence_def)

lemma tracks_index:
  "tracks dev \<Longrightarrow> tracks (snd (tape_locate_next_index ops now dev))"
  "tracks dev \<Longrightarrow> tracks (snd (tape_locate_previous_index ops now dev))"
  "tracks dev \<Longrightarrow> tracks (snd (tape_locate_first_index ops now dev part))"
  "tracks dev \<Longrightarrow> tracks (snd (tape_locate_last_index ops now dev part))"
  unfolding tape_locate_next_index_def tape_locate_previous_index_def tape_locate_first_index_def
    tape_locate_last_index_def
  by (simp_all add: and_then_snd tracks_spacefm tracks_seek tracks_seek_eod)

lemma tracks_modes:
  "tracks dev \<Longrightarrow> tracks (snd (tape_test_unit_ready dops now dev))"
  "tracks dev \<Longrightarrow> tracks (snd (tape_set_compression dops dev c))"
  by (auto simp: tape_test_unit_ready_def tape_set_compression_def split: sum.split prod.split intro: compression_reports)

lemmas tracks_ops = tracks_rewind tracks_seek tracks_seek_eod tracks_seek_append tracks_readpos tracks_spacefm
  tracks_write tracks_write_filemark tracks_read tracks_erase tracks_unformat tracks_capacity tracks_set_append
  tracks_coherency tracks_flags tracks_index tracks_modes

lemma tracks_step: "device_step ops dops dev dev' \<Longrightarrow> tracks dev \<Longrightarrow> tracks dev'"
  by (erule device_step.cases; simp only:; rule tracks_ops; assumption)

lemma tracks_steps: "(device_step ops dops)\<^sup>*\<^sup>* dev dev' \<Longrightarrow> tracks dev \<Longrightarrow> tracks dev'"
  by (erule steps_invariant [where I = tracks]) (auto intro: tracks_step)

end

lemma check_file_error: "filedebug_check_file st f = Inl e \<Longrightarrow> e = EDEV_RW_PERM"
  by (auto simp: filedebug_check_file_def split: if_splits)

lemma read_files_no_key:
  "filedebug_read_files st buf n pos = (Inl e, buf', pos', st') \<Longrightarrow> e \<noteq> EDEV_CRYPTO_ERROR \<and> e \<noteq> EDEV_KEY_REQUIRED"
  unfolding filedebug_read_files_def Let_def
  by (auto split: if_splits sum.splits bool.splits dest: check_file_error)

lemma read_no_key:
  assumes "filedebug_read st buf n pos u = (Inl e, buf', pos', st')"
  shows "e \<noteq> EDEV_CRYPTO_ERROR \<and> e \<noteq> EDEV_KEY_REQUIRED"
proof -
  define st0 where "st0 = (if force_readperm st \<noteq> 0 then st\<lparr>read_counter := u64 (read_counter st + 1)\<rparr> else st)"
  have "filedebug_read_files st0 buf n pos = (Inl e, buf', pos', st') \<Longrightarrow> ?thesis"
    by (rule read_files_no_key)
  then show ?thesis
    using assms unfolding filedebug_read_def st0_def [symmetric] Let_def by (auto split: if_splits)
qed

lemma filedebug_ops_moves:
  "op_rewind (filedebug_ops ro junk) = filedebug_rewind"
  "op_space (filedebug_ops ro junk) = filedebug_space"
  "op_erase (filedebug_ops ro junk) = filedebug_erase"
  "op_readpos (filedebug_ops ro junk) = filedebug_readpos"
  "op_format (filedebug_ops ro junk) = filedebug_format junk"
  by (simp_all add: filedebug_ops_def)

interpretation fdr: reporting_backend "filedebug_ops ro junk" "filedebug_drive_ops insert_tape junk" agree
  by (unfold_locales, unfold filedebug_ops_sel filedebug_ops_moves, erule (1) agree_rewind, erule (1) agree_locate,
      erule (1) agree_read, erule read_no_key, erule (1) agree_write, erule (1) agree_writefm,
      erule (2) agree_space, erule (1) agree_erase, erule (1) agree_readpos, erule (1) agree_format,
      erule (1) agree_write_attribute, unfold filedebug_drive_ops_def drive_ops.simps, erule (1) agree_set_compression)

lemma reset_rewinds:
  fixes insert_tape junk
  assumes "ready (backend_data dev)"
  defines "dev' \<equiv> snd (tape_reset_capacity (filedebug_drive_ops insert_tape junk) dev)"
  shows "position dev' = position dev" "cur_part (backend_data dev') = 0" "cur_block (backend_data dev') = 0"
    "cur_filemarks (backend_data dev') = 0"
  using assms(1)
  by (simp_all add: dev'_def tape_reset_capacity_def filedebug_drive_ops_def filedebug_load_def filedebug_setcap_def
      erase_all_here set_cur_part_def set_cur_block_def set_cur_filemarks_def)



section \<open>The file backend is a tape\<close>

text \<open>C8.  A directory in working order answers every legal sequence of locate, read, write and filemark
  commands exactly like the abstract tape it stands for, and stands for the abstract tape's result
  afterwards.\<close>

theorem filedebug_refines_tape:
  assumes "fd_good st" "cmds_legal (max_block_size st) cs (fd_tape st, fd_at st)"
    and "tape_cmds cs (fd_tape st, fd_at st) = (answers, t)"
  shows "\<exists>pos' st'. backend_cmds (filedebug_ops ro junk) cs (pos, st) = (answers, pos', st') \<and>
    fd_good st' \<and> (fd_tape st', fd_at st') = t"
  using filedebug.cmds_simulate [of st "(fd_tape st, fd_at st)" cs ro junk pos] assms
  by (auto simp: filedebug.stands_for_def)

theorem filedebug_refines_tape_witness:
  "\<exists>pos' st'. backend_cmds fd_ops
      [Cmd_locate 1 0, Cmd_write [7, 8], Cmd_filemarks 1, Cmd_locate 1 0, Cmd_read 4, Cmd_read 4, Cmd_read 4]
      (seek_pos 0 0, fd_blank) =
    ([Ans_at 1 0, Ans_written 2, Ans_done, Ans_at 1 0, Ans_data [7, 8], Ans_data [], Ans_error EDEV_EOD_DETECTED], pos', st') \<and>
    fd_good st' \<and> (fd_tape st', fd_at st') = ((\<lambda>_. [])(1 := [Data [7, 8], Filemark]), 1, 2)"
  by (rule filedebug_refines_tape [OF fd_good_blank])
    (simp_all add: blank_tape TAPE_BLOCK_MAX_def two64_def numeral_2_eq_2)

end
