(* ===== verification/FileTapeProps.thy ===== *)
theory FileTapeProps
  imports FileVolume
begin

text \<open>
  More of the file backend: spacing over filemarks ends and stops where it should, the search for the
  end of data recovers the tape from its directory, the cartridge memory keeps what is stored, and the
  warning flag that a locate does not clear.
\<close>

section \<open>Spacing ends\<close>

lemma check_file_defined: "filedebug_check_file st f \<noteq> Inl C_UNDEFINED"
  by (simp add: filedebug_check_file_def)

lemma space_back_ends:
  "cur_block st < fuel \<Longrightarrow> fst (space_fm_loop fuel st n count True) \<noteq> Inl C_UNDEFINED"
  "cur_block st < fuel \<Longrightarrow> fst (space_rec_loop fuel st n count True) \<noteq> Inl C_UNDEFINED"
  using check_file_defined
  by (induction fuel arbitrary: st n)
    (auto simp: Let_def set_cur_block_def split: sum.split)

text \<open>Forwards the distance to the end of data shrinks, wrap-around included.\<close>

lemma distance_step:
  assumes "a < two64" "b < two64" "a \<noteq> b"
  shows "u64_sub b a = Suc (u64_sub b (u64 (a + 1)))"
proof -
  have "int (u64_sub b a) = (int b - int a) mod int two64"
    using assms by (simp add: u64_sub_int)
  moreover have "u64 (a + 1) \<le> two64" using u64_less [of "a + 1"] by (rule less_imp_le)
  then have "int (u64_sub b (u64 (a + 1))) = (int b - int (u64 (a + 1))) mod int two64"
    by (rule u64_sub_int)
  moreover have "(int b - int (u64 (a + 1))) mod int two64 = (int b - int a - 1) mod int two64"
    by (simp add: u64_def of_nat_mod mod_diff_right_eq algebra_simps)
  moreover have "(int b - int a) mod int two64 = (int b - int a - 1) mod int two64 + 1"
  proof (cases "a < b")
    case True
    then show ?thesis using assms by (simp add: mod_pos_pos_trivial)
  next
    case False
    have "(int b - int a + int two64) mod int two64 = int b - int a + int two64"
      using False assms by (intro mod_pos_pos_trivial) auto
    moreover have "(int b - int a - 1 + int two64) mod int two64 = int b - int a - 1 + int two64"
      using False assms by (intro mod_pos_pos_trivial) auto
    ultimately show ?thesis by simp
  qed
  ultimately show ?thesis by linarith
qed

lemma next_block_simps [simp]:
  "cur_block (next_block st) = u64 (cur_block st + 1)" "cur_part (next_block st) = cur_part st"
  "eod (next_block st) = eod st" "last_block (next_block st) = last_block st"
  by (simp_all add: next_block_def set_cur_block_def)

lemma space_fm_forward_ends:
  assumes "eod st (cur_part st) < two64" "cur_block st < two64" "u64_sub (eod st (cur_part st)) (cur_block st) < fuel"
  shows "fst (space_fm_loop fuel st n count False) \<noteq> Inl C_UNDEFINED"
  using assms
proof (induction fuel arbitrary: st n)
  case (Suc fuel)
  show ?case
  proof (cases "cur_block st = eod st (cur_part st)")
    case False
    with distance_step [of "cur_block st" "eod st (cur_part st)"] Suc.prems
    have "fst (space_fm_loop fuel (next_block st) m count False) \<noteq> Inl C_UNDEFINED" for m
      by (intro Suc.IH) simp_all
    then show ?thesis by (auto simp: Let_def check_file_defined split: sum.split)
  qed simp
qed simp

lemma space_rec_forward_ends:
  assumes "eod st (cur_part st) < two64" "cur_block st < two64" "u64_sub (eod st (cur_part st)) (cur_block st) < fuel"
  shows "fst (space_rec_loop fuel st n count False) \<noteq> Inl C_UNDEFINED"
  using assms
proof (induction fuel arbitrary: st n)
  case (Suc fuel)
  show ?case
  proof (cases "cur_block st = eod st (cur_part st)")
    case False
    with distance_step [of "cur_block st" "eod st (cur_part st)"] Suc.prems
    have "fst (space_rec_loop fuel (next_block st) m count False) \<noteq> Inl C_UNDEFINED" for m
      by (intro Suc.IH) simp_all
    then show ?thesis by (auto simp: Let_def check_file_defined split: sum.split)
  qed simp
qed simp

lemma count_fm_defined: "filedebug_count_fm st p n \<noteq> Inl C_UNDEFINED"
  by (induction n) (auto simp: Let_def split: sum.split)

lemma settle_defined: "ret \<noteq> Inl C_UNDEFINED \<Longrightarrow> fst (filedebug_settle ret st pos) \<noteq> Inl C_UNDEFINED"
  using count_fm_defined [of st "cur_part st" "cur_block st"]
  by (auto simp: filedebug_settle_def Let_def split: sum.split)

text \<open>C12.  Spacing ends from every state of the emulator, over filemarks and records, in both directions:
  the number of rounds is bounded by the distance to the end of data or to the beginning of the
  partition.\<close>

theorem space_ends:
  assumes "cur_block st < two64" "eod st (cur_part st) < two64"
  shows "fst (filedebug_space st count type pos) \<noteq> Inl C_UNDEFINED"
proof -
  have "fst (filedebug_space_fm st count bk) \<noteq> Inl C_UNDEFINED" for bk
    using space_back_ends(1) space_fm_forward_ends [OF assms(2,1) lessI]
    by (simp add: filedebug_space_fm_def space_fuel_def Let_def del: space_fm_loop.simps)
  moreover have "fst (filedebug_space_rec st count bk) \<noteq> Inl C_UNDEFINED" for bk
    using space_back_ends(2) space_rec_forward_ends [OF assms(2,1) lessI]
    by (simp add: filedebug_space_rec_def space_fuel_def del: space_rec_loop.simps)
  ultimately have "fst (case type of TC_SPACE_FM_F \<Rightarrow> filedebug_space_fm st count False
      | TC_SPACE_FM_B \<Rightarrow> filedebug_space_fm st count True
      | TC_SPACE_F \<Rightarrow> filedebug_space_rec st count False
      | _ \<Rightarrow> filedebug_space_rec st count True) \<noteq> Inl C_UNDEFINED"
    by (cases type) simp_all
  then show ?thesis
    unfolding filedebug_space_def Let_def by (simp add: settle_defined case_prod_unfold)
qed

theorem space_ends_witness:
  "fst (filedebug_space fd_blank 5 TC_SPACE_FM_F (seek_pos 0 0)) \<noteq> Inl C_UNDEFINED"
  by (rule space_ends) (simp_all add: fd_blank_def fd_empty_def)

section \<open>Where spacing stops\<close>

definition filemarks_from :: "filedebug_data \<Rightarrow> nat \<Rightarrow> nat \<Rightarrow> nat list" where
  "filemarks_from st p b = filter (\<lambda>i. fd_tape st p ! i = Filemark) [b..<length (fd_tape st p)]"

lemma filemarks_from_step:
  "b < eod st p \<Longrightarrow> filemarks_from st p b =
    (if rec_at st p b = Filemark then b # filemarks_from st p (b + 1) else filemarks_from st p (b + 1))"
  by (simp add: filemarks_from_def upt_rec [of b])

lemma filemarks_from_end [simp]: "filemarks_from st p (eod st p) = []"
  by (simp add: filemarks_from_def)

lemma set_cur_block_simps [simp]:
  "cur_block (set_cur_block b st) = b" "cur_part (set_cur_block b st) = cur_part st"
  "eod (set_cur_block b st) = eod st" "last_block (set_cur_block b st) = last_block st"
  "set_cur_block b (set_cur_block b' st) = set_cur_block b st"
  "set_cur_block b (next_block st) = set_cur_block b st"
  "set_cur_block (cur_block st) st = st"
  "filemarks_from (set_cur_block b st) = filemarks_from st" "no_fail (set_cur_block b st) = no_fail st"
  "fd_partition (set_cur_block b st) = fd_partition st" "recs (set_cur_block b st) = recs st"
  by (simp_all add: set_cur_block_def next_block_def filemarks_from_def fd_partition_def fun_eq_iff)

lemma next_block_small: "cur_block st + 1 < two64 \<Longrightarrow> next_block st = set_cur_block (cur_block st + 1) st"
  by (simp add: next_block_def u64_id)

lemma filemark_file:
  "fd_partition st p \<Longrightarrow> b < eod st p \<Longrightarrow>
   files st (filedebug_make_filename st p b (CHR ''F'')) \<noteq> None \<longleftrightarrow> rec_at st p b = Filemark"
  by (auto simp: fd_partition_def rec_at_def recs_def split: option.split)

lemma space_fm_loop_stops:
  assumes "no_fail st" "fd_partition st p" "cur_part st = p" "cur_block st \<le> eod st p"
    "u64 (last_block st p + 1) = eod st p" "eod st p - cur_block st < fuel" "n < count" "count < two64"
  shows "space_fm_loop fuel st n count False =
    (let fms = filemarks_from st p (cur_block st) in
     if count - n \<le> length fms then (Inr (), set_cur_block (fms ! (count - n - 1) + 1) st)
     else (Inl EDEV_EOD_DETECTED, set_cur_block (eod st p) st))"
  using assms
proof (induction fuel arbitrary: st n)
  case (Suc fuel)
  let ?b = "cur_block st" and ?fms = "filemarks_from st p (cur_block st)"
  show ?case
  proof (cases "?b = eod st p")
    case True
    then have "set_cur_block (eod st p) st = st" using set_cur_block_simps(7) [of st] by simp
    with True show ?thesis using Suc.prems(3,7) by simp
  next
    case False
    then have lt: "?b < eod st p" using Suc.prems(4) by simp
    have "eod st p < MISSING_EOD" using Suc.prems(2) by (simp add: fd_partition_def)
    then have nx: "next_block st = set_cur_block (?b + 1) st"
      using lt by (intro next_block_small) (simp add: MISSING_EOD_def)
    have wrap: "u64 (n + 1) = n + 1" using Suc.prems(7,8) by (simp add: u64_id)
    note ih = Suc.IH [of "set_cur_block (?b + 1) st"]
    show ?thesis
    proof (cases "rec_at st p ?b = Filemark")
      case fm: True
      then have fms: "?fms = ?b # filemarks_from st p (?b + 1)" using lt by (simp add: filemarks_from_step)
      show ?thesis
      proof (cases "n + 1 = count")
        case True
        then show ?thesis
          using Suc.prems lt fm nx wrap fms filemark_file [OF Suc.prems(2) lt] by (simp add: Let_def)
      next
        case False
        then have "space_fm_loop (Suc fuel) st n count False = space_fm_loop fuel (set_cur_block (?b + 1) st) (n + 1) count False"
          using Suc.prems lt fm nx wrap filemark_file [OF Suc.prems(2) lt] by (simp add: Let_def)
        also have "\<dots> = (let fms = filemarks_from st p (?b + 1) in
            if count - (n + 1) \<le> length fms then (Inr (), set_cur_block (fms ! (count - (n + 1) - 1) + 1) st)
            else (Inl EDEV_EOD_DETECTED, set_cur_block (eod st p) st))"
          using Suc.prems lt False by (subst ih) (auto simp: Let_def)
        also have "\<dots> = (if count - n \<le> length ?fms then (Inr (), set_cur_block (?fms ! (count - n - 1) + 1) st)
            else (Inl EDEV_EOD_DETECTED, set_cur_block (eod st p) st))"
          using False Suc.prems(7) unfolding fms by (auto simp: Let_def nth_Cons')
        finally show ?thesis by (simp add: Let_def)
      qed
    next
      case fm: False
      then have fms: "?fms = filemarks_from st p (?b + 1)" using lt by (simp add: filemarks_from_step)
      have "space_fm_loop (Suc fuel) st n count False = space_fm_loop fuel (set_cur_block (?b + 1) st) n count False"
        using Suc.prems lt fm nx filemark_file [OF Suc.prems(2) lt] by (simp add: Let_def)
      also have "\<dots> = (let fms = filemarks_from st p (?b + 1) in
          if count - n \<le> length fms then (Inr (), set_cur_block (fms ! (count - n - 1) + 1) st)
          else (Inl EDEV_EOD_DETECTED, set_cur_block (eod st p) st))"
        using Suc.prems lt by (subst ih) (auto simp: Let_def)
      finally show ?thesis unfolding fms .
    qed
  qed
qed simp

lemma fd_good_set_block:
  "fd_good st \<Longrightarrow> b \<le> eod st (cur_part st) \<Longrightarrow> fd_good (set_cur_block b st)"
  using fd_good_position [of st "cur_part st" b "current_position st"]
  by (simp add: set_cur_block_def fd_good_def)

lemma fd_good_set_filemarks: "fd_good st \<Longrightarrow> fd_good (set_cur_filemarks c st)"
  by (simp add: set_cur_filemarks_def fd_good_def fd_partition_def)

text \<open>C13.  Spacing forward over \<open>count\<close> filemarks stops right behind the \<open>count\<close>-th filemark from the
  current block on; when there are fewer, it stops at the end of data and reports that.\<close>

theorem space_filemarks_stops:
  assumes "fd_good st" "fd_at st = (p, b)" "u64 (last_block st p + 1) = eod st p" "0 < count" "count < two64"
    and "fms = filter (\<lambda>i. fd_tape st p ! i = Filemark) [b..<length (fd_tape st p)]"
  shows "\<exists>pos' st'. filedebug_space st count TC_SPACE_FM_F pos =
      (if count \<le> length fms then Inr () else Inl EDEV_EOD_DETECTED, pos', st') \<and>
    fd_good st' \<and> fd_tape st' = fd_tape st \<and> pos_block pos' = snd (fd_at st') \<and>
    fd_at st' = (p, if count \<le> length fms then fms ! (count - 1) + 1 else length (fd_tape st p))"
proof -
  have pb: "cur_part st = p" "cur_block st = b" using assms(2) by (auto simp: fd_at_def)
  have nf: "no_fail st" and part: "fd_partition st p" and le: "b \<le> eod st p"
    using assms(1) pb by (auto simp: fd_good_def)
  have e: "eod st p < MISSING_EOD" using part by (simp add: fd_partition_def)
  define stop where "stop = (if count \<le> length fms then fms ! (count - 1) + 1 else eod st p)"
  define ret where "ret = (if count \<le> length fms then Inr () else Inl EDEV_EOD_DETECTED :: error + unit)"
  have "eod st p - b < space_fuel st False"
    using le e pb by (simp add: space_fuel_def u64_sub_id MISSING_EOD_def)
  moreover have "cur_block st \<le> eod st p" using le pb by simp
  ultimately have "space_fm_loop (space_fuel st False) st 0 count False =
     (let fms = filemarks_from st p (cur_block st) in
      if count - 0 \<le> length fms then (Inr (), set_cur_block (fms ! (count - 0 - 1) + 1) st)
      else (Inl EDEV_EOD_DETECTED, set_cur_block (eod st p) st))"
    using nf part pb assms(3-5) by (intro space_fm_loop_stops) simp_all
  moreover have "fms = filemarks_from st p (cur_block st)" using pb by (simp add: filemarks_from_def assms(6))
  ultimately have "space_fm_loop (space_fuel st False) st 0 count False = (ret, set_cur_block stop st)"
    unfolding ret_def stop_def Let_def by simp
  then have loop: "filedebug_space_fm st count False = (ret, set_cur_block stop st)"
    using assms(4) by (simp add: filedebug_space_fm_def)
  have "fms ! (count - 1) < eod st p" if "count \<le> length fms"
    using nth_mem [of "count - 1" fms] that assms(4,6) by auto
  then have "stop \<le> eod st p" by (auto simp: stop_def)
  then have g: "fd_good (set_cur_block stop st)" using assms(1) pb by (simp add: fd_good_set_block)
  obtain c where settle: "filedebug_settle ret (set_cur_block stop st) (pos\<lparr>pos_block := stop\<rparr>) =
      (ret, set_programmable_early_warning (set_cur_filemarks c (set_cur_block stop st))
        (set_early_warning (set_cur_filemarks c (set_cur_block stop st)) (pos\<lparr>pos_block := stop, pos_filemarks := c\<rparr>)),
       set_cur_filemarks c (set_cur_block stop st))" (is "_ = (_, ?pos, ?st)")
    using settle_ok [of "set_cur_block stop st" ret "pos\<lparr>pos_block := stop\<rparr>"] nf by auto
  have ok: "ready st" "\<not> unsupported_tape st" "\<not> unsupported_format st" "b \<noteq> MISSING_EOD"
    using assms(1) le e by (auto simp: fd_good_def)
  then have "filedebug_space st count TC_SPACE_FM_F pos = (ret, ?pos, ?st)"
    using loop settle pb by (simp add: filedebug_space_def)
  moreover have "fd_tape ?st = fd_tape st" by (simp add: set_cur_filemarks_def set_cur_block_def)
  moreover have "fd_at ?st = (p, stop)" using pb by (simp add: fd_at_def set_cur_filemarks_def set_cur_block_def)
  moreover have "pos_block ?pos = stop" by simp
  ultimately have "filedebug_space st count TC_SPACE_FM_F pos = (ret, ?pos, ?st) \<and> fd_good ?st \<and>
      fd_tape ?st = fd_tape st \<and> pos_block ?pos = snd (fd_at ?st) \<and> fd_at ?st = (p, stop)"
    using fd_good_set_filemarks [OF g, of c] by simp
  then show ?thesis unfolding ret_def stop_def length_fd_tape by blast
qed

theorem space_filemarks_stops_witness:
  "\<exists>pos' st'. filedebug_space (fd_blank\<lparr>last_block := (\<lambda>_. two64 - 1)\<rparr>) 1 TC_SPACE_FM_F (seek_pos 0 0) =
      (Inl EDEV_EOD_DETECTED, pos', st') \<and> fd_at st' = (0, 0)"
proof -
  let ?st = "fd_blank\<lparr>last_block := (\<lambda>_. two64 - 1)\<rparr>"
  have "fd_good ?st" using fd_good_blank by (simp add: fd_good_def fd_partition_def)
  moreover have tape: "fd_tape ?st = fd_tape fd_blank" "fd_at ?st = (0, 0)"
    by (simp_all add: fd_tape_def rec_at_def fd_at_def fun_eq_iff fd_blank_def fd_empty_def)
  moreover have "u64 (last_block ?st 0 + 1) = eod ?st 0" by (simp add: u64_def two64_def)
  ultimately have "\<exists>pos' st'. filedebug_space ?st 1 TC_SPACE_FM_F (seek_pos 0 0) =
      (if 1 \<le> length ([] :: nat list) then Inr () else Inl EDEV_EOD_DETECTED, pos', st') \<and>
    fd_good st' \<and> fd_tape st' = fd_tape ?st \<and> pos_block pos' = snd (fd_at st') \<and>
    fd_at st' = (0, if 1 \<le> length ([] :: nat list) then [] ! (1 - 1) + 1 else length (fd_tape ?st 0))"
    by (intro space_filemarks_stops [where b = 0]) (simp_all add: two64_def)
  then show ?thesis using tape by auto
qed

section \<open>Recovering the end of data\<close>

lemma search_eod_loop_ok:
  assumes "no_fail st" "cur_part st = p" "cur_block st \<le> n" "n - cur_block st < fuel" "n + 1 < two64"
    and marks: "\<And>b. b < n \<Longrightarrow> recs st p b (CHR ''E'') = None \<and> (recs st p b (CHR ''R'') \<noteq> None \<or> recs st p b (CHR ''F'') \<noteq> None)"
      "recs st p n (CHR ''E'') \<noteq> None"
  shows "search_eod_loop fuel st = (Inr True, set_cur_block (n + 1) st)"
  using assms
proof (induction fuel arbitrary: st)
  case (Suc fuel)
  let ?b = "cur_block st"
  have nx: "next_block st = set_cur_block (?b + 1) st" using Suc.prems(3,5) by (intro next_block_small) simp
  show ?case
  proof (cases "?b = n")
    case True
    then show ?thesis using Suc.prems nx by (simp add: recs_def Let_def)
  next
    case False
    then have lt: "?b < n" using Suc.prems(3) by simp
    have "search_eod_loop (Suc fuel) st = search_eod_loop fuel (set_cur_block (?b + 1) st)"
      using Suc.prems(1,2) Suc.prems(6) [OF lt] nx by (auto simp: recs_def Let_def)
    also have "\<dots> = (Inr True, set_cur_block (n + 1) (set_cur_block (?b + 1) st))"
      using Suc.prems lt by (intro Suc.IH) simp_all
    finally show ?thesis by simp
  qed
qed simp

lemma set_cur_part_simps [simp]:
  "cur_part (set_cur_part p st) = p" "cur_block (set_cur_part p st) = cur_block st"
  "eod (set_cur_part p st) = eod st" "last_block (set_cur_part p st) = last_block st"
  "no_fail (set_cur_part p st) = no_fail st" "recs (set_cur_part p st) = recs st"
  by (simp_all add: set_cur_part_def)

text \<open>C11.  The search for the end of data of a partition, which runs when a cartridge is loaded, finds the
  end of data mark again whatever the emulator remembered of it, and leaves the tape as it was.\<close>

theorem search_eod_recovers:
  assumes "no_fail st" "fd_partition st p"
  shows "\<exists>st'. filedebug_search_eod (st\<lparr>eod := (eod st)(p := e), last_block := l\<rparr>) p = (Inr (), st') \<and>
    eod st' = eod st \<and> last_block st' p = u64_sub (eod st p) 1 \<and> fd_tape st' = fd_tape st \<and> fd_partition st' p"
proof -
  let ?n = "eod st p" and ?st = "st\<lparr>eod := (eod st)(p := e), last_block := l\<rparr>"
  let ?s0 = "set_cur_block 0 (set_cur_part p ?st)" and ?s1 = "set_cur_block (eod st p) (set_cur_part p ?st)"
  have n: "?n < MISSING_EOD" using assms(2) by (simp add: fd_partition_def)
  have "search_eod_loop two64 ?s0 = (Inr True, set_cur_block (?n + 1) ?s0)"
    by (rule search_eod_loop_ok [where p = p])
      (use assms n in \<open>auto simp: fd_partition_def MISSING_EOD_def\<close>)
  moreover have "u64_sub (?n + 1) 1 = ?n" using n by (subst u64_sub_id) (auto simp: MISSING_EOD_def)
  ultimately have se: "filedebug_search_eod ?st p = filedebug_write_eod ?s1"
    by (simp add: filedebug_search_eod_def Let_def)
  have nf: "no_fail ?s1" using assms(1) by simp
  obtain st' fs where w: "filedebug_write_eod ?s1 = (Inr (), st')"
    "st' = ?s1\<lparr>files := fs, last_block := (last_block ?s1)(cur_part ?s1 := u64_sub (cur_block ?s1) 1),
             eod := (eod ?s1)(cur_part ?s1 := cur_block ?s1)\<rparr>"
    "recs st' = (\<lambda>p b t. if p = cur_part ?s1 \<and> b = cur_block ?s1 \<and> t = CHR ''E'' then Some []
       else wipe (cur_part ?s1) {cur_block ?s1..(if eod ?s1 (cur_part ?s1) = MISSING_EOD then cur_block ?s1
         else max (cur_block ?s1) (eod ?s1 (cur_part ?s1)))} (recs ?s1) p b t)"
    using write_eod_ok [OF nf] by blast
  have r: "recs st' q b t = (if q = p \<and> b = ?n \<and> t = CHR ''E'' then Some [] else recs st q b t)" for q b t
    using assms(2) unfolding w(3) by (auto simp: wipe_def fd_partition_def le_less)
  have e: "eod st' = eod st" "last_block st' p = u64_sub ?n 1" unfolding w(2) by simp_all
  have "fd_tape st' q = fd_tape st q" for q
    by (auto simp: fd_tape_def e rec_at_def r)
  moreover have "fd_partition st' p"
    using assms(2) unfolding fd_partition_def e by (auto simp: r)
  ultimately show ?thesis using se w(1) e by auto
qed

theorem search_eod_recovers_witness:
  "\<exists>st'. filedebug_search_eod (fd_blank\<lparr>eod := (eod fd_blank)(1 := 17), last_block := (\<lambda>_. 3)\<rparr>) 1 = (Inr (), st') \<and>
    eod st' 1 = 0 \<and> fd_tape st' = fd_tape fd_blank"
  using search_eod_recovers [where st = fd_blank and p = 1 and e = 17 and l = "\<lambda>_. 3"] fd_good_blank
  by (auto simp: fd_good_def MAX_PARTITIONS_def)

section \<open>Cartridge memory\<close>

lemma make_attrname_inj:
  assumes "dirname st = dirname st'"
  shows "filedebug_make_attrname st p i = filedebug_make_attrname st' p' i' \<longleftrightarrow> p = p' \<and> i = i'"
proof
  assume "filedebug_make_attrname st p i = filedebug_make_attrname st' p' i'"
  then have "print_num 10 p @ CHR ''_'' # print_num 16 i = print_num 10 p' @ CHR ''_'' # print_num 16 i'"
    using assms by (simp add: filedebug_make_attrname_def)
  then show "p = p' \<and> i = i'"
    using split_at_sep [OF print_num_no_sep [of p] print_num_no_sep [of p'], of "print_num 16 i" "print_num 16 i'"] by simp
qed (simp add: filedebug_make_attrname_def assms)

text \<open>The fields of the coherency attribute, one after the other.\<close>

lemma coherency_fields:
  assumes "length (coh_uuid coh) = 37"
  shows "length (coherency_data coh) = 75" "ltfs_betou16 (coherency_data coh) = 0x080C"
    "ltfs_betou16 (drop 3 (coherency_data coh)) = 70" "coherency_data coh ! 5 = 8"
    "drop 6 (coherency_data coh) = ltfs_u64tobe (volume_change_ref coh) @ drop 14 (coherency_data coh)"
    "drop 14 (coherency_data coh) = ltfs_u64tobe (coh_count coh) @ drop 22 (coherency_data coh)"
    "drop 22 (coherency_data coh) = ltfs_u64tobe (set_id coh) @ drop 30 (coherency_data coh)"
    "drop 30 (coherency_data coh) = [0, 43, 76, 84, 70, 83, 0] @ coh_uuid coh @ [coh_version coh]"
proof -
  note d = coherency_data_def
  show "length (coherency_data coh) = 75" using assms by (simp add: d)
  show "ltfs_betou16 (coherency_data coh) = 0x080C" unfolding d by (rule betou16_u16tobe) simp
  have "drop 3 (coherency_data coh) = ltfs_u16tobe 70 @ drop 5 (coherency_data coh)" by (simp add: d)
  then show "ltfs_betou16 (drop 3 (coherency_data coh)) = 70" by (simp add: betou16_u16tobe)
  show "coherency_data coh ! 5 = 8" by (simp add: d nth_append)
  show "drop 6 (coherency_data coh) = ltfs_u64tobe (volume_change_ref coh) @ drop 14 (coherency_data coh)"
    "drop 14 (coherency_data coh) = ltfs_u64tobe (coh_count coh) @ drop 22 (coherency_data coh)"
    "drop 22 (coherency_data coh) = ltfs_u64tobe (set_id coh) @ drop 30 (coherency_data coh)"
    "drop 30 (coherency_data coh) = [0, 43, 76, 84, 70, 83, 0] @ coh_uuid coh @ [coh_version coh]"
    by (simp_all add: d)
qed

definition coherency_ok :: "tc_coherency \<Rightarrow> bool" where
  "coherency_ok coh \<longleftrightarrow> length (coh_uuid coh) = 37 \<and> volume_change_ref coh < two64 \<and> coh_count coh < two64 \<and> set_id coh < two64"

lemma coherency_decode:
  assumes "coherency_ok coh" "op_read_attribute ops (backend_data dev) part 0x080C junk = (Inr (), coherency_data coh)"
  shows "tape_get_cart_coherency ops junk dev part = Inr coh"
proof -
  let ?c = "coherency_data coh"
  note f = coherency_fields [of coh]
  have u: "length (coh_uuid coh) = 37" using assms(1) by (simp add: coherency_ok_def)
  have "ltfs_betou16 (drop 30 ?c) = 43" "take 5 (drop 32 ?c) = [76, 84, 70, 83, 0]"
    "take 37 (drop 37 ?c) = coh_uuid coh" "?c ! 74 = coh_version coh"
  proof -
    show "ltfs_betou16 (drop 30 ?c) = 43" unfolding f(8) [OF u] by (simp add: ltfs_betou16_def be_value_def)
    have "drop 32 ?c = drop 2 (drop 30 ?c)" by simp
    then show "take 5 (drop 32 ?c) = [76, 84, 70, 83, 0]" unfolding f(8) [OF u] by simp
    have "drop 37 ?c = drop 7 (drop 30 ?c)" by simp
    then show "take 37 (drop 37 ?c) = coh_uuid coh" unfolding f(8) [OF u] using u by simp
    have "?c ! 74 = drop 30 ?c ! 44" using f(1) [OF u] by simp
    then show "?c ! 74 = coh_version coh" unfolding f(8) [OF u] using u by (simp add: nth_append)
  qed
  moreover have "ltfs_betou64 (drop 6 ?c) = volume_change_ref coh" "ltfs_betou64 (drop 14 ?c) = coh_count coh"
    "ltfs_betou64 (drop 22 ?c) = set_id coh"
    using assms(1) unfolding f(5) [OF u] f(6) [OF u] f(7) [OF u]
    by (simp_all add: coherency_ok_def betou64_u64tobe)
  ultimately show ?thesis
    using assms(2) f(2-4) [OF u] by (simp add: tape_get_cart_coherency_def Let_def)
qed

text \<open>C14.  The coherency data that is stored in the cartridge memory of one partition is read back from it
  field by field, and what is stored for the other partition does not change.\<close>

theorem coherency_roundtrip:
  assumes "no_fail (backend_data dev)" "coherency_ok coh" "length junk = 75" "part' \<noteq> part"
  shows "\<exists>dev'. tape_set_cart_coherency (filedebug_ops ro pos) dev part coh = (Inr (), dev') \<and>
    tape_get_cart_coherency (filedebug_ops ro pos) junk dev' part = Inr coh \<and>
    tape_get_cart_coherency (filedebug_ops ro pos) junk dev' part' =
      tape_get_cart_coherency (filedebug_ops ro pos) junk dev part'"
proof -
  let ?st = "backend_data dev" and ?c = "coherency_data coh"
  have u: "length (coh_uuid coh) = 37" using assms(2) by (simp add: coherency_ok_def)
  note f = coherency_fields [OF u]
  have w: "filedebug_write_attribute ?st part ?c =
      (Inr (), set_file (filedebug_make_attrname ?st part 0x080C) (Some ?c) ?st)" (is "_ = (_, ?st')")
    using assms(1) f(1-3) by (intro write_attribute_single [where n = 70]) simp_all
  let ?dev = "dev\<lparr>backend_data := ?st'\<rparr>"
  have a: "filedebug_make_attrname ?st' = filedebug_make_attrname ?st" "no_fail ?st'"
    using assms(1) by (simp_all add: filedebug_make_attrname_def set_file_def fun_eq_iff)
  have "filedebug_read_attribute ?st' part 0x080C junk = (Inr (), ?c)"
    using a assms(3) f(1) by (simp add: filedebug_read_attribute_def set_file_def)
  then have "tape_get_cart_coherency (filedebug_ops ro pos) junk ?dev part = Inr coh"
    by (intro coherency_decode [OF assms(2)]) (simp add: filedebug_ops_sel)
  moreover have "files ?st' (filedebug_make_attrname ?st part' 0x080C) = files ?st (filedebug_make_attrname ?st part' 0x080C)"
    using make_attrname_inj [of ?st ?st] assms(4) by (simp add: set_file_def)
  then have "filedebug_read_attribute ?st' part' 0x080C junk = filedebug_read_attribute ?st part' 0x080C junk"
    using a assms(1) by (simp add: filedebug_read_attribute_def Let_def cong: option.case_cong)
  then have "tape_get_cart_coherency (filedebug_ops ro pos) junk ?dev part' =
      tape_get_cart_coherency (filedebug_ops ro pos) junk dev part'"
    by (simp add: tape_get_cart_coherency_def filedebug_ops_sel)
  ultimately show ?thesis
    using w by (intro exI [of _ ?dev]) (simp add: tape_set_cart_coherency_def filedebug_ops_sel)
qed

theorem coherency_roundtrip_witness:
  "\<exists>dev'. tape_set_cart_coherency fd_ops blank_device 1
      \<lparr>volume_change_ref = 3, coh_count = 2, set_id = 5, coh_uuid = replicate 37 65, coh_version = 1\<rparr> = (Inr (), dev') \<and>
    tape_get_cart_coherency fd_ops (replicate 75 0) dev' 1 =
      Inr \<lparr>volume_change_ref = 3, coh_count = 2, set_id = 5, coh_uuid = replicate 37 65, coh_version = 1\<rparr>"
proof -
  let ?coh = "\<lparr>volume_change_ref = 3, coh_count = 2, set_id = 5, coh_uuid = replicate 37 65, coh_version = 1\<rparr>"
  have "no_fail (backend_data blank_device)" using fd_good_blank by (simp add: fd_good_def blank_device_def)
  moreover have "coherency_ok ?coh" by (simp add: coherency_ok_def two64_def)
  moreover have "length (replicate 75 (0 :: byte)) = 75" "(0 :: nat) \<noteq> 1" by simp_all
  ultimately show ?thesis
    using coherency_roundtrip [of blank_device ?coh "replicate 75 0" 0 1 "\<lambda>_. False" "seek_pos 0 0"] by blast
qed

section \<open>A warning that is not cleared\<close>

lemma settle_keeps_warning:
  "filedebug_settle ret st pos = (r, pos', st') \<Longrightarrow> pos_early_warning pos \<Longrightarrow> pos_early_warning pos'"
  by (auto simp: filedebug_settle_def Let_def set_early_warning_def set_programmable_early_warning_def
      split: sum.splits)

lemma locate_keeps_warning:
  "filedebug_locate st dest pos = (r, pos', st') \<Longrightarrow> pos_early_warning pos \<Longrightarrow> pos_early_warning pos'"
  by (erule locate_settles) (auto elim!: settle_keeps_warning)

text \<open>C39.  Once the device has seen the early warning, a locate to the other partition marks that partition
  as full, however much room it has: the emulator never clears the warning in the position it is
  given, and the device takes it for a warning about the partition it has moved to.\<close>

theorem early_warning_sticks:
  assumes "synced fd_good fd_at dev" "pos_early_warning (position dev)" "pos_partition pos < 2"
    "pos_partition pos \<noteq> pos_partition (position dev)" "pos_block pos \<le> length (fd_tape (backend_data dev) (pos_partition pos))"
  shows "\<exists>dev'. tape_seek (filedebug_ops ro junk) now dev pos = (Inr (), dev') \<and>
    partition_space dev' (pos_partition pos) = PART_NO_SPACE"
proof -
  let ?p = "pos_partition pos" and ?st = "backend_data dev"
  have g: "fd_good ?st" using assms(1) by (simp add: synced_def)
  obtain pos' st' where loc: "filedebug_locate ?st pos (position dev) = (Inr (), pos', st')" "fd_good st'"
      "fd_at st' = (?p, min (pos_block pos) (length (fd_tape ?st ?p)))" "pos_partition pos' = ?p"
      "pos_block pos' = snd (fd_at st')"
    using fd_locate [OF g assms(3), of "position dev"] by blast
  have "pos_early_warning pos'"
    using locate_keeps_warning [OF loc(1)] assms(2) .
  then show ?thesis
    using loc assms(4,5) by (simp add: tape_seek_def filedebug_ops_sel note_warnings_def Let_def)
qed

theorem early_warning_sticks_witness:
  "\<exists>dev'. tape_seek fd_ops (0, 0) (blank_device\<lparr>position := (seek_pos 0 0)\<lparr>pos_early_warning := True\<rparr>\<rparr>) (seek_pos 1 0) =
      (Inr (), dev') \<and> partition_space dev' 1 = PART_NO_SPACE"
  using early_warning_sticks [of "blank_device\<lparr>position := (seek_pos 0 0)\<lparr>pos_early_warning := True\<rparr>\<rparr>" "seek_pos 1 0"
      "\<lambda>_. False" "seek_pos 0 0" "(0, 0)"] fd_good_blank
  by (simp add: synced_def blank_device_def)

end
