(* ===== verification/Crc.thy ===== *)
theory Crc
  imports Endian
begin

text \<open>
  The checksum CRC-32C of logical block protection, \<open>src/src/tape_drivers/crc32c_crc.c\<close>.

  The table is that of the source.  It is compared with the shift register it stands for, bit by bit.  The
  locale \<open>register_code\<close> collects what the two checksums of block protection have in common, among it
  that they detect every change of up to four neighbouring bytes.
\<close>

type_synonym reg32 = "32 word"

section \<open>CRC-32C\<close>

definition crc32c_table :: "reg32 list" where
  "crc32c_table = [
     0x00000000, 0xF26B8303, 0xE13B70F7, 0x1350F3F4, 0xC79A971F, 0x35F1141C, 0x26A1E7E8, 0xD4CA64EB,
     0x8AD958CF, 0x78B2DBCC, 0x6BE22838, 0x9989AB3B, 0x4D43CFD0, 0xBF284CD3, 0xAC78BF27, 0x5E133C24,
     0x105EC76F, 0xE235446C, 0xF165B798, 0x030E349B, 0xD7C45070, 0x25AFD373, 0x36FF2087, 0xC494A384,
     0x9A879FA0, 0x68EC1CA3, 0x7BBCEF57, 0x89D76C54, 0x5D1D08BF, 0xAF768BBC, 0xBC267848, 0x4E4DFB4B,
     0x20BD8EDE, 0xD2D60DDD, 0xC186FE29, 0x33ED7D2A, 0xE72719C1, 0x154C9AC2, 0x061C6936, 0xF477EA35,
     0xAA64D611, 0x580F5512, 0x4B5FA6E6, 0xB93425E5, 0x6DFE410E, 0x9F95C20D, 0x8CC531F9, 0x7EAEB2FA,
     0x30E349B1, 0xC288CAB2, 0xD1D83946, 0x23B3BA45, 0xF779DEAE, 0x05125DAD, 0x1642AE59, 0xE4292D5A,
     0xBA3A117E, 0x4851927D, 0x5B016189, 0xA96AE28A, 0x7DA08661, 0x8FCB0562, 0x9C9BF696, 0x6EF07595,
     0x417B1DBC, 0xB3109EBF, 0xA0406D4B, 0x522BEE48, 0x86E18AA3, 0x748A09A0, 0x67DAFA54, 0x95B17957,
     0xCBA24573, 0x39C9C670, 0x2A993584, 0xD8F2B687, 0x0C38D26C, 0xFE53516F, 0xED03A29B, 0x1F682198,
     0x5125DAD3, 0xA34E59D0, 0xB01EAA24, 0x42752927, 0x96BF4DCC, 0x64D4CECF, 0x77843D3B, 0x85EFBE38,
     0xDBFC821C, 0x2997011F, 0x3AC7F2EB, 0xC8AC71E8, 0x1C661503, 0xEE0D9600, 0xFD5D65F4, 0x0F36E6F7,
     0x61C69362, 0x93AD1061, 0x80FDE395, 0x72966096, 0xA65C047D, 0x5437877E, 0x4767748A, 0xB50CF789,
     0xEB1FCBAD, 0x197448AE, 0x0A24BB5A, 0xF84F3859, 0x2C855CB2, 0xDEEEDFB1, 0xCDBE2C45, 0x3FD5AF46,
     0x7198540D, 0x83F3D70E, 0x90A324FA, 0x62C8A7F9, 0xB602C312, 0x44694011, 0x5739B3E5, 0xA55230E6,
     0xFB410CC2, 0x092A8FC1, 0x1A7A7C35, 0xE811FF36, 0x3CDB9BDD, 0xCEB018DE, 0xDDE0EB2A, 0x2F8B6829,
     0x82F63B78, 0x709DB87B, 0x63CD4B8F, 0x91A6C88C, 0x456CAC67, 0xB7072F64, 0xA457DC90, 0x563C5F93,
     0x082F63B7, 0xFA44E0B4, 0xE9141340, 0x1B7F9043, 0xCFB5F4A8, 0x3DDE77AB, 0x2E8E845F, 0xDCE5075C,
     0x92A8FC17, 0x60C37F14, 0x73938CE0, 0x81F80FE3, 0x55326B08, 0xA759E80B, 0xB4091BFF, 0x466298FC,
     0x1871A4D8, 0xEA1A27DB, 0xF94AD42F, 0x0B21572C, 0xDFEB33C7, 0x2D80B0C4, 0x3ED04330, 0xCCBBC033,
     0xA24BB5A6, 0x502036A5, 0x4370C551, 0xB11B4652, 0x65D122B9, 0x97BAA1BA, 0x84EA524E, 0x7681D14D,
     0x2892ED69, 0xDAF96E6A, 0xC9A99D9E, 0x3BC21E9D, 0xEF087A76, 0x1D63F975, 0x0E330A81, 0xFC588982,
     0xB21572C9, 0x407EF1CA, 0x532E023E, 0xA145813D, 0x758FE5D6, 0x87E466D5, 0x94B49521, 0x66DF1622,
     0x38CC2A06, 0xCAA7A905, 0xD9F75AF1, 0x2B9CD9F2, 0xFF56BD19, 0x0D3D3E1A, 0x1E6DCDEE, 0xEC064EED,
     0xC38D26C4, 0x31E6A5C7, 0x22B65633, 0xD0DDD530, 0x0417B1DB, 0xF67C32D8, 0xE52CC12C, 0x1747422F,
     0x49547E0B, 0xBB3FFD08, 0xA86F0EFC, 0x5A048DFF, 0x8ECEE914, 0x7CA56A17, 0x6FF599E3, 0x9D9E1AE0,
     0xD3D3E1AB, 0x21B862A8, 0x32E8915C, 0xC083125F, 0x144976B4, 0xE622F5B7, 0xF5720643, 0x07198540,
     0x590AB964, 0xAB613A67, 0xB831C993, 0x4A5A4A90, 0x9E902E7B, 0x6CFBAD78, 0x7FAB5E8C, 0x8DC0DD8F,
     0xE330A81A, 0x115B2B19, 0x020BD8ED, 0xF0605BEE, 0x24AA3F05, 0xD6C1BC06, 0xC5914FF2, 0x37FACCF1,
     0x69E9F0D5, 0x9B8273D6, 0x88D28022, 0x7AB90321, 0xAE7367CA, 0x5C18E4C9, 0x4F48173D, 0xBD23943E,
     0xF36E6F75, 0x0105EC76, 0x12551F82, 0xE03E9C81, 0x34F4F86A, 0xC69F7B69, 0xD5CF889D, 0x27A40B9E,
     0x79B737BA, 0x8BDCB4B9, 0x988C474D, 0x6AE7C44E, 0xBE2DA0A5, 0x4C4623A6, 0x5F16D052, 0xAD7D5351]"

definition crc32c_calc :: "byte \<Rightarrow> reg32 \<Rightarrow> reg32" where
  "crc32c_calc in_byte reg = drop_bit 8 reg XOR crc32c_table ! unat (ucast in_byte XOR (reg AND 0xff))"

text \<open>
  The registers of a processor with SSE 4.2: the width of the wide instruction in bytes, the narrow and
  the wide checksum instruction.  The wide one works on 64 bit and reads the bytes in memory order.
  \<open>None\<close> is a processor without them.
\<close>

record sse42 =
  calc_size :: nat
  mm_crc32_u8 :: "reg32 \<Rightarrow> byte \<Rightarrow> reg32"
  mm_crc32_native :: "64 word \<Rightarrow> byte list \<Rightarrow> 64 word"

text \<open>The loop up to the first aligned address, and the loop over the aligned units.\<close>

fun crc32c_align :: "sse42 \<Rightarrow> nat \<Rightarrow> reg32 \<Rightarrow> byte list \<Rightarrow> reg32 \<times> byte list" where
  "crc32c_align cpu addr reg [] = (reg, [])"
| "crc32c_align cpu addr reg (b # bs) =
     (if 0 < addr mod calc_size cpu then crc32c_align cpu (addr + 1) (mm_crc32_u8 cpu reg b) bs
      else (reg, b # bs))"

function crc32c_units :: "sse42 \<Rightarrow> 64 word \<Rightarrow> byte list \<Rightarrow> 64 word \<times> byte list" where
  "crc32c_units cpu reg bs =
     (if 0 < calc_size cpu \<and> calc_size cpu \<le> length bs
      then crc32c_units cpu (mm_crc32_native cpu reg (take (calc_size cpu) bs)) (drop (calc_size cpu) bs)
      else (reg, bs))"
  by pat_completeness auto
termination
  by (relation "measure (\<lambda>(_, _, bs). length bs)") auto

declare crc32c_units.simps [simp del]

definition crc32c :: "sse42 option \<Rightarrow> nat \<Rightarrow> byte list \<Rightarrow> reg32" where
  "crc32c sse addr buf =
     (let reg = 0xffffffff in
      NOT (case sse of
         Some cpu \<Rightarrow>
           let (reg, rest) = crc32c_align cpu addr reg buf;
               (reg_native, rest) = crc32c_units cpu (ucast reg) rest in
           foldl (mm_crc32_u8 cpu) (ucast reg_native) rest
       | None \<Rightarrow> foldl (\<lambda>reg b. crc32c_calc b reg) reg buf))"

text \<open>
  A buffer is a list of bytes; \<open>None\<close> is an access outside of it.  The copying functions give the
  destination back as well.
\<close>

definition memcpy_crc32c ::
  "sse42 option \<Rightarrow> nat \<Rightarrow> byte list \<Rightarrow> byte list \<Rightarrow> nat \<Rightarrow> (reg32 \<times> byte list) option" where
  "memcpy_crc32c sse addr dest src n =
     (if n \<le> length src \<and> n \<le> length dest
      then Some (crc32c sse addr (take n src), take n src @ drop n dest) else None)"

text \<open>The four stores at the end of the buffer, and the four loads.\<close>

definition put_crc :: "byte list \<Rightarrow> nat \<Rightarrow> reg32 \<Rightarrow> byte list option" where
  "put_crc buf n reg =
     (if n + 4 \<le> length buf
      then Some (take n buf @ [ucast reg, ucast (drop_bit 8 reg), ucast (drop_bit 16 reg), ucast (drop_bit 24 reg)] @
                 drop (n + 4) buf) else None)"

definition get_crc :: "byte list \<Rightarrow> nat \<Rightarrow> reg32 option" where
  "get_crc buf n =
     (if n + 4 \<le> length buf
      then Some (ucast (buf ! n) OR push_bit 8 (ucast (buf ! (n + 1))) OR push_bit 16 (ucast (buf ! (n + 2))) OR
                 push_bit 24 (ucast (buf ! (n + 3)))) else None)"

text \<open>A size as the result of a function of type int.\<close>

definition int_of_size :: "nat \<Rightarrow> int" where
  "int_of_size n = sint (of_nat n :: 32 word)"

definition memcpy_crc32c_enc :: "sse42 option \<Rightarrow> nat \<Rightarrow> byte list \<Rightarrow> byte list \<Rightarrow> nat \<Rightarrow> byte list option" where
  "memcpy_crc32c_enc sse addr dest src n =
     (case memcpy_crc32c sse addr dest src n of
        None \<Rightarrow> None
      | Some (reg, dest) \<Rightarrow> put_crc dest n reg)"

definition crc32c_enc :: "sse42 option \<Rightarrow> nat \<Rightarrow> byte list \<Rightarrow> nat \<Rightarrow> byte list option" where
  "crc32c_enc sse addr buf n = put_crc buf n (crc32c sse addr (take n buf))"

definition memcpy_crc32c_check ::
  "sse42 option \<Rightarrow> nat \<Rightarrow> byte list \<Rightarrow> byte list \<Rightarrow> nat \<Rightarrow> (int \<times> byte list) option" where
  "memcpy_crc32c_check sse addr dest src n =
     (case memcpy_crc32c sse addr dest src n of
        None \<Rightarrow> None
      | Some (reg, dest) \<Rightarrow>
          (case get_crc src n of
             None \<Rightarrow> None
           | Some crc \<Rightarrow> Some (if crc \<noteq> reg then -1 else int_of_size n, dest)))"

definition crc32c_check :: "sse42 option \<Rightarrow> nat \<Rightarrow> byte list \<Rightarrow> nat \<Rightarrow> int option" where
  "crc32c_check sse addr buf n =
     (case get_crc buf n of
        None \<Rightarrow> None
      | Some crc \<Rightarrow> Some (if crc \<noteq> crc32c sse addr (take n buf) then -1 else int_of_size n))"

section \<open>Tables of linear functions\<close>

lemma xor_cancel: "a XOR c = b XOR c \<longleftrightarrow> a = (b :: reg32)"
proof
  assume "a XOR c = b XOR c"
  then have "(a XOR c) XOR c = (b XOR c) XOR c" by (rule arg_cong)
  then show "a = b" by (simp add: xor.assoc)
qed simp

text \<open>A table that is built from the values at the powers of two by doubling.\<close>

definition xor_table :: "reg32 list \<Rightarrow> reg32 list" where
  "xor_table bs = foldl (\<lambda>xs b. xs @ map (\<lambda>x. x XOR b) xs) [0] bs"

definition xor_linear :: "(reg32 \<Rightarrow> reg32) \<Rightarrow> bool" where
  "xor_linear f \<longleftrightarrow> (\<forall>x y. f (x XOR y) = f x XOR f y)"

lemma xor_linear_0: "xor_linear f \<Longrightarrow> f 0 = 0"
proof -
  assume "xor_linear f"
  then have "f (0 XOR 0) = f 0 XOR f 0" unfolding xor_linear_def by blast
  then show ?thesis by simp
qed

lemma split_range: "[0..<2 ^ Suc n] = [0..<2 ^ n] @ map (\<lambda>i. i + 2 ^ n) [0..<(2 :: nat) ^ n]"
proof -
  have "[0..<2 ^ n + 2 ^ n] = [0..<2 ^ n] @ [2 ^ n..<2 ^ n + (2 :: nat) ^ n]"
    by (rule upt_add_eq_append) simp
  moreover have "map (\<lambda>i. i + 2 ^ n) [0..<(2 :: nat) ^ n] = [2 ^ n..<2 ^ n + 2 ^ n]"
    by (rule map_add_upt)
  ultimately show ?thesis by (simp only: power_Suc mult_2)
qed

lemma of_nat_top_bit:
  assumes "i < 2 ^ n"
  shows "(of_nat (i + 2 ^ n) :: reg32) = of_nat i XOR 2 ^ n"
proof -
  have "\<not> bit i n" using assms by (simp add: bit_iff_odd)
  then have "i AND 2 ^ n = 0" by (simp add: and_exp_eq_0_iff_not_bit)
  then have "i + 2 ^ n = i XOR 2 ^ n"
    by (simp add: disjunctive_add_eq_xor)
  then show ?thesis
    by (simp add: of_nat_xor_eq)
qed

lemma xor_table_linear:
  assumes "xor_linear f"
  shows "xor_table (map (\<lambda>k. f (2 ^ k)) [0..<n]) = map (\<lambda>i. f (of_nat i)) [0..<2 ^ n]"
proof (induction n)
  case 0
  then show ?case using xor_linear_0 [OF assms] by (simp add: xor_table_def)
next
  case (Suc n)
  have "map (\<lambda>i. f (of_nat (i + 2 ^ n))) [0..<2 ^ n] = map (\<lambda>i. f (of_nat i) XOR f (2 ^ n)) [0..<2 ^ n]"
    using assms by (simp add: of_nat_top_bit xor_linear_def del: of_nat_add)
  then show ?case
    using Suc by (simp add: xor_table_def split_range comp_def del: of_nat_add power_Suc)
qed

lemma crc32c_table_basis:
  "crc32c_table = xor_table [0xF26B8303, 0xE13B70F7, 0xC79A971F, 0x8AD958CF, 0x105EC76F, 0x20BD8EDE, 0x417B1DBC, 0x82F63B78]"
  by (simp add: crc32c_table_def xor_table_def del: list.inject)

section \<open>The bits of CRC-32C\<close>

text \<open>One step of the shift register with the reversed Castagnoli polynomial, without and with an input bit.\<close>

definition crc_bit :: "reg32 \<Rightarrow> reg32" where
  "crc_bit reg = (if bit reg 0 then drop_bit 1 reg XOR 0x82F63B78 else drop_bit 1 reg)"

definition crc_bit_in :: "bool \<Rightarrow> reg32 \<Rightarrow> reg32" where
  "crc_bit_in c reg = (if bit reg 0 \<noteq> c then drop_bit 1 reg XOR 0x82F63B78 else drop_bit 1 reg)"

text \<open>The reference: the bits of every byte, the lowest one first.\<close>

definition crc_serial_byte :: "reg32 \<Rightarrow> byte \<Rightarrow> reg32" where
  "crc_serial_byte reg b = foldl (\<lambda>reg k. crc_bit_in (bit b k) reg) reg [0..<8]"

definition crc_serial :: "reg32 \<Rightarrow> byte list \<Rightarrow> reg32" where
  "crc_serial reg bs = foldl crc_serial_byte reg bs"

abbreviation crc_byte :: "reg32 \<Rightarrow> reg32" where
  "crc_byte \<equiv> crc_bit ^^ 8"

lemma crc_bit_linear: "crc_bit (x XOR y) = crc_bit x XOR crc_bit y"
  by (rule bit_eqI) (auto simp: crc_bit_def bit_simps)

lemma crc_bits_linear: "(crc_bit ^^ k) (x XOR y) = (crc_bit ^^ k) x XOR (crc_bit ^^ k) y"
  by (induction k) (simp_all add: crc_bit_linear)

lemma crc_bits_shift: "take_bit k x = 0 \<Longrightarrow> (crc_bit ^^ k) x = drop_bit k x"
proof (induction k)
  case (Suc k)
  have low: "\<not> bit x j" if "j < Suc k" for j
    using arg_cong [OF Suc.prems, of "\<lambda>w. bit w j"] that by (simp add: bit_take_bit_iff)
  then have "take_bit k x = 0" by (auto simp: bit_eq_iff bit_simps)
  moreover have "\<not> bit (drop_bit k x) 0" using low [of k] by (simp add: bit_simps)
  ultimately show ?case using Suc.IH by (simp add: crc_bit_def)
qed simp

lemma crc_bit_inj: "crc_bit x = crc_bit y \<Longrightarrow> x = y"
proof -
  assume eq: "crc_bit x = crc_bit y"
  have "bit (crc_bit z) 31 = bit z 0" for z :: reg32
    using bit_imp_le_length [of z 32] by (auto simp: crc_bit_def bit_simps)
  then have low: "bit x 0 = bit y 0" using eq by metis
  then have "drop_bit 1 x = drop_bit 1 y"
    using eq by (auto simp: crc_bit_def xor_cancel split: if_splits)
  then have "bit x (Suc n) = bit y (Suc n)" for n by (metis bit_drop_bit_eq comp_apply plus_1_eq_Suc)
  with low have "bit x n = bit y n" for n by (cases n) auto
  then show "x = y" by (simp add: bit_eq_iff)
qed

lemma crc_bits_inj: "inj (crc_bit ^^ k)"
  by (rule inj_fn) (rule injI, rule crc_bit_inj)

lemma crc_bit_in_eq: "crc_bit_in c reg = crc_bit (reg XOR of_bool c)"
  by (cases c) (auto simp: crc_bit_in_def crc_bit_def bit_simps drop_bit_xor)

lemma crc_serial_bits:
  "k \<le> 8 \<Longrightarrow> foldl (\<lambda>reg k. crc_bit_in (bit b k) reg) reg [0..<k] = (crc_bit ^^ k) (reg XOR take_bit k (ucast b))"
proof (induction k)
  case (Suc k)
  let ?c = "of_bool (bit b k) :: reg32"
  have "drop_bit k (push_bit k ?c) = ?c"
    using Suc.prems by (intro bit_word_eqI) (auto simp: bit_simps)
  then have "(crc_bit ^^ k) (push_bit k ?c) = ?c"
    using crc_bits_shift [of k "push_bit k ?c"] by (simp add: take_bit_push_bit)
  then have "(crc_bit ^^ k) (reg XOR take_bit k (ucast b)) XOR ?c =
      (crc_bit ^^ k) (reg XOR take_bit k (ucast b) XOR push_bit k ?c)"
    by (simp add: crc_bits_linear xor.assoc)
  moreover have "take_bit k (ucast b) XOR push_bit k ?c = take_bit (Suc k) (ucast b)"
    using Suc.prems by (intro bit_word_eqI) (auto simp: bit_simps less_Suc_eq)
  ultimately show ?case
    using Suc by (simp add: crc_bit_in_eq xor.assoc)
qed simp

lemma crc_serial_byte_eq: "crc_serial_byte reg b = crc_byte (reg XOR ucast b)"
proof -
  have "take_bit 8 (ucast b :: reg32) = ucast b"
    by (rule bit_word_eqI) (auto simp: bit_simps dest: bit_imp_le_length)
  then show ?thesis unfolding crc_serial_byte_def by (subst crc_serial_bits) simp_all
qed

lemma crc_byte_unfold: "crc_byte x = crc_bit (crc_bit (crc_bit (crc_bit (crc_bit (crc_bit (crc_bit (crc_bit x)))))))"
  by (simp add: eval_nat_numeral)

lemma crc_byte_basis:
  "map (\<lambda>k. crc_byte (2 ^ k)) [0..<8] = [0xF26B8303, 0xE13B70F7, 0xC79A971F, 0x8AD958CF, 0x105EC76F, 0x20BD8EDE, 0x417B1DBC, 0x82F63B78]"
proof -
  have "[0..<8] = [0, 1, 2, 3, 4, 5, 6, 7 :: nat]" by (simp add: upt_rec)
  then show ?thesis by (simp add: crc_byte_unfold crc_bit_def)
qed

lemma crc32c_table_nth: "i < 256 \<Longrightarrow> crc32c_table ! i = crc_byte (of_nat i)"
proof -
  assume i: "i < 256"
  have "xor_linear crc_byte" by (simp add: xor_linear_def crc_bits_linear)
  then have "crc32c_table = map (\<lambda>i. crc_byte (of_nat i)) [0..<256]"
    using xor_table_linear [of crc_byte 8] crc32c_table_basis crc_byte_basis by simp
  then have "crc32c_table ! i = map (\<lambda>i. crc_byte (of_nat i)) [0..<256] ! i" by (rule arg_cong)
  also have "\<dots> = crc_byte (of_nat i)" using i by (simp del: upt_rec_numeral)
  finally show ?thesis .
qed

text \<open>The table step is eight steps of the shift register.\<close>

lemma low_byte: "(w :: reg32) AND 0xff = take_bit 8 w"
  by (simp add: take_bit_eq_mask mask_eq_exp_minus_1)

lemma unat_low_byte: "unat (take_bit 8 w :: reg32) < 256"
  using take_bit_nat_less_exp [of 8 "unat w"] by (simp add: unsigned_take_bit_eq)

lemma crc32c_calc_eq: "crc32c_calc b reg = crc_byte (reg XOR ucast b)"
proof -
  let ?i = "ucast b XOR take_bit 8 reg" and ?hi = "push_bit 8 (drop_bit 8 reg)"
  have "?i = take_bit 8 ?i"
    by (rule bit_word_eqI) (auto simp: bit_simps dest: bit_imp_le_length)
  then have "unat ?i < 256" by (metis unat_low_byte)
  then have "crc32c_table ! unat ?i = crc_byte ?i" by (simp add: crc32c_table_nth)
  moreover have "drop_bit 8 ?hi = drop_bit 8 reg"
    by (rule bit_word_eqI) (auto simp: bit_simps dest: bit_imp_le_length)
  then have "crc_byte ?hi = drop_bit 8 reg"
    using crc_bits_shift [of 8 ?hi] by (simp add: take_bit_push_bit)
  moreover have "reg XOR ucast b = ?hi XOR ?i"
    by (rule bit_word_eqI) (auto simp: bit_simps)
  ultimately show ?thesis
    by (simp add: crc32c_calc_def crc_bits_linear low_byte)
qed

section \<open>Codes from linear registers\<close>

text \<open>
  A register of 32 bits that a linear and injective function \<open>turn\<close> steps, after a byte has been put in
  at its place; \<open>place k\<close> is where a byte must be put in now to be at the input after \<open>k\<close> turns.  The
  checksum \<open>tail_of r\<close> that follows the data fills the register with \<open>r\<close> and the constant \<open>fin\<close>.
\<close>

locale register_code =
  fixes turn :: "reg32 \<Rightarrow> reg32" and place :: "nat \<Rightarrow> byte \<Rightarrow> reg32"
    and tail_of :: "reg32 \<Rightarrow> byte list" and fin :: reg32
  assumes turn_linear: "turn (x XOR y) = turn x XOR turn y"
    and turn_inj: "turn x = turn y \<Longrightarrow> x = y"
    and turn_place: "k < 3 \<Longrightarrow> turn (place (Suc k) b) = place k b"
    and place_inj: "place 0 a XOR (place 1 b XOR (place 2 c XOR place 3 d)) =
        place 0 a' XOR (place 1 b' XOR (place 2 c' XOR place 3 d')) \<Longrightarrow> [a, b, c, d] = [a', b', c', d']"
    and tail_place: "\<exists>a b c d. tail_of r = [a, b, c, d] \<and>
        place 0 a XOR (place 1 b XOR (place 2 c XOR place 3 d)) = r XOR fin"
begin

definition feed :: "reg32 \<Rightarrow> byte \<Rightarrow> reg32" where
  "feed r b = turn (r XOR place 0 b)"

lemma feed_4:
  "foldl feed r [a, b, c, d] =
   turn (turn (turn (turn (r XOR (place 0 a XOR (place 1 b XOR (place 2 c XOR place 3 d)))))))"
proof -
  have "turn (place 1 b) = place 0 b" "turn (turn (place 2 c)) = place 0 c" "turn (turn (turn (place 3 d))) = place 0 d"
    using turn_place [of 0 b] turn_place [of 1 c] turn_place [of 0 c] turn_place [of 2 d] turn_place [of 1 d] turn_place [of 0 d]
    by (simp_all add: numeral_2_eq_2 numeral_3_eq_3)
  then show ?thesis by (simp add: feed_def turn_linear xor.assoc)
qed

lemma feed_inj: "feed r b = feed r' b \<Longrightarrow> r = r'"
  unfolding feed_def by (drule turn_inj) (simp add: xor_cancel)

lemma foldl_feed_inj: "foldl feed r bs = foldl feed r' bs \<Longrightarrow> r = r'"
  by (induction bs arbitrary: r r') (auto dest: feed_inj)

lemma length_4: "length w = 4 \<Longrightarrow> \<exists>a b c d. w = [a, b, c, d]"
  by (auto simp: numeral_eq_Suc length_Suc_conv)

lemma feed_window_inj:
  assumes "length w = 4" "length w' = 4" "foldl feed r w = foldl feed r w'"
  shows "w = w'"
proof -
  obtain a b c d where w: "w = [a, b, c, d]" using length_4 [OF assms(1)] by blast
  obtain a' b' c' d' where w': "w' = [a', b', c', d']" using length_4 [OF assms(2)] by blast
  let ?p = "place 0 a XOR (place 1 b XOR (place 2 c XOR place 3 d))"
  let ?p' = "place 0 a' XOR (place 1 b' XOR (place 2 c' XOR place 3 d'))"
  have "turn (turn (turn (turn (r XOR ?p)))) = turn (turn (turn (turn (r XOR ?p'))))"
    using assms(3) unfolding w w' feed_4 .
  then have "r XOR ?p = r XOR ?p'" by (rule turn_inj [OF turn_inj [OF turn_inj [OF turn_inj]]])
  then have "?p = ?p'" using xor_cancel [of ?p r ?p'] by (simp add: xor.commute)
  then show ?thesis unfolding w w' by (rule place_inj)
qed

text \<open>The residue that a block with its checksum leaves in the register, and no other block does.\<close>

definition residue :: reg32 where
  "residue = turn (turn (turn (turn fin)))"

lemma length_tail: "length (tail_of r) = 4"
  using tail_place [of r] by auto

lemma feed_tail: "foldl feed r (tail_of r) = residue"
proof -
  obtain a b c d where t: "tail_of r = [a, b, c, d]"
    "place 0 a XOR (place 1 b XOR (place 2 c XOR place 3 d)) = r XOR fin"
    using tail_place [of r] by blast
  have "r XOR (r XOR fin) = fin" by (simp flip: xor.assoc)
  then show ?thesis unfolding t(1) feed_4 t(2) by (simp add: residue_def)
qed

lemma residue_iff: "length w = 4 \<Longrightarrow> foldl feed r w = residue \<longleftrightarrow> w = tail_of r"
  using feed_window_inj [of w "tail_of r" r] length_tail [of r] feed_tail [of r] by auto

text \<open>A change within four neighbouring bytes does not go unnoticed.\<close>

lemma burst_detected:
  assumes "length w = 4" "length w' = 4" "w \<noteq> w'" "foldl feed r (xs @ w @ ys) = residue"
  shows "foldl feed r (xs @ w' @ ys) \<noteq> residue"
proof
  assume "foldl feed r (xs @ w' @ ys) = residue"
  with assms(4) have "foldl feed (foldl feed r xs) w = foldl feed (foldl feed r xs) w'"
    by (rule_tac foldl_feed_inj [of _ ys]) simp
  with assms(1-3) feed_window_inj show False by blast
qed

end

section \<open>CRC-32C is such a code\<close>

definition le_bytes :: "reg32 \<Rightarrow> byte list" where
  "le_bytes w = [ucast w, ucast (drop_bit 8 w), ucast (drop_bit 16 w), ucast (drop_bit 24 w)]"

definition bytes_word :: "byte \<Rightarrow> byte \<Rightarrow> byte \<Rightarrow> byte \<Rightarrow> reg32" where
  "bytes_word a b c d = ucast a XOR (push_bit 8 (ucast b) XOR (push_bit 16 (ucast c) XOR push_bit 24 (ucast d)))"

lemma le_bytes_word: "bytes_word a b c d = w \<longleftrightarrow> le_bytes w = [a, b, c, d]"
proof
  let ?w = "bytes_word a b c d"
  have "ucast ?w = a" "ucast (drop_bit 8 ?w) = b" "ucast (drop_bit 16 ?w) = c" "ucast (drop_bit 24 ?w) = d"
    unfolding bytes_word_def by (rule bit_word_eqI; auto simp: bit_simps dest: bit_imp_le_length)+
  then show "?w = w \<Longrightarrow> le_bytes w = [a, b, c, d]" by (auto simp: le_bytes_def)
next
  assume "le_bytes w = [a, b, c, d]"
  then have "a = ucast w" "b = ucast (drop_bit 8 w)" "c = ucast (drop_bit 16 w)" "d = ucast (drop_bit 24 w)"
    by (simp_all add: le_bytes_def)
  then show "bytes_word a b c d = w"
    unfolding bytes_word_def by (intro bit_word_eqI) (auto simp: bit_simps)
qed

lemma bytes_word_inj: "bytes_word a b c d = bytes_word a' b' c' d' \<Longrightarrow> [a, b, c, d] = [a', b', c', d']"
  using le_bytes_word [of a b c d "bytes_word a' b' c' d'"] le_bytes_word [of a' b' c' d' "bytes_word a' b' c' d'"]
  by simp

lemma bytes_word_le: "\<exists>a b c d. le_bytes w = [a, b, c, d] \<and> bytes_word a b c d = w"
  using le_bytes_word unfolding le_bytes_def by blast

lemma bytes_word_or:
  "ucast a OR push_bit 8 (ucast b) OR push_bit 16 (ucast c) OR push_bit 24 (ucast d) = bytes_word a b c d"
  for a b c d :: byte
  unfolding bytes_word_def by (rule bit_word_eqI) (auto simp: bit_simps dest: bit_imp_le_length)

interpretation crc: register_code crc_byte "\<lambda>k b. push_bit (8 * k) (ucast b)" "\<lambda>r. le_bytes (NOT r)" "NOT 0"
proof
  fix x y :: reg32
  show "crc_byte (x XOR y) = crc_byte x XOR crc_byte y" by (rule crc_bits_linear)
  show "crc_byte x = crc_byte y \<Longrightarrow> x = y" using crc_bits_inj by (rule injD)
next
  fix k :: nat and b :: byte
  assume k: "k < 3"
  let ?x = "push_bit (8 * Suc k) (ucast b) :: reg32"
  have "take_bit 8 ?x = 0" by (rule bit_word_eqI) (auto simp: bit_simps)
  moreover have "drop_bit 8 ?x = push_bit (8 * k) (ucast b)"
    using k by (intro bit_word_eqI) (auto simp: bit_simps dest: bit_imp_le_length)
  ultimately show "crc_byte ?x = push_bit (8 * k) (ucast b)" using crc_bits_shift [of 8 ?x] by simp
next
  fix a b c d a' b' c' d' :: byte
  assume "push_bit (8 * 0) (ucast a) XOR (push_bit (8 * 1) (ucast b) XOR (push_bit (8 * 2) (ucast c) XOR push_bit (8 * 3) (ucast d))) =
      push_bit (8 * 0) (ucast a') XOR (push_bit (8 * 1) (ucast b') XOR (push_bit (8 * 2) (ucast c') XOR push_bit (8 * 3) (ucast d' :: reg32)))"
  then have "bytes_word a b c d = bytes_word a' b' c' d'" by (simp add: bytes_word_def)
  then show "[a, b, c, d] = [a', b', c', d']" by (rule bytes_word_inj)
next
  fix r :: reg32
  have "r XOR NOT 0 = NOT r" by (rule bit_word_eqI) (auto simp: bit_simps)
  then show "\<exists>a b c d. le_bytes (NOT r) = [a, b, c, d] \<and>
      push_bit (8 * 0) (ucast a) XOR (push_bit (8 * 1) (ucast b) XOR (push_bit (8 * 2) (ucast c) XOR push_bit (8 * 3) (ucast d))) = r XOR NOT 0"
    using bytes_word_le [of "NOT r"] by (simp add: bytes_word_def)
qed

lemma crc_feed: "crc.feed = crc_serial_byte"
  by (simp add: fun_eq_iff crc.feed_def crc_serial_byte_eq)

text \<open>What the processor manual says of the checksum instructions: they step CRC-32C by the bytes of the operand.\<close>

definition sse42_documented :: "sse42 \<Rightarrow> bool" where
  "sse42_documented cpu \<longleftrightarrow> (\<forall>r b. mm_crc32_u8 cpu r b = crc_serial_byte r b) \<and>
     (\<forall>r bs. length bs = calc_size cpu \<longrightarrow> mm_crc32_native cpu (ucast r) bs = ucast (crc_serial r bs))"

definition sse_ok :: "sse42 option \<Rightarrow> bool" where
  "sse_ok sse = (case sse of None \<Rightarrow> True | Some cpu \<Rightarrow> sse42_documented cpu)"

lemma crc_serial_append [simp]: "crc_serial r (xs @ ys) = crc_serial (crc_serial r xs) ys"
  by (simp add: crc_serial_def)

lemma crc32c_align_eq:
  assumes "sse42_documented cpu" "crc32c_align cpu addr reg bs = (reg', rest)"
  shows "crc_serial reg' rest = crc_serial reg bs"
  using assms(2)
proof (induction bs arbitrary: addr reg)
  case (Cons b bs)
  have u8: "mm_crc32_u8 cpu reg b = crc_serial_byte reg b" using assms(1) by (simp add: sse42_documented_def)
  show ?case
  proof (cases "0 < addr mod calc_size cpu")
    case True
    then have "crc_serial reg' rest = crc_serial (crc_serial_byte reg b) bs"
      using Cons.IH [of "addr + 1" "crc_serial_byte reg b"] Cons.prems u8 by simp
    then show ?thesis by (simp add: crc_serial_def)
  qed (use Cons.prems in auto)
qed simp

lemma crc32c_units_eq:
  assumes "sse42_documented cpu"
  shows "\<exists>r' rest. crc32c_units cpu (ucast reg) bs = (ucast r', rest) \<and> crc_serial r' rest = crc_serial reg bs"
proof (induction "length bs" arbitrary: reg bs rule: less_induct)
  case less
  let ?n = "calc_size cpu"
  show ?case
  proof (cases "0 < ?n \<and> ?n \<le> length bs")
    case True
    then have "mm_crc32_native cpu (ucast reg) (take ?n bs) = ucast (crc_serial reg (take ?n bs))"
      using assms by (simp add: sse42_documented_def)
    then have step: "crc32c_units cpu (ucast reg) bs = crc32c_units cpu (ucast (crc_serial reg (take ?n bs))) (drop ?n bs)"
      using True by (subst crc32c_units.simps) simp
    have "length (drop ?n bs) < length bs" using True by auto
    from less [OF this] obtain r' rest where
      "crc32c_units cpu (ucast (crc_serial reg (take ?n bs))) (drop ?n bs) = (ucast r', rest)"
      "crc_serial r' rest = crc_serial (crc_serial reg (take ?n bs)) (drop ?n bs)"
      by blast
    then show ?thesis
      using step crc_serial_append [of reg "take ?n bs" "drop ?n bs"] by auto
  next
    case False
    then have "crc32c_units cpu (ucast reg) bs = (ucast reg, bs)"
      by (subst crc32c_units.simps) auto
    then show ?thesis by auto
  qed
qed

lemma crc32c_serial:
  assumes "sse_ok sse"
  shows "crc32c sse addr buf = NOT (crc_serial 0xffffffff buf)"
proof (cases sse)
  case None
  have "(\<lambda>reg b. crc32c_calc b reg) = crc_serial_byte"
    by (simp add: fun_eq_iff crc32c_calc_eq crc_serial_byte_eq)
  then show ?thesis by (simp add: None crc32c_def crc_serial_def)
next
  case (Some cpu)
  then have doc: "sse42_documented cpu" using assms by (simp add: sse_ok_def)
  obtain r1 bs1 where 1: "crc32c_align cpu addr 0xffffffff buf = (r1, bs1)" by (rule prod.exhaust)
  obtain r2 bs2 where 2: "crc32c_units cpu (ucast r1) bs1 = (ucast r2, bs2)" "crc_serial r2 bs2 = crc_serial r1 bs1"
    using crc32c_units_eq [OF doc, of r1 bs1] by blast
  have "mm_crc32_u8 cpu = crc_serial_byte" using doc by (simp add: sse42_documented_def fun_eq_iff)
  moreover have "ucast (ucast r2 :: 64 word) = r2" by (rule bit_word_eqI) (auto simp: bit_simps)
  ultimately have "crc32c sse addr buf = NOT (crc_serial r2 bs2)"
    using 1 2(1) by (simp add: Some crc32c_def crc_serial_def)
  then show ?thesis using 2(2) crc32c_align_eq [OF doc 1] by simp
qed

text \<open>C29.  Both ways the checksum is computed, with the table and with the instructions of the processor at
  any alignment, give CRC-32C of the buffer as its shift register defines it bit by bit.\<close>

theorem crc32c_reference:
  assumes "sse_ok sse"
  shows "crc32c sse addr buf = NOT (crc_serial 0xffffffff buf)"
  using assms by (rule crc32c_serial)

text \<open>A processor as documented.\<close>

definition example_cpu :: sse42 where
  "example_cpu = \<lparr>calc_size = 8, mm_crc32_u8 = crc_serial_byte,
     mm_crc32_native = (\<lambda>r bs. ucast (crc_serial (ucast r) bs))\<rparr>"

lemma example_cpu_ok: "sse_ok (Some example_cpu)"
proof -
  have "ucast (ucast r :: 64 word) = r" for r :: reg32 by (rule bit_word_eqI) (auto simp: bit_simps)
  then show ?thesis by (simp add: sse_ok_def sse42_documented_def example_cpu_def)
qed

lemma crc_check_value: "NOT (crc_serial 0xffffffff [49, 50, 51, 52, 53, 54, 55, 56, 57]) = 0xE3069283"
proof -
  have "[0..<8] = [0, 1, 2, 3, 4, 5, 6, 7 :: nat]" by (simp add: upt_rec)
  then show ?thesis by (simp add: crc_serial_def crc_serial_byte_def crc_bit_in_def)
qed

theorem crc32c_reference_witness:
  "crc32c (Some example_cpu) 3 [49, 50, 51, 52, 53, 54, 55, 56, 57] = 0xE3069283"
  using crc32c_reference [OF example_cpu_ok] crc_check_value by simp

section \<open>Protected blocks\<close>

lemma take_4: "n + 4 \<le> length buf \<Longrightarrow> take 4 (drop n buf) = [buf ! n, buf ! (n + 1), buf ! (n + 2), buf ! (n + 3)]"
  using Cons_nth_drop_Suc [of n buf, symmetric] Cons_nth_drop_Suc [of "n + 1" buf, symmetric]
    Cons_nth_drop_Suc [of "n + 2" buf, symmetric] Cons_nth_drop_Suc [of "n + 3" buf, symmetric]
  by (simp add: numeral_eq_Suc)

lemma get_crc_eq:
  "n + 4 \<le> length buf \<Longrightarrow> \<exists>a b c d. take 4 (drop n buf) = [a, b, c, d] \<and> get_crc buf n = Some (bytes_word a b c d)"
  by (simp add: take_4 get_crc_def bytes_word_or)

lemma crc32c_check_eq:
  assumes "sse_ok sse" "n + 4 \<le> length buf"
  shows "crc32c_check sse addr buf n =
    Some (if foldl crc_serial_byte 0xffffffff (take n buf @ take 4 (drop n buf)) = crc.residue then int_of_size n else -1)"
proof -
  let ?r = "crc_serial 0xffffffff (take n buf)"
  obtain a b c d where w: "take 4 (drop n buf) = [a, b, c, d]" "get_crc buf n = Some (bytes_word a b c d)"
    using get_crc_eq [OF assms(2)] by blast
  have reg: "crc32c sse addr (take n buf) = NOT ?r" using crc32c_serial [OF assms(1)] by simp
  have "bytes_word a b c d = NOT ?r \<longleftrightarrow> foldl crc.feed ?r [a, b, c, d] = crc.residue"
    using crc.residue_iff [of "[a, b, c, d]" ?r] by (auto simp: le_bytes_word)
  then show ?thesis
    using w reg by (simp add: crc32c_check_def crc_feed crc_serial_def)
qed

lemma crc32c_put_check:
  assumes "sse_ok sse" "sse_ok sse'" "put_crc buf n (crc32c sse addr (take n buf)) = Some buf'"
  shows "crc32c_check sse' addr' buf' n = Some (int_of_size n)"
proof -
  let ?r = "crc_serial 0xffffffff (take n buf)"
  have len: "n + 4 \<le> length buf" and buf': "buf' = take n buf @ le_bytes (NOT ?r) @ drop (n + 4) buf"
    using assms(1,3) by (auto simp: put_crc_def le_bytes_def crc32c_serial split: if_splits)
  have "take n buf' = take n buf" "take 4 (drop n buf') = le_bytes (NOT ?r)" "n + 4 \<le> length buf'"
    using len unfolding buf' by (auto simp: le_bytes_def)
  then show ?thesis
    using crc32c_check_eq [OF assms(2), of n buf'] crc.feed_tail [of ?r]
    by (simp add: crc_feed crc_serial_def)
qed

lemma int_of_size: "n < 2 ^ 31 \<Longrightarrow> int_of_size n = int n"
proof -
  assume "n < 2 ^ 31"
  then have "uint (of_nat n :: 32 word) = int n" "signed_take_bit 31 (int n) = int n"
    by (simp_all add: unsigned_of_nat take_bit_nat_eq_self signed_take_bit_int_eq_self)
  then show ?thesis by (simp add: int_of_size_def sint_uint)
qed

lemma burst_split:
  assumes "length w = 4" "length xs \<le> n" "n + 4 \<le> length (xs @ w @ ys)"
  shows "take n (xs @ w @ ys) @ take 4 (drop n (xs @ w @ ys)) = xs @ w @ take (n - length xs) ys"
proof -
  have "take n (xs @ w @ ys) @ take 4 (drop n (xs @ w @ ys)) = take (n + 4) (xs @ w @ ys)"
    by (simp only: take_add)
  also have "\<dots> = xs @ w @ take (n - length xs) ys" using assms by simp
  finally show ?thesis .
qed

text \<open>The check of the block that is copied is the check in place, and the copy is made in any case.\<close>

lemma memcpy_check:
  assumes "crc32c_check sse addr src n = Some r" "n \<le> length dest"
  shows "memcpy_crc32c_check sse addr dest src n = Some (r, take n src @ drop n dest)"
proof -
  have "n \<le> length src" using assms(1) by (auto simp: crc32c_check_def get_crc_def split: if_splits)
  then show ?thesis
    using assms by (auto simp: crc32c_check_def memcpy_crc32c_check_def memcpy_crc32c_def split: option.splits)
qed

text \<open>C31.  A block that was given its CRC-32C, in place or while it was copied, passes the check in place and the
  check of the copying read, and the data in front of the checksum, like the data that is copied out, is
  the data that was put in.\<close>

theorem crc32c_roundtrip:
  assumes "sse_ok sse" "sse_ok sse'" "n + 4 \<le> length buf" "n \<le> length src" "n < 2 ^ 31" "n \<le> length out"
  shows "(\<exists>buf'. crc32c_enc sse addr buf n = Some buf' \<and> take n buf' = take n buf \<and>
      crc32c_check sse' addr' buf' n = Some (int n) \<and>
      memcpy_crc32c_check sse' addr' out buf' n = Some (int n, take n buf @ drop n out)) \<and>
    (\<exists>dest. memcpy_crc32c_enc sse addr buf src n = Some dest \<and> take n dest = take n src \<and>
      crc32c_check sse' addr' dest n = Some (int n) \<and>
      memcpy_crc32c_check sse' addr' out dest n = Some (int n, take n src @ drop n out))"
proof
  obtain buf' where b: "crc32c_enc sse addr buf n = Some buf'" "take n buf' = take n buf"
    using assms(3) by (simp add: crc32c_enc_def put_crc_def)
  then have "crc32c_check sse' addr' buf' n = Some (int n)"
    using crc32c_put_check [OF assms(1,2), of buf n addr buf'] assms(5) by (simp add: crc32c_enc_def int_of_size)
  then show "\<exists>buf'. crc32c_enc sse addr buf n = Some buf' \<and> take n buf' = take n buf \<and>
      crc32c_check sse' addr' buf' n = Some (int n) \<and>
      memcpy_crc32c_check sse' addr' out buf' n = Some (int n, take n buf @ drop n out)"
    using b memcpy_check [OF _ assms(6)] by fastforce
  let ?d = "take n src @ drop n buf"
  have src: "take n ?d = take n src" using assms(4) by simp
  obtain dest where d: "put_crc ?d n (crc32c sse addr (take n ?d)) = Some dest" "take n dest = take n src"
    using assms(3,4) by (simp add: put_crc_def)
  then have "memcpy_crc32c_enc sse addr buf src n = Some dest" "crc32c_check sse' addr' dest n = Some (int n)"
    using crc32c_put_check [OF assms(1,2) d(1)] assms(3-5) src
    by (simp_all add: memcpy_crc32c_enc_def memcpy_crc32c_def int_of_size)
  then show "\<exists>dest. memcpy_crc32c_enc sse addr buf src n = Some dest \<and> take n dest = take n src \<and>
      crc32c_check sse' addr' dest n = Some (int n) \<and>
      memcpy_crc32c_check sse' addr' out dest n = Some (int n, take n src @ drop n out)"
    using d(2) memcpy_check [OF _ assms(6)] by fastforce
qed

theorem crc32c_roundtrip_witness:
  "(\<exists>buf'. crc32c_enc None 0 [1, 2, 3, 0, 0, 0, 0] 3 = Some buf' \<and> take 3 buf' = [1, 2, 3] \<and>
     crc32c_check (Some example_cpu) 5 buf' 3 = Some 3 \<and>
     memcpy_crc32c_check (Some example_cpu) 5 [0, 0, 0, 4] buf' 3 = Some (3, [1, 2, 3, 4])) \<and>
   (\<exists>dest. memcpy_crc32c_enc None 0 [1, 2, 3, 0, 0, 0, 0] [7, 8, 9] 3 = Some dest \<and> take 3 dest = [7, 8, 9] \<and>
     crc32c_check (Some example_cpu) 5 dest 3 = Some 3 \<and>
     memcpy_crc32c_check (Some example_cpu) 5 [0, 0, 0, 4] dest 3 = Some (3, [7, 8, 9, 4]))"
  using crc32c_roundtrip [of None "Some example_cpu" 3 "[1, 2, 3, 0, 0, 0, 0]" "[7, 8, 9]" "[0, 0, 0, 4]" 0 5] example_cpu_ok
  by (simp add: sse_ok_def)

text \<open>C30.  A block that passes the check stops passing it when up to four neighbouring bytes of it are
  changed, data or checksum.\<close>

theorem crc32c_detects_burst:
  assumes "sse_ok sse" "crc32c_check sse addr (xs @ w @ ys) n = Some (int n)" "n < 2 ^ 31"
    and "length w = 4" "length w' = 4" "w \<noteq> w'" "length xs \<le> n"
  shows "crc32c_check sse addr (xs @ w' @ ys) n = Some (- 1)"
proof -
  let ?b = "xs @ w @ ys" and ?b' = "xs @ w' @ ys" and ?z = "take (n - length xs) ys"
  have len: "n + 4 \<le> length ?b"
    using assms(2) by (auto simp: crc32c_check_def get_crc_def split: if_splits)
  then have len': "n + 4 \<le> length ?b'" using assms(4,5) by simp
  have "foldl crc.feed 0xffffffff (xs @ w @ ?z) = crc.residue"
  proof (rule ccontr)
    assume "foldl crc.feed 0xffffffff (xs @ w @ ?z) \<noteq> crc.residue"
    then have "crc32c_check sse addr ?b n = Some (- 1)"
      unfolding crc32c_check_eq [OF assms(1) len] burst_split [OF assms(4,7) len] crc_feed by (simp only: if_False)
    then show False using assms(2) by simp
  qed
  from crc.burst_detected [OF assms(4-6) this] show ?thesis
    unfolding crc32c_check_eq [OF assms(1) len'] burst_split [OF assms(5,7) len'] crc_feed by (simp only: if_False)
qed

theorem crc32c_detects_burst_witness:
  "crc32c_check None 0 [49, 50, 51, 52, 53, 54, 55, 56, 57, 0x83, 0x92, 6, 0xE3] 9 = Some 9 \<and>
   crc32c_check None 0 [49, 50, 51, 52, 53, 54, 55, 0, 57, 0x83, 0x92, 6, 0xE3] 9 = Some (- 1)"
proof
  let ?b = "[49, 50, 51, 52, 53, 54, 55, 56, 57, 0x83, 0x92, 6, 0xE3] :: byte list"
  have "crc32c None 0 [49, 50, 51, 52, 53, 54, 55, 56, 57] = 0xE3069283"
    using crc32c_serial [of None] crc_check_value by (simp add: sse_ok_def)
  moreover have "get_crc ?b 9 = Some 0xE3069283" by (simp add: get_crc_def)
  ultimately show ok: "crc32c_check None 0 ?b 9 = Some 9"
    by (simp add: crc32c_check_def int_of_size)
  then show "crc32c_check None 0 [49, 50, 51, 52, 53, 54, 55, 0, 57, 0x83, 0x92, 6, 0xE3] 9 = Some (- 1)"
    using crc32c_detects_burst [of None 0 "[49, 50, 51, 52, 53, 54, 55]" "[56, 57, 0x83, 0x92]" "[6, 0xE3]" 9 "[0, 57, 0x83, 0x92]"]
    by (simp add: sse_ok_def)
qed

end
