(* ===== verification/RsCrc.thy ===== *)
theory RsCrc
  imports Crc
begin

text \<open>
  The Reed-Solomon checksum over GF(256) of logical block protection,
  \<open>src/src/tape_drivers/reed_solomon_crc.c\<close>.  The table of the source is compared with the shift register
  of symbols it stands for, and the code is a \<open>register_code\<close>.
\<close>

section \<open>The Reed-Solomon code\<close>

definition rs_gf256_table :: "reg32 list" where
  "rs_gf256_table = [
     0x00000000, 0x38CF3801, 0x70837002, 0x484C4803, 0xE01BE004, 0xD8D4D805, 0x90989006, 0xA857A807,
     0xDD36DD08, 0xE5F9E509, 0xADB5AD0A, 0x957A950B, 0x3D2D3D0C, 0x05E2050D, 0x4DAE4D0E, 0x7561750F,
     0xA76CA710, 0x9FA39F11, 0xD7EFD712, 0xEF20EF13, 0x47774714, 0x7FB87F15, 0x37F43716, 0x0F3B0F17,
     0x7A5A7A18, 0x42954219, 0x0AD90A1A, 0x3216321B, 0x9A419A1C, 0xA28EA21D, 0xEAC2EA1E, 0xD20DD21F,
     0x53D85320, 0x6B176B21, 0x235B2322, 0x1B941B23, 0xB3C3B324, 0x8B0C8B25, 0xC340C326, 0xFB8FFB27,
     0x8EEE8E28, 0xB621B629, 0xFE6DFE2A, 0xC6A2C62B, 0x6EF56E2C, 0x563A562D, 0x1E761E2E, 0x26B9262F,
     0xF4B4F430, 0xCC7BCC31, 0x84378432, 0xBCF8BC33, 0x14AF1434, 0x2C602C35, 0x642C6436, 0x5CE35C37,
     0x29822938, 0x114D1139, 0x5901593A, 0x61CE613B, 0xC999C93C, 0xF156F13D, 0xB91AB93E, 0x81D5813F,
     0xA6ADA640, 0x9E629E41, 0xD62ED642, 0xEEE1EE43, 0x46B64644, 0x7E797E45, 0x36353646, 0x0EFA0E47,
     0x7B9B7B48, 0x43544349, 0x0B180B4A, 0x33D7334B, 0x9B809B4C, 0xA34FA34D, 0xEB03EB4E, 0xD3CCD34F,
     0x01C10150, 0x390E3951, 0x71427152, 0x498D4953, 0xE1DAE154, 0xD915D955, 0x91599156, 0xA996A957,
     0xDCF7DC58, 0xE438E459, 0xAC74AC5A, 0x94BB945B, 0x3CEC3C5C, 0x0423045D, 0x4C6F4C5E, 0x74A0745F,
     0xF575F560, 0xCDBACD61, 0x85F68562, 0xBD39BD63, 0x156E1564, 0x2DA12D65, 0x65ED6566, 0x5D225D67,
     0x28432868, 0x108C1069, 0x58C0586A, 0x600F606B, 0xC858C86C, 0xF097F06D, 0xB8DBB86E, 0x8014806F,
     0x52195270, 0x6AD66A71, 0x229A2272, 0x1A551A73, 0xB202B274, 0x8ACD8A75, 0xC281C276, 0xFA4EFA77,
     0x8F2F8F78, 0xB7E0B779, 0xFFACFF7A, 0xC763C77B, 0x6F346F7C, 0x57FB577D, 0x1FB71F7E, 0x2778277F,
     0x51475180, 0x69886981, 0x21C42182, 0x190B1983, 0xB15CB184, 0x89938985, 0xC1DFC186, 0xF910F987,
     0x8C718C88, 0xB4BEB489, 0xFCF2FC8A, 0xC43DC48B, 0x6C6A6C8C, 0x54A5548D, 0x1CE91C8E, 0x2426248F,
     0xF62BF690, 0xCEE4CE91, 0x86A88692, 0xBE67BE93, 0x16301694, 0x2EFF2E95, 0x66B36696, 0x5E7C5E97,
     0x2B1D2B98, 0x13D21399, 0x5B9E5B9A, 0x6351639B, 0xCB06CB9C, 0xF3C9F39D, 0xBB85BB9E, 0x834A839F,
     0x029F02A0, 0x3A503AA1, 0x721C72A2, 0x4AD34AA3, 0xE284E2A4, 0xDA4BDAA5, 0x920792A6, 0xAAC8AAA7,
     0xDFA9DFA8, 0xE766E7A9, 0xAF2AAFAA, 0x97E597AB, 0x3FB23FAC, 0x077D07AD, 0x4F314FAE, 0x77FE77AF,
     0xA5F3A5B0, 0x9D3C9DB1, 0xD570D5B2, 0xEDBFEDB3, 0x45E845B4, 0x7D277DB5, 0x356B35B6, 0x0DA40DB7,
     0x78C578B8, 0x400A40B9, 0x084608BA, 0x308930BB, 0x98DE98BC, 0xA011A0BD, 0xE85DE8BE, 0xD092D0BF,
     0xF7EAF7C0, 0xCF25CFC1, 0x876987C2, 0xBFA6BFC3, 0x17F117C4, 0x2F3E2FC5, 0x677267C6, 0x5FBD5FC7,
     0x2ADC2AC8, 0x121312C9, 0x5A5F5ACA, 0x629062CB, 0xCAC7CACC, 0xF208F2CD, 0xBA44BACE, 0x828B82CF,
     0x508650D0, 0x684968D1, 0x200520D2, 0x18CA18D3, 0xB09DB0D4, 0x885288D5, 0xC01EC0D6, 0xF8D1F8D7,
     0x8DB08DD8, 0xB57FB5D9, 0xFD33FDDA, 0xC5FCC5DB, 0x6DAB6DDC, 0x556455DD, 0x1D281DDE, 0x25E725DF,
     0xA432A4E0, 0x9CFD9CE1, 0xD4B1D4E2, 0xEC7EECE3, 0x442944E4, 0x7CE67CE5, 0x34AA34E6, 0x0C650CE7,
     0x790479E8, 0x41CB41E9, 0x098709EA, 0x314831EB, 0x991F99EC, 0xA1D0A1ED, 0xE99CE9EE, 0xD153D1EF,
     0x035E03F0, 0x3B913BF1, 0x73DD73F2, 0x4B124BF3, 0xE345E3F4, 0xDB8ADBF5, 0x93C693F6, 0xAB09ABF7,
     0xDE68DEF8, 0xE6A7E6F9, 0xAEEBAEFA, 0x962496FB, 0x3E733EFC, 0x06BC06FD, 0x4EF04EFE, 0x763F76FF]"

definition enc4 :: "byte \<Rightarrow> reg32 \<Rightarrow> reg32" where
  "enc4 in_byte reg = push_bit 8 reg XOR rs_gf256_table ! unat (ucast in_byte XOR drop_bit 24 reg)"

definition rs_reg :: "byte list \<Rightarrow> reg32" where
  "rs_reg buf = foldl (\<lambda>reg b. enc4 b reg) 0 buf"

definition rs_put :: "byte list \<Rightarrow> nat \<Rightarrow> reg32 \<Rightarrow> byte list option" where
  "rs_put buf n reg =
     (if n + 4 \<le> length buf then Some (take n buf @ ltfs_u32tobe (unat reg) @ drop (n + 4) buf) else None)"

definition memcpy_rs_gf256_enc :: "byte list \<Rightarrow> byte list \<Rightarrow> nat \<Rightarrow> byte list option" where
  "memcpy_rs_gf256_enc dest src n =
     (if n \<le> length src \<and> n \<le> length dest
      then rs_put (take n src @ drop n dest) n (rs_reg (take n src)) else None)"

definition rs_gf256_enc :: "byte list \<Rightarrow> nat \<Rightarrow> byte list option" where
  "rs_gf256_enc buf n = rs_put buf n (rs_reg (take n buf))"

definition memcpy_rs_gf256_check :: "byte list \<Rightarrow> byte list \<Rightarrow> nat \<Rightarrow> (int \<times> byte list) option" where
  "memcpy_rs_gf256_check dest src n =
     (if n + 4 \<le> length src \<and> n \<le> length dest
      then Some (if ltfs_betou32 (drop n src) \<noteq> unat (rs_reg (take n src)) then -1 else int_of_size n,
                 take n src @ drop n dest)
      else None)"

definition rs_gf256_check :: "byte list \<Rightarrow> nat \<Rightarrow> int option" where
  "rs_gf256_check buf n =
     (if n + 4 \<le> length buf
      then Some (if ltfs_betou32 (drop n buf) \<noteq> unat (rs_reg (take n buf)) then -1 else int_of_size n)
      else None)"

section \<open>The symbols of the Reed-Solomon code\<close>

text \<open>Multiplication in GF(256) with the polynomial 0x11D.\<close>

definition xtime :: "byte \<Rightarrow> byte" where
  "xtime b = (if bit b 7 then push_bit 1 b XOR 0x1D else push_bit 1 b)"

definition gf_mul :: "byte \<Rightarrow> byte \<Rightarrow> byte" where
  "gf_mul a b = foldl (\<lambda>x k. if bit b k then x XOR (xtime ^^ k) a else x) 0 [0..<8]"

text \<open>
  The reference: a shift register of four symbols, the highest one first, that divides by the generator
  polynomial with the coefficients 1, 0x38, 0xCF, 0x38, 1.
\<close>

definition rs_symbol :: "byte \<times> byte \<times> byte \<times> byte \<Rightarrow> byte \<Rightarrow> byte \<times> byte \<times> byte \<times> byte" where
  "rs_symbol = (\<lambda>(s3, s2, s1, s0) b. let f = b XOR s3 in
     (s2 XOR gf_mul 0x38 f, s1 XOR gf_mul 0xCF f, s0 XOR gf_mul 0x38 f, f))"

definition symbols :: "reg32 \<Rightarrow> byte \<times> byte \<times> byte \<times> byte" where
  "symbols w = (ucast (drop_bit 24 w), ucast (drop_bit 16 w), ucast (drop_bit 8 w), ucast w)"

definition rs_row :: "reg32 \<Rightarrow> reg32" where
  "rs_row x = (let f = ucast x in bytes_word f (gf_mul 0x38 f) (gf_mul 0xCF f) (gf_mul 0x38 f))"

lemma gf_mul_linear: "gf_mul a (x XOR y) = gf_mul a x XOR gf_mul a y"
proof -
  have "foldl (\<lambda>z k. if bit (x XOR y) k then z XOR (xtime ^^ k) a else z) (p XOR q) ks =
     foldl (\<lambda>z k. if bit x k then z XOR (xtime ^^ k) a else z) p ks XOR
     foldl (\<lambda>z k. if bit y k then z XOR (xtime ^^ k) a else z) q ks" for p q ks
  proof (induction ks arbitrary: p q)
    case (Cons k ks)
    have "(if bit (x XOR y) k then (p XOR q) XOR (xtime ^^ k) a else p XOR q) =
        (if bit x k then p XOR (xtime ^^ k) a else p) XOR (if bit y k then q XOR (xtime ^^ k) a else q)"
      by (simp add: bit_simps ac_simps)
    then show ?case using Cons.IH by simp
  qed simp
  from this [of 0 0 "[0..<8]"] show ?thesis by (simp add: gf_mul_def)
qed

lemma ucast_xor: "(ucast (x XOR y) :: byte) = ucast x XOR ucast (y :: reg32)"
  by (rule bit_word_eqI) (auto simp: bit_simps)

lemma bytes_word_linear:
  "bytes_word (a XOR a') (b XOR b') (c XOR c') (d XOR d') = bytes_word a b c d XOR bytes_word a' b' c' d'"
  unfolding bytes_word_def by (rule bit_word_eqI) (auto simp: bit_simps)

lemma rs_row_linear: "rs_row (x XOR y) = rs_row x XOR rs_row y"
  by (simp add: rs_row_def Let_def ucast_xor gf_mul_linear bytes_word_linear)

lemma upt_8: "[0..<8] = [0, 1, 2, 3, 4, 5, 6, 7 :: nat]"
  by (simp add: upt_rec)

lemma funpow_small:
  "(f ^^ 2) x = f (f x)"
  "(f ^^ 3) x = f (f (f x))"
  "(f ^^ 4) x = f (f (f (f x)))"
  "(f ^^ 5) x = f (f (f (f (f x))))"
  "(f ^^ 6) x = f (f (f (f (f (f x)))))"
  "(f ^^ 7) x = f (f (f (f (f (f (f x))))))"
  by (simp_all add: eval_nat_numeral)

lemma gf_mul_powers:
  "gf_mul a b = foldl (\<lambda>x (k, v). if bit b k then x XOR v else x) 0 (map (\<lambda>k. (k, (xtime ^^ k) a)) [0..<8])"
  by (simp add: gf_mul_def foldl_map del: upt_rec_numeral)

lemma gf_mul_38:
  "gf_mul 0x38 b = foldl (\<lambda>x (k, v). if bit b k then x XOR v else x) 0 [(0, 0x38), (1, 0x70), (2, 0xE0), (3, 0xDD), (4, 0xA7), (5, 0x53), (6, 0xA6), (7, 0x51)]"
proof -
  have "map (\<lambda>k. (k, (xtime ^^ k) 0x38)) [0..<8] = [(0, 0x38), (1, 0x70), (2, 0xE0), (3, 0xDD), (4, 0xA7), (5, 0x53), (6, 0xA6), (7, 0x51)]"
    unfolding upt_8 by (simp add: funpow_small xtime_def)
  then show ?thesis unfolding gf_mul_powers by simp
qed

lemma gf_mul_CF:
  "gf_mul 0xCF b = foldl (\<lambda>x (k, v). if bit b k then x XOR v else x) 0 [(0, 0xCF), (1, 0x83), (2, 0x1B), (3, 0x36), (4, 0x6C), (5, 0xD8), (6, 0xAD), (7, 0x47)]"
proof -
  have "map (\<lambda>k. (k, (xtime ^^ k) 0xCF)) [0..<8] = [(0, 0xCF), (1, 0x83), (2, 0x1B), (3, 0x36), (4, 0x6C), (5, 0xD8), (6, 0xAD), (7, 0x47)]"
    unfolding upt_8 by (simp add: funpow_small xtime_def)
  then show ?thesis unfolding gf_mul_powers by simp
qed

lemma rs_row_basis:
  "map (\<lambda>k. rs_row (2 ^ k)) [0..<8] = [0x38CF3801, 0x70837002, 0xE01BE004, 0xDD36DD08, 0xA76CA710, 0x53D85320, 0xA6ADA640, 0x51475180]"
  unfolding upt_8 by (simp add: rs_row_def gf_mul_38 gf_mul_CF bytes_word_def)

lemma rs_gf256_table_basis:
  "rs_gf256_table = xor_table [0x38CF3801, 0x70837002, 0xE01BE004, 0xDD36DD08, 0xA76CA710, 0x53D85320, 0xA6ADA640, 0x51475180]"
  by (simp add: rs_gf256_table_def xor_table_def del: list.inject)

lemma rs_gf256_table_nth: "i < 256 \<Longrightarrow> rs_gf256_table ! i = rs_row (of_nat i)"
proof -
  assume i: "i < 256"
  have "xor_linear rs_row" by (simp add: xor_linear_def rs_row_linear)
  then have "rs_gf256_table = map (\<lambda>i. rs_row (of_nat i)) [0..<256]"
    using xor_table_linear [of rs_row 8] rs_gf256_table_basis rs_row_basis by simp
  then have "rs_gf256_table ! i = map (\<lambda>i. rs_row (of_nat i)) [0..<256] ! i" by (rule arg_cong)
  also have "\<dots> = rs_row (of_nat i)" using i by (simp del: upt_rec_numeral)
  finally show ?thesis .
qed

definition rs_turn :: "reg32 \<Rightarrow> reg32" where
  "rs_turn x = push_bit 8 x XOR rs_row (drop_bit 24 x)"

lemma enc4_eq: "enc4 b reg = rs_turn (reg XOR push_bit 24 (ucast b))"
proof -
  let ?i = "ucast b XOR drop_bit 24 reg"
  have "?i = take_bit 8 ?i"
    by (rule bit_word_eqI) (auto simp: bit_simps dest: bit_imp_le_length)
  then have "unat ?i < 256" by (metis unat_low_byte)
  then have "rs_gf256_table ! unat ?i = rs_row ?i" by (simp add: rs_gf256_table_nth)
  moreover have "push_bit 8 (reg XOR push_bit 24 (ucast b)) = push_bit 8 reg"
    by (rule bit_word_eqI) (auto simp: bit_simps dest: bit_imp_le_length)
  moreover have "drop_bit 24 (reg XOR push_bit 24 (ucast b)) = ?i"
    by (rule bit_word_eqI) (auto simp: bit_simps dest: bit_imp_le_length)
  ultimately show ?thesis by (simp add: enc4_def rs_turn_def)
qed

section \<open>The Reed-Solomon checksum is a register code\<close>

lemma low_bytes_word: "ucast (bytes_word a b c d) = a"
  unfolding bytes_word_def by (rule bit_word_eqI) (auto simp: bit_simps)

lemma rs_turn_low: "ucast (rs_turn x) = (ucast (drop_bit 24 x) :: byte)"
proof -
  have "ucast (push_bit 8 x) = (0 :: byte)" by (rule bit_word_eqI) (auto simp: bit_simps)
  then show ?thesis by (simp add: rs_turn_def ucast_xor rs_row_def Let_def low_bytes_word)
qed

lemma rs_turn_inj: "rs_turn x = rs_turn y \<Longrightarrow> x = y"
proof -
  assume eq: "rs_turn x = rs_turn y"
  then have top: "ucast (drop_bit 24 x) = (ucast (drop_bit 24 y) :: byte)" by (metis rs_turn_low)
  then have "rs_row (drop_bit 24 x) = rs_row (drop_bit 24 y)" by (simp add: rs_row_def)
  with eq have "push_bit 8 x = push_bit 8 y" by (simp add: rs_turn_def xor_cancel)
  moreover have "z = drop_bit 8 (push_bit 8 z) XOR push_bit 24 (ucast (ucast (drop_bit 24 z) :: byte))" for z :: reg32
    by (rule bit_word_eqI) (auto simp: bit_simps)
  ultimately show "x = y" using top by metis
qed

definition be_word :: "reg32 \<Rightarrow> byte list" where
  "be_word w = rev (le_bytes w)"

interpretation rs: register_code rs_turn "\<lambda>k b. push_bit (24 - 8 * k) (ucast b)" be_word 0
proof
  fix x y :: reg32
  have "push_bit 8 (x XOR y) = push_bit 8 x XOR push_bit 8 y" "drop_bit 24 (x XOR y) = drop_bit 24 x XOR drop_bit 24 y"
    by (simp_all add: push_bit_xor drop_bit_xor)
  then show "rs_turn (x XOR y) = rs_turn x XOR rs_turn y"
    by (simp add: rs_turn_def rs_row_linear ac_simps)
  show "rs_turn x = rs_turn y \<Longrightarrow> x = y" by (rule rs_turn_inj)
next
  fix k :: nat and b :: byte
  assume k: "k < 3"
  let ?x = "push_bit (24 - 8 * Suc k) (ucast b) :: reg32"
  have "drop_bit 24 ?x = 0" using k by (intro bit_word_eqI) (auto simp: bit_simps dest: bit_imp_le_length)
  moreover have "rs_row 0 = 0" using rs_row_linear [of 0 0] by simp
  moreover have "push_bit 8 ?x = push_bit (24 - 8 * k) (ucast b)"
    using k by (intro bit_word_eqI) (auto simp: bit_simps)
  ultimately show "rs_turn ?x = push_bit (24 - 8 * k) (ucast b)" by (simp add: rs_turn_def)
next
  fix a b c d a' b' c' d' :: byte
  assume "push_bit (24 - 8 * 0) (ucast a) XOR (push_bit (24 - 8 * 1) (ucast b) XOR (push_bit (24 - 8 * 2) (ucast c) XOR push_bit (24 - 8 * 3) (ucast d))) =
      push_bit (24 - 8 * 0) (ucast a') XOR (push_bit (24 - 8 * 1) (ucast b') XOR (push_bit (24 - 8 * 2) (ucast c') XOR push_bit (24 - 8 * 3) (ucast d' :: reg32)))"
  then have "bytes_word d c b a = bytes_word d' c' b' a'" by (simp add: bytes_word_def ac_simps)
  then show "[a, b, c, d] = [a', b', c', d']" using bytes_word_inj by fastforce
next
  fix r :: reg32
  obtain a b c d where "le_bytes r = [a, b, c, d]" "bytes_word a b c d = r" using bytes_word_le by blast
  then show "\<exists>a b c d. be_word r = [a, b, c, d] \<and>
      push_bit (24 - 8 * 0) (ucast a) XOR (push_bit (24 - 8 * 1) (ucast b) XOR (push_bit (24 - 8 * 2) (ucast c) XOR push_bit (24 - 8 * 3) (ucast d))) = r XOR 0"
    by (intro exI [of _ d] exI [of _ c] exI [of _ b] exI [of _ a]) (simp add: be_word_def bytes_word_def ac_simps)
qed

lemma rs_feed: "rs.feed reg b = enc4 b reg"
  by (simp add: rs.feed_def enc4_eq)

lemma symbols_shift:
  "symbols (push_bit 8 reg XOR bytes_word p q r s) =
    (ucast (drop_bit 16 reg) XOR s, ucast (drop_bit 8 reg) XOR r, ucast reg XOR q, p)"
  unfolding symbols_def bytes_word_def
  by (intro prod_eqI; simp; rule bit_word_eqI; auto simp: bit_simps dest: bit_imp_le_length)

lemma rs_step: "symbols (enc4 b reg) = rs_symbol (symbols reg) b"
proof -
  let ?f = "b XOR ucast (drop_bit 24 reg) :: byte"
  have f: "ucast (drop_bit 24 (reg XOR push_bit 24 (ucast b))) = ?f"
    by (rule bit_word_eqI) (auto simp: bit_simps)
  have p: "push_bit 8 (reg XOR push_bit 24 (ucast b)) = push_bit 8 reg"
    by (rule bit_word_eqI) (auto simp: bit_simps dest: bit_imp_le_length)
  show ?thesis
    unfolding enc4_eq rs_turn_def rs_row_def Let_def f p symbols_shift
    by (simp add: rs_symbol_def symbols_def Let_def)
qed

text \<open>C32.  The table step of the Reed-Solomon checksum is the step of the shift register of four symbols over
  GF(256), so that the checksum of a block is the remainder of the division by the generator polynomial.\<close>

theorem rs_reference: "symbols (rs_reg buf) = foldl rs_symbol (0, 0, 0, 0) buf"
proof -
  have "symbols (foldl (\<lambda>reg b. enc4 b reg) r buf) = foldl rs_symbol (symbols r) buf" for r
    by (induction buf arbitrary: r) (simp_all add: rs_step)
  then show ?thesis by (simp add: rs_reg_def symbols_def)
qed

lemma be_value_inj: "length xs = length ys \<Longrightarrow> be_value xs = be_value ys \<Longrightarrow> xs = ys"
proof (induction xs arbitrary: ys rule: rev_induct)
  case (snoc x xs)
  then obtain y ys' where ys: "ys = ys' @ [y]" by (cases ys rule: rev_cases) auto
  have "unat x < 256" "unat y < 256" using unsigned_less [where 'a = nat, of x] unsigned_less [where 'a = nat, of y] by simp_all
  moreover have "be_value xs * 256 + unat x = be_value ys' * 256 + unat y"
    using snoc.prems(2) unfolding ys be_value_snoc .
  ultimately have "be_value xs = be_value ys'" by linarith
  with \<open>be_value xs * 256 + unat x = _\<close> have "x = y" by (simp add: word_unat_eq_iff)
  with snoc.IH [of ys'] snoc.prems(1) \<open>be_value xs = be_value ys'\<close> show ?case by (simp add: ys)
qed simp

lemma be_word_tobe: "ltfs_u32tobe (unat w) = be_word w"
proof -
  have u: "unat w < two32" using unsigned_less [where 'a = nat, of w] by (simp add: two32_def)
  have d: "unat w div 256 = unat (drop_bit 8 w)" "unat (drop_bit 8 w) div 256 = unat (drop_bit 16 w)"
    "unat (drop_bit 16 w) div 256 = unat (drop_bit 24 w)"
    by (simp_all add: drop_bit_eq_div unat_div flip: div_mult2_eq)
  have "be_bytes (Suc (Suc (Suc (Suc 0)))) n = [of_nat (n div 256 div 256 div 256), of_nat (n div 256 div 256), of_nat (n div 256), of_nat n]" for n
    by simp
  moreover have "(4 :: nat) = Suc (Suc (Suc (Suc 0)))" by simp
  ultimately show ?thesis
    using u unfolding ltfs_u32tobe_def be_word_def le_bytes_def by (simp only: u32_id d) simp
qed

lemma rs_check_eq:
  assumes "n + 4 \<le> length buf"
  shows "rs_gf256_check buf n =
    Some (if foldl rs.feed 0 (take n buf @ take 4 (drop n buf)) = rs.residue then int_of_size n else -1)"
proof -
  let ?r = "rs_reg (take n buf)" and ?w = "take 4 (drop n buf)"
  have len: "length ?w = 4" using assms by simp
  have val: "be_value (be_word ?r) = unat ?r"
    using betou32_u32tobe [of "unat ?r" "[]"] unsigned_less [where 'a = nat, of ?r]
    unfolding be_word_tobe ltfs_betou32_def by (simp add: be_word_def le_bytes_def two32_def)
  have "ltfs_betou32 (drop n buf) = unat ?r \<longleftrightarrow> ?w = be_word ?r"
    using be_value_inj [of ?w "be_word ?r"] len val
    by (auto simp: ltfs_betou32_def be_word_def le_bytes_def)
  also have "\<dots> \<longleftrightarrow> foldl rs.feed ?r ?w = rs.residue" using rs.residue_iff [OF len] by simp
  also have "foldl rs.feed ?r ?w = foldl rs.feed 0 (take n buf @ ?w)"
    by (simp add: rs_reg_def rs_feed cong: foldl_cong)
  finally show ?thesis using assms by (simp add: rs_gf256_check_def)
qed

text \<open>C33.  A block that was given its Reed-Solomon checksum passes the check with its data unchanged, and a
  change of up to four neighbouring bytes, data or checksum, makes the check fail.\<close>

theorem rs_roundtrip_and_burst:
  assumes "n + 4 \<le> length buf" "n < 2 ^ 31" "rs_gf256_enc buf n = Some block"
    and "block = xs @ w @ ys" "length w = 4" "length w' = 4" "w \<noteq> w'" "length xs \<le> n"
  shows "take n block = take n buf \<and> rs_gf256_check block n = Some (int n) \<and>
    rs_gf256_check (xs @ w' @ ys) n = Some (- 1)"
proof -
  let ?r = "rs_reg (take n buf)" and ?z = "take (n - length xs) ys"
  have block: "block = take n buf @ be_word ?r @ drop (n + 4) buf"
    using assms(1,3) by (simp add: rs_gf256_enc_def rs_put_def be_word_tobe)
  have l4: "length (be_word ?r) = 4" by (rule rs.length_tail)
  then have parts: "take n block = take n buf" "take 4 (drop n block) = be_word ?r" "n + 4 \<le> length block"
    using assms(1) unfolding block by auto
  have "foldl rs.feed 0 (take n block @ take 4 (drop n block)) = rs.residue"
    using rs.feed_tail [of ?r] parts(1,2) by (simp add: rs_reg_def rs_feed cong: foldl_cong)
  note pass = this
  have ok: "rs_gf256_check block n = Some (int n)"
    unfolding rs_check_eq [OF parts(3)] using pass assms(2) by (simp add: int_of_size)
  have len: "n + 4 \<le> length (xs @ w @ ys)" using parts(3) assms(4) by simp
  then have len': "n + 4 \<le> length (xs @ w' @ ys)" using assms(5,6) by simp
  have "foldl rs.feed 0 (xs @ w @ ?z) = rs.residue"
    using pass unfolding assms(4) burst_split [OF assms(5,8) len] .
  from rs.burst_detected [OF assms(5-7) this] have "rs_gf256_check (xs @ w' @ ys) n = Some (- 1)"
    unfolding rs_check_eq [OF len'] burst_split [OF assms(6,8) len'] by (simp only: if_False)
  with ok parts(1) show ?thesis by simp
qed

theorem rs_roundtrip_and_burst_witness:
  "rs_gf256_check [1, 2, 0x96, 0x39, 0x58, 0x3A] 2 = Some 2 \<and> rs_gf256_check [1, 3, 0x96, 0x39, 0x58, 0x3A] 2 = Some (- 1)"
proof -
  have "rs_reg [1, 2] = 0x9639583A"
    by (simp add: rs_reg_def enc4_eq rs_turn_def rs_row_def gf_mul_38 gf_mul_CF bytes_word_def)
  moreover have "ltfs_u32tobe (unat (0x9639583A :: reg32)) = [0x96, 0x39, 0x58, 0x3A]"
    unfolding be_word_tobe by (simp add: be_word_def le_bytes_def)
  ultimately have "rs_gf256_enc [1, 2, 0, 0, 0, 0] 2 = Some [1, 2, 0x96, 0x39, 0x58, 0x3A]"
    by (simp add: rs_gf256_enc_def rs_put_def)
  then have "take 2 [1, 2, 0x96, 0x39, 0x58, 0x3A :: byte] = take 2 [1, 2, 0, 0, 0, 0] \<and>
      rs_gf256_check [1, 2, 0x96, 0x39, 0x58, 0x3A] 2 = Some (int 2) \<and>
      rs_gf256_check ([1] @ [3, 0x96, 0x39, 0x58] @ [0x3A]) 2 = Some (- 1)"
    by (intro rs_roundtrip_and_burst [where w = "[2, 0x96, 0x39, 0x58]"]) simp_all
  then show ?thesis by simp
qed

end
