(* ===== verification/Calendar.thy ===== *)
theory Calendar
  imports Prelude "HOL-Library.Signed_Division"
begin

text \<open>
  Calendar time, \<open>libltfs/arch/time_internal.c\<close> and \<open>time_internal.h\<close>: the broken-down time of a time
  stamp (\<open>ltfs_gmtime\<close>), the time stamp of a broken-down time (\<open>ltfs_timegm\<close>) and the range of time stamps
  the format allows (\<open>normalize_ltfs_time\<close>).  The divisions are those of C, which round towards zero; the
  reference is the proleptic Gregorian calendar.  Time stamps are 64 bit and no operation on them overflows;
  the sums of type \<open>int\<close> in \<open>ltfs_timegm\<close> can, and then the result is \<open>None\<close>.
\<close>

section \<open>The functions\<close>

record tm =
  tm_sec :: int
  tm_min :: int
  tm_hour :: int
  tm_mday :: int
  tm_mon :: int
  tm_year :: int
  tm_wday :: int
  tm_yday :: int
  tm_isdst :: int

definition in_int :: "int \<Rightarrow> bool" where
  "in_int x \<longleftrightarrow> - (2 ^ 31) \<le> x \<and> x < 2 ^ 31"

text \<open>The conversion of a 64 bit number to int.\<close>

definition to_int :: "int \<Rightarrow> int" where
  "to_int x = (x + 2 ^ 31) mod 2 ^ 32 - 2 ^ 31"

definition ltfs_timegm :: "tm \<Rightarrow> int option" where
  "ltfs_timegm t =
     (let tmp = (tm_mon t - 13) sdiv 12;
          y = 1461 * (tm_year t + 6700 + tmp);
          m = 367 * (tm_mon t - 1 - 12 * tmp);
          c = 3 * ((tm_year t + 6800 + tmp) sdiv 100);
          days = y sdiv 4 + m sdiv 12 - c sdiv 4 + tm_mday t - 2472663 in
      if list_all in_int
           [tm_mon t - 13, tm_year t + 6700, tm_year t + 6700 + tmp, y,
            tm_mon t - 1, 12 * tmp, tm_mon t - 1 - 12 * tmp, m,
            tm_year t + 6800, tm_year t + 6800 + tmp, c,
            y sdiv 4 + m sdiv 12, y sdiv 4 + m sdiv 12 - c sdiv 4,
            y sdiv 4 + m sdiv 12 - c sdiv 4 + tm_mday t, days,
            3600 * tm_hour t, 60 * tm_min t]
      then Some (86400 * days + 3600 * tm_hour t + 60 * tm_min t + tm_sec t)
      else None)"

definition ltfs_get_days_of_year :: "int \<Rightarrow> int" where
  "ltfs_get_days_of_year nYear =
     (if nYear smod 400 = 0 \<or> nYear smod 100 \<noteq> 0 \<and> nYear smod 4 = 0 then 366 else 365)"

definition anDaysOfMonth :: "int \<Rightarrow> int list" where
  "anDaysOfMonth nYear =
     [31, if ltfs_get_days_of_year nYear = 365 then 28 else 29, 31, 30, 31, 30, 31, 31, 30, 31, 30, 31]"

text \<open>The loop over the months: the month, or -1 behind the last one, and the days that are left.\<close>

fun mday_loop :: "int list \<Rightarrow> int \<Rightarrow> int \<Rightarrow> int \<times> int" where
  "mday_loop [] i nMday = (-1, nMday)"
| "mday_loop (d # ds) i nMday = (if nMday < d then (i, nMday) else mday_loop ds (i + 1) (nMday - d))"

definition ltfs_get_mday_from_yday :: "int \<Rightarrow> int \<Rightarrow> int \<times> int" where
  "ltfs_get_mday_from_yday nYear nYday =
     (let (nMonth, nMday) = mday_loop (anDaysOfMonth nYear) 0 nYday in
      ((if nMday < 0 \<or> nMonth = -1 then -2 else nMday) + 1, nMonth))"

text \<open>One unit of the time of day: the number modulo the unit, and what is left in the next larger unit.\<close>

definition time_unit :: "int \<Rightarrow> int \<Rightarrow> int \<times> int" where
  "time_unit u nSrcTime =
     (let n = nSrcTime smod u; nSrcTime = nSrcTime sdiv u in
      if 0 \<le> n then (n, nSrcTime) else (n + u, nSrcTime - 1))"

text \<open>The years since 1 March 2000, and the days since 1 March of that year.\<close>

definition gm_years :: "int \<Rightarrow> int \<times> int" where
  "gm_years nSrcTime =
     (let n400Y = nSrcTime sdiv 146097; nSrcTime = nSrcTime smod 146097;
          n100Y = nSrcTime sdiv 36524; nSrcTime = nSrcTime smod 36524;
          nSrcTime = (if n100Y = 4 then nSrcTime - 1 else nSrcTime);
          n4Y = nSrcTime sdiv 1461; nSrcTime = nSrcTime smod 1461;
          nSrcTime = (if n100Y < 0 \<and> n4Y = 0 then nSrcTime + 1 else nSrcTime);
          n1Y = nSrcTime sdiv 365; nSrcTime = nSrcTime smod 365;
          nSrcTime = (if n1Y = 4 then nSrcTime - 1 else nSrcTime);
          nSrcTime = (if n1Y < 0 \<and> \<not> (n100Y < 0 \<and> n4Y = 0) then nSrcTime + 1 else nSrcTime) in
      (n400Y * 400 + n100Y * 100 + n4Y * 4 + n1Y, nSrcTime))"

definition gm_yday :: "int \<Rightarrow> int \<Rightarrow> int \<times> int" where
  "gm_yday nYears nSrcTime =
     (let nDaysOfYear = ltfs_get_days_of_year (nYears + 2000);
          nYday = nSrcTime + 31 + 28 + (nDaysOfYear - 365) in
      if nDaysOfYear \<le> nYday then (nYears + 1, nYday - nDaysOfYear)
      else if nYday < 0 then (nYears - 1, nYday + ltfs_get_days_of_year (nYears - 1 + 2000))
      else (nYears, nYday))"

definition ltfs_gmtime :: "int \<Rightarrow> tm" where
  "ltfs_gmtime t =
     (let (sec, nSrcTime) = time_unit 60 t;
          (minute, nSrcTime) = time_unit 60 nSrcTime;
          (hour, nSrcTime) = time_unit 24 nSrcTime;
          nSrcTime = nSrcTime - 11017;
          wday = (nSrcTime + 3) smod 7;
          wday = (if wday < 0 then wday + 7 else wday);
          (nYears, rest) = gm_years nSrcTime;
          (nYears, nYday) = gm_yday nYears rest;
          (mday, mon) = ltfs_get_mday_from_yday (nYears + 2000) nYday in
      \<lparr>tm_sec = sec, tm_min = minute, tm_hour = hour, tm_mday = mday, tm_mon = mon,
       tm_year = to_int (nYears + 2000 - 1900), tm_wday = wday, tm_yday = nYday, tm_isdst = -1\<rparr>)"

text \<open>Time stamps with nanoseconds, and the range of the format.\<close>

record ltfs_timespec =
  tv_sec :: int
  tv_nsec :: int

definition LTFS_TIME_T_MAX :: int where "LTFS_TIME_T_MAX = 253402300799"
definition LTFS_TIME_T_MIN :: int where "LTFS_TIME_T_MIN = - 62167219200"
definition LTFS_NSEC_MAX :: int where "LTFS_NSEC_MAX = 999999999"
definition LTFS_NSEC_MIN :: int where "LTFS_NSEC_MIN = 0"
definition LTFS_TIME_OUT_OF_RANGE :: int where "LTFS_TIME_OUT_OF_RANGE = 1"

definition normalize_ltfs_time :: "ltfs_timespec \<Rightarrow> int \<times> ltfs_timespec" where
  "normalize_ltfs_time t =
     (if LTFS_TIME_T_MAX < tv_sec t
      then (LTFS_TIME_OUT_OF_RANGE, t\<lparr>tv_sec := LTFS_TIME_T_MAX, tv_nsec := LTFS_NSEC_MAX\<rparr>)
      else if tv_sec t < LTFS_TIME_T_MIN
      then (LTFS_TIME_OUT_OF_RANGE, t\<lparr>tv_sec := LTFS_TIME_T_MIN, tv_nsec := LTFS_NSEC_MIN\<rparr>)
      else (0, t))"

section \<open>The calendar\<close>

text \<open>Leap years, the lengths of the months, and the number of a day counted from 1 January 1970.\<close>

definition leap_year :: "int \<Rightarrow> bool" where
  "leap_year y \<longleftrightarrow> 4 dvd y \<and> (\<not> 100 dvd y \<or> 400 dvd y)"

definition month_days :: "int \<Rightarrow> int \<Rightarrow> int" where
  "month_days y m =
     (if m = 1 then (if leap_year y then 29 else 28) else if m \<in> {3, 5, 8, 10} then 30 else 31)"

definition year_start :: "int \<Rightarrow> int" where
  "year_start y = 365 * (y - 1970) + (y - 1) div 4 - (y - 1) div 100 + (y - 1) div 400 - 477"

definition month_start :: "int \<Rightarrow> int \<Rightarrow> int" where
  "month_start y m = (\<Sum>k\<leftarrow>[0..m - 1]. month_days y k)"

definition civil_date :: "int \<Rightarrow> int \<Rightarrow> int \<Rightarrow> bool" where
  "civil_date y m d \<longleftrightarrow> 0 \<le> m \<and> m < 12 \<and> 1 \<le> d \<and> d \<le> month_days y m"

definition civil_tm :: "tm \<Rightarrow> bool" where
  "civil_tm t \<longleftrightarrow> 0 \<le> tm_sec t \<and> tm_sec t < 60 \<and> 0 \<le> tm_min t \<and> tm_min t < 60 \<and>
     0 \<le> tm_hour t \<and> tm_hour t < 24 \<and> civil_date (tm_year t + 1900) (tm_mon t) (tm_mday t)"

definition civil_day :: "tm \<Rightarrow> int" where
  "civil_day t = year_start (tm_year t + 1900) + month_start (tm_year t + 1900) (tm_mon t) + tm_mday t - 1"

definition civil_seconds :: "tm \<Rightarrow> int" where
  "civil_seconds t = 86400 * civil_day t + 3600 * tm_hour t + 60 * tm_min t + tm_sec t"

lemma sdiv_smod_pos:
  assumes "0 \<le> a" "0 < b"
  shows "a sdiv b = a div b" "a smod b = a mod (b :: int)"
  using assms by (auto simp: signed_divide_int_def signed_modulo_int_def sgn_if minus_mult_div_eq_mod)

lemma sdiv_smod_neg:
  assumes "a < 0" "0 < b"
  shows "a sdiv b = - ((- a) div b)" "a smod b = - ((- a) mod (b :: int))"
  using assms by (auto simp: signed_divide_int_def signed_modulo_int_def sgn_if algebra_simps minus_mult_div_eq_mod)

lemma time_unit:
  assumes "0 < u"
  shows "time_unit u t = (t mod u, t div u)"
proof (cases "0 \<le> t")
  case True
  then show ?thesis using assms by (simp add: time_unit_def sdiv_smod_pos)
next
  case False
  have "t = u * (t div u) + t mod u" "0 \<le> t mod u" "t mod u < u" using assms by simp_all
  then have "(- t) div u = (if t mod u = 0 then - (t div u) else - (t div u) - 1)"
    "(- t) mod u = (if t mod u = 0 then 0 else u - t mod u)"
    using assms by (simp_all add: zdiv_zminus1_eq_if zmod_zminus1_eq_if)
  then show ?thesis using False assms
    by (auto simp: time_unit_def Let_def sdiv_smod_neg) (meson assms leD pos_mod_bound)
qed

lemma days_of_year: "ltfs_get_days_of_year y = (if leap_year y then 366 else 365)"
proof -
  have "y smod b = 0 \<longleftrightarrow> b dvd y" if "0 < b" for b
    using that by (cases "0 \<le> y") (auto simp: sdiv_smod_pos sdiv_smod_neg mod_eq_0_iff_dvd)
  moreover have "400 dvd y \<Longrightarrow> 4 dvd y" by (erule dvd_trans [rotated]) simp
  ultimately show ?thesis by (auto simp: ltfs_get_days_of_year_def leap_year_def)
qed

text \<open>1 March of the years around 2000.\<close>

definition march :: "int \<Rightarrow> int" where
  "march n = 365 * n + n div 4 - n div 100 + n div 400"

lemma div_step: "0 < k \<Longrightarrow> n div k = (n - 1) div k + (if k dvd n then 1 else (0 :: int))"
proof -
  assume k: "0 < k"
  have n: "n = k * (n div k) + n mod k" "0 \<le> n mod k" "n mod k < k" using k by simp_all
  show ?thesis
  proof (cases "n mod k = 0")
    case True
    then have "n - 1 = k * (n div k - 1) + (k - 1)" using n(1) by (simp add: algebra_simps)
    then have "(n - 1) div k = n div k - 1" using k by (intro int_div_pos_eq [where r = "k - 1"]) simp_all
    then show ?thesis using True by (simp add: dvd_eq_mod_eq_0)
  next
    case False
    have "n - 1 = k * (n div k) + (n mod k - 1)" using n(1) by simp
    then have "(n - 1) div k = n div k" using n False by (intro int_div_pos_eq [where r = "n mod k - 1"]) simp_all
    then show ?thesis using False by (simp add: dvd_eq_mod_eq_0)
  qed
qed

lemma leap_days:
  "y div 4 - y div 100 + y div 400 =
   (y - 1) div 4 - (y - 1) div 100 + (y - 1) div 400 + (ltfs_get_days_of_year y - 365)"
proof -
  have "400 dvd y \<Longrightarrow> 100 dvd y" "100 dvd y \<Longrightarrow> 4 dvd y" by (erule dvd_trans [rotated], simp)+
  moreover have "y div 4 = (y - 1) div 4 + (if 4 dvd y then 1 else 0)"
    "y div 100 = (y - 1) div 100 + (if 100 dvd y then 1 else 0)"
    "y div 400 = (y - 1) div 400 + (if 400 dvd y then 1 else 0)" by (rule div_step, simp)+
  note steps = this
  ultimately show ?thesis unfolding steps days_of_year leap_year_def
    by (cases "400 dvd y"; cases "100 dvd y"; cases "4 dvd y") simp_all
qed

lemma year_start_march: "year_start (n + 2000) = 11017 + march n - (ltfs_get_days_of_year (n + 2000) - 365) - 59"
proof -
  have sums: "a + 500 - (b + 20) + (c + 5) = a' - b' + c' + l \<Longrightarrow>
    365 * (n + 2000 - 1970) + a' - b' + c' - 477 = 11017 + (365 * n + a - b + c) - l - 59" for a b c a' b' c' l :: int
    by simp
  have "(n + 2000) div 4 = n div 4 + 500" "(n + 2000) div 100 = n div 100 + 20" "(n + 2000) div 400 = n div 400 + 5"
    by simp_all
  with leap_days [of "n + 2000"] show ?thesis unfolding year_start_def march_def by (intro sums) (simp only:)
qed

lemma year_start_step: "year_start (y + 1) = year_start y + ltfs_get_days_of_year y"
proof -
  have "a - b + c = a' - b' + c' + (l - 365) \<Longrightarrow>
    365 * (y + 1 - 1970) + a - b + c - 477 = 365 * (y - 1970) + a' - b' + c' - 477 + l" for a b c a' b' c' l :: int
    by simp
  from this [OF leap_days [of y]] show ?thesis unfolding year_start_def by (simp only: add_diff_cancel_right')
qed

text \<open>The number of days to 1 March in the mixed radix of the cycles, forwards and backwards.\<close>

lemma march_forward:
  assumes "0 \<le> h" "h < 4" "0 \<le> f" "f < 25" "0 \<le> k" "k < 4"
  shows "march (q * 400 + h * 100 + f * 4 + k) = 146097 * q + 36524 * h + 1461 * f + 365 * k"
proof -
  let ?y = "q * 400 + h * 100 + f * 4 + k"
  have "?y div 4 = 100 * q + 25 * h + f" by (rule int_div_pos_eq [where r = k]) (use assms in simp_all)
  moreover have "?y div 100 = 4 * q + h" by (rule int_div_pos_eq [where r = "f * 4 + k"]) (use assms in simp_all)
  moreover have "?y div 400 = q" by (rule int_div_pos_eq [where r = "h * 100 + f * 4 + k"]) (use assms in simp_all)
  ultimately show ?thesis unfolding march_def by simp
qed

lemma march_backward:
  assumes "0 \<le> h" "h < 4" "0 \<le> f" "f < 25" "0 \<le> k" "k < 5" "f = 24 \<Longrightarrow> k < 4"
  shows "march (- (q * 400 + h * 100 + f * 4 + k)) =
    - (146097 * q + 36524 * h + 1461 * f + 365 * k) -
    (if 0 < k \<and> (f \<noteq> 0 \<or> h = 0) \<or> 0 < h \<and> f = 0 then 1 else 0)"
proof -
  let ?y = "- (q * 400 + h * 100 + f * 4 + k)"
  let ?i = "if 0 < k then 1 else 0 :: int" and ?j = "if 0 < f * 4 + k then 1 else 0 :: int"
    and ?l = "if 0 < h * 100 + f * 4 + k then 1 else 0 :: int"
  have "?y div 100 = - (4 * q + h) - ?j"
    by (rule int_div_pos_eq [where r = "100 * ?j - (f * 4 + k)"]) (use assms in auto)
  moreover have "?y div 400 = - q - ?l"
    by (rule int_div_pos_eq [where r = "400 * ?l - (h * 100 + f * 4 + k)"]) (use assms in auto)
  moreover have "?y div 4 = (if k = 4 then - (100 * q + 25 * h + f) - 1 else - (100 * q + 25 * h + f) - ?i)"
    using int_div_pos_eq [of ?y 4 "- (100 * q + 25 * h + f) - ?i" "4 * ?i - k"] assms by auto
  ultimately show ?thesis unfolding march_def using assms by auto
qed

lemma march_400: "march (q * 400) = 146097 * q"
  using march_forward [of 0 0 0 q] by simp

text \<open>The years and days that the cycles give.\<close>

lemma digits:
  assumes "0 \<le> n" "0 < b"
  obtains q r where "n = b * q + r" "0 \<le> q" "0 \<le> r" "r < b" "n sdiv b = q" "n smod b = (r :: int)"
proof
  show "n = b * (n div b) + n mod b" by simp
qed (use assms in \<open>simp_all add: pos_imp_zdiv_nonneg_iff sdiv_smod_pos\<close>)

lemma gm_years_forward:
  assumes "0 \<le> s"
  shows "case gm_years s of (y, r) \<Rightarrow> s = march y + r \<and> - 365 < r \<and> r < 365"
proof -
  obtain q s1 where q: "s = 146097 * q + s1" "0 \<le> q" "0 \<le> s1" "s1 < 146097"
    "s sdiv 146097 = q" "s smod 146097 = s1" by (rule digits [OF assms zero_less_numeral])
  obtain h s2 where h: "s1 = 36524 * h + s2" "0 \<le> h" "0 \<le> s2" "s2 < 36524"
    "s1 sdiv 36524 = h" "s1 smod 36524 = s2" by (rule digits [OF q(3) zero_less_numeral])
  show ?thesis
  proof (cases "h = 4")
    case True
    then have s2: "s2 = 0" using q(4) h(1,3) by simp
    have "(- 1) sdiv 1461 = (0 :: int)" "(- 1) smod 1461 = (- 1 :: int)"
      "(- 1) sdiv 365 = (0 :: int)" "(- 1) smod 365 = (- 1 :: int)"
      by (simp_all add: signed_divide_int_def signed_modulo_int_def)
    then have "gm_years s = ((q + 1) * 400, - 1)"
      unfolding gm_years_def Let_def q(5,6) h(5,6) by (simp add: True s2)
    then show ?thesis using True s2 q(1) h(1) by (simp add: march_400 del: distrib_right_numeral)
  next
    case False
    then have "h < 4" using q(4) h(1,3) by linarith
    obtain f s3 where f: "s2 = 1461 * f + s3" "0 \<le> f" "0 \<le> s3" "s3 < 1461"
      "s2 sdiv 1461 = f" "s2 smod 1461 = s3" by (rule digits [OF h(3) zero_less_numeral])
    obtain k r where k: "s3 = 365 * k + r" "0 \<le> k" "0 \<le> r" "r < 365"
      "s3 sdiv 365 = k" "s3 smod 365 = r" by (rule digits [OF f(3) zero_less_numeral])
    have "f < 25" using f(1,3) h(4) by linarith
    have years: "gm_years s = (q * 400 + h * 100 + f * 4 + k, if k = 4 then r - 1 else r)"
      using False h(2) k(2) unfolding gm_years_def Let_def q(5,6) h(5,6) by (simp add: f(5,6) k(5,6))
    show ?thesis
    proof (cases "k = 4")
      case True
      then have "f < 24" "r = 0" using f(1,4) k(1,3) h(4) by linarith+
      then have "march (q * 400 + h * 100 + (f + 1) * 4 + 0) = 146097 * q + 36524 * h + 1461 * (f + 1) + 365 * 0"
        using h(2) f(2) \<open>h < 4\<close> by (intro march_forward) simp_all
      then show ?thesis using True \<open>r = 0\<close> years q(1) h(1) f(1) k(1) by (simp add: algebra_simps)
    next
      case False
      then have "k < 4" using f(4) k(1,3) by linarith
      then have "march (q * 400 + h * 100 + f * 4 + k) = 146097 * q + 36524 * h + 1461 * f + 365 * k"
        using h(2) f(2) k(2) \<open>h < 4\<close> \<open>f < 25\<close> by (intro march_forward) simp_all
      then show ?thesis using False k(3,4) years q(1) h(1) f(1) k(1) by simp
    qed
  qed
qed

lemma neg_digits:
  assumes "n \<le> 0" "0 < b"
  obtains q r where "n = - (b * q + r)" "0 \<le> q" "0 \<le> r" "r < b" "n sdiv b = - q" "n smod b = - (r :: int)"
proof
  show "n = - (b * ((- n) div b) + (- n) mod b)" by simp
  show "n sdiv b = - ((- n) div b)" "n smod b = - ((- n) mod b)"
    using assms by (cases "n = 0"; simp add: sdiv_smod_neg sdiv_smod_pos)+
qed (use assms in \<open>simp_all add: pos_imp_zdiv_nonneg_iff\<close>)

lemma gm_years_backward:
  assumes "s < 0"
  shows "case gm_years s of (y, r) \<Rightarrow> s = march y + r \<and> - 365 < r \<and> r < 365"
proof -
  have "s \<le> 0" using assms by simp
  then obtain q s1 where q: "s = - (146097 * q + s1)" "0 \<le> q" "0 \<le> s1" "s1 < 146097"
    "s sdiv 146097 = - q" "s smod 146097 = - s1" by (rule neg_digits [OF _ zero_less_numeral])
  from q(3) have "- s1 \<le> 0" by simp
  then obtain h s2 where h: "- s1 = - (36524 * h + s2)" "0 \<le> h" "0 \<le> s2" "s2 < 36524"
    "(- s1) sdiv 36524 = - h" "(- s1) smod 36524 = - s2" by (rule neg_digits [OF _ zero_less_numeral])
  from h(3) have "- s2 \<le> 0" by simp
  then obtain f s3 where f: "- s2 = - (1461 * f + s3)" "0 \<le> f" "0 \<le> s3" "s3 < 1461"
    "(- s2) sdiv 1461 = - f" "(- s2) smod 1461 = - s3" by (rule neg_digits [OF _ zero_less_numeral])
  have "f < 25" using f(1,3) h(4) by linarith
  define c where "c \<longleftrightarrow> 0 < h \<and> f = 0"
  define e where "e = (if c then - s3 + 1 else - s3)"
  have years: "gm_years s = ((- q) * 400 + (- h) * 100 + (- f) * 4 + e sdiv 365,
      if e sdiv 365 < 0 \<and> \<not> c then e smod 365 + 1 else e smod 365)" if "e sdiv 365 \<noteq> 4"
  proof -
    have "- h \<noteq> 4" using h(2) by simp
    then show ?thesis unfolding gm_years_def Let_def q(5,6) h(5,6)
      by (simp only: if_False f(5,6) neg_less_0_iff_less neg_equal_0_iff_equal c_def [symmetric] e_def [symmetric] that)
  qed
  show ?thesis
  proof (cases "e = 1")
    case True
    then have at: "c" "0 < h" "f = 0" "s3 = 0" using f(3) by (auto simp: e_def c_def split: if_splits)
    have "march (- (q * 400 + h * 100)) = - (146097 * q + 36524 * h) - 1"
    proof (cases "h = 4")
      case True
      then have year: "- (q * 400 + h * 100) = (- q - 1) * 400" by simp
      show ?thesis unfolding year march_400 using True by simp
    next
      case False
      then have "h < 4" using q(4) h(1,3) by linarith
      then show ?thesis using march_backward [of h 0 0 q] h(2) at(2) by simp
    qed
    moreover have one: "1 sdiv 365 = (0 :: int)" "1 smod 365 = (1 :: int)"
      by (simp_all add: signed_divide_int_def signed_modulo_int_def)
    have "gm_years s = (- (q * 400 + h * 100), 1)" using years unfolding True one by (simp add: at)
    ultimately show ?thesis using at q(1) h(1) f(1) by simp
  next
    case False
    then have "e \<le> 0" using f(3) by (auto simp: e_def split: if_splits)
    then obtain k r where k: "e = - (365 * k + r)" "0 \<le> k" "0 \<le> r" "r < 365"
      "e sdiv 365 = - k" "e smod 365 = - r" by (rule neg_digits [OF _ zero_less_numeral])
    have "h < 4"
    proof (rule ccontr)
      assume "\<not> h < 4"
      then have "h = 4" "s2 = 0" using q(4) h(1,3) by linarith+
      then show False using False f(1,2,3) by (auto simp: e_def c_def split: if_splits)
    qed
    moreover have "k < 5" "f = 24 \<Longrightarrow> k < 4" using f(1,4) k(1,3) h(4) by (auto simp: e_def split: if_splits)
    ultimately have bound: "march (- (q * 400 + h * 100 + f * 4 + k)) =
        - (146097 * q + 36524 * h + 1461 * f + 365 * k) -
        (if 0 < k \<and> (f \<noteq> 0 \<or> h = 0) \<or> 0 < h \<and> f = 0 then 1 else 0)"
      using h(2) f(2) k(2) \<open>f < 25\<close> by (intro march_backward) simp_all
    have k4: "e sdiv 365 \<noteq> 4" unfolding k(5) using k(2) by simp
    have neg: "e sdiv 365 < 0 \<longleftrightarrow> 0 < k" unfolding k(5) by simp
    have "gm_years s = (- (q * 400 + h * 100 + f * 4 + k), if 0 < k \<and> \<not> c then 1 - r else - r)"
      using years [OF k4] unfolding neg unfolding k(5,6) by simp
    moreover have "(0 < k \<and> (f \<noteq> 0 \<or> h = 0) \<or> 0 < h \<and> f = 0) \<longleftrightarrow> (0 < k \<and> \<not> c) \<or> c"
      using h(2) by (auto simp: c_def)
    ultimately show ?thesis using bound q(1) h(1) f(1) k(1,3,4) by (auto simp: e_def split: if_splits)
  qed
qed

lemma gm_years_march: "gm_years s = (y, r) \<Longrightarrow> s = march y + r \<and> - 365 < r \<and> r < 365"
  using gm_years_forward [of s] gm_years_backward [of s] by (cases "0 \<le> s") simp_all

lemma year_start_mono: "y \<le> z \<Longrightarrow> year_start y + 365 * (z - y) \<le> year_start z"
proof (induction z rule: int_ge_induct)
  case (step z)
  then show ?case using year_start_step [of z] days_of_year [of z] by (simp split: if_splits)
qed simp

lemma year_start_le: "y \<le> z \<Longrightarrow> year_start y \<le> year_start z"
  using year_start_mono [of y z] by simp

lemma gm_yday:
  assumes "s = march y + r" "- 365 < r" "r < 365" "gm_yday y r = (y', d)"
  shows "year_start (y' + 2000) + d = s + 11017 \<and> 0 \<le> d \<and> d < ltfs_get_days_of_year (y' + 2000)"
proof -
  have len: "ltfs_get_days_of_year n = 365 \<or> ltfs_get_days_of_year n = 366" for n by (simp add: days_of_year)
  have "year_start (y + 1 + 2000) = year_start (y + 2000) + ltfs_get_days_of_year (y + 2000)"
    "year_start (y + 2000) = year_start (y - 1 + 2000) + ltfs_get_days_of_year (y - 1 + 2000)"
    using year_start_step [of "y + 2000"] year_start_step [of "y - 1 + 2000"] by (simp_all add: algebra_simps)
  note facts = this year_start_march [of y] len [of "y + 2000"] len [of "y - 1 + 2000"] len [of "y + 1 + 2000"] assms(1-3)
  let ?n = "r + 31 + 28 + (ltfs_get_days_of_year (y + 2000) - 365)"
  consider "ltfs_get_days_of_year (y + 2000) \<le> ?n" "y' = y + 1" "d = ?n - ltfs_get_days_of_year (y + 2000)"
    | "?n < 0" "y' = y - 1" "d = ?n + ltfs_get_days_of_year (y - 1 + 2000)"
    | "0 \<le> ?n" "?n < ltfs_get_days_of_year (y + 2000)" "y' = y" "d = ?n"
    using assms(4) by (auto simp: gm_yday_def Let_def split: if_splits)
  then show ?thesis
  proof cases
    case 1
    show ?thesis unfolding 1(2,3) using 1(1) facts by (intro conjI) linarith+
  next
    case 2
    show ?thesis unfolding 2(2,3) using 2(1) facts by (intro conjI) linarith+
  next
    case 3
    show ?thesis unfolding 3(3,4) using 3(1,2) facts by (intro conjI) linarith+
  qed
qed

text \<open>The months of a year.\<close>

lemma month_start_step: "0 \<le> m \<Longrightarrow> month_start y (m + 1) = month_start y m + month_days y m"
  using upto_rec2 [of 0 m] by (simp add: month_start_def)

lemma month_start_vals:
  "month_start y 0 = 0" "month_start y 1 = 31" "month_start y 2 = 31 + month_days y 1"
  "month_start y 3 = 62 + month_days y 1" "month_start y 4 = 92 + month_days y 1"
  "month_start y 5 = 123 + month_days y 1" "month_start y 6 = 153 + month_days y 1"
  "month_start y 7 = 184 + month_days y 1" "month_start y 8 = 215 + month_days y 1"
  "month_start y 9 = 245 + month_days y 1" "month_start y 10 = 276 + month_days y 1"
  "month_start y 11 = 306 + month_days y 1"
proof -
  show start: "month_start y 0 = 0" by (simp add: month_start_def)
  note steps = month_start_step [of 0 y] month_start_step [of 1 y] month_start_step [of 2 y] month_start_step [of 3 y]
    month_start_step [of 4 y] month_start_step [of 5 y] month_start_step [of 6 y] month_start_step [of 7 y]
    month_start_step [of 8 y] month_start_step [of 9 y] month_start_step [of 10 y]
  show "month_start y 1 = 31" "month_start y 2 = 31 + month_days y 1"
    "month_start y 3 = 62 + month_days y 1" "month_start y 4 = 92 + month_days y 1"
    "month_start y 5 = 123 + month_days y 1" "month_start y 6 = 153 + month_days y 1"
    "month_start y 7 = 184 + month_days y 1" "month_start y 8 = 215 + month_days y 1"
    "month_start y 9 = 245 + month_days y 1" "month_start y 10 = 276 + month_days y 1"
    "month_start y 11 = 306 + month_days y 1"
    using steps start by (simp_all add: month_days_def)
qed

lemma february: "month_days y 1 = ltfs_get_days_of_year y - 337"
  by (simp add: month_days_def days_of_year)

lemma mday_from_yday:
  assumes "0 \<le> n" "n < ltfs_get_days_of_year y" "ltfs_get_mday_from_yday y n = (d, m)"
  shows "civil_date y m d \<and> month_start y m + d - 1 = n"
proof (cases "leap_year y")
  case True
  then show ?thesis using assms
    by (auto simp: ltfs_get_mday_from_yday_def anDaysOfMonth_def days_of_year civil_date_def month_start_vals
        month_days_def split: if_splits)
next
  case False
  then show ?thesis using assms
    by (auto simp: ltfs_get_mday_from_yday_def anDaysOfMonth_def days_of_year civil_date_def month_start_vals
        month_days_def split: if_splits)
qed

section \<open>Broken-down time\<close>

lemma to_int_id: "in_int x \<Longrightarrow> to_int x = x"
  by (simp add: in_int_def to_int_def)

text \<open>The day, in days since 1970, and the time of day of a time stamp.\<close>

lemma gmtime_parts:
  assumes "ltfs_gmtime t = g"
  obtains y where "tm_year g = to_int (y - 1900)" "civil_date y (tm_mon g) (tm_mday g)"
    "year_start y + month_start y (tm_mon g) + tm_mday g - 1 = t div 86400"
    "year_start y + tm_yday g = t div 86400" "0 \<le> tm_yday g" "tm_yday g < ltfs_get_days_of_year y"
    "tm_wday g = (t div 86400 + 4) mod 7"
    "tm_sec g = t mod 60" "tm_min g = t div 60 mod 60" "tm_hour g = t div 3600 mod 24"
proof -
  let ?s = "t div 86400 - 11017"
  obtain y r where years: "gm_years ?s = (y, r)" by (rule prod.exhaust)
  obtain y' d where yday: "gm_yday y r = (y', d)" by (rule prod.exhaust)
  obtain md m where mday: "ltfs_get_mday_from_yday (y' + 2000) d = (md, m)" by (rule prod.exhaust)
  have divs: "t div 60 div 60 = t div 3600" "t div 3600 div 24 = t div 86400"
    by (simp_all add: zdiv_zmult2_eq [symmetric])
  have g: "g = \<lparr>tm_sec = t mod 60, tm_min = t div 60 mod 60, tm_hour = t div 3600 mod 24, tm_mday = md, tm_mon = m,
      tm_year = to_int (y' + 2000 - 1900),
      tm_wday = (if (?s + 3) smod 7 < 0 then (?s + 3) smod 7 + 7 else (?s + 3) smod 7),
      tm_yday = d, tm_isdst = -1\<rparr>"
    unfolding assms [symmetric] ltfs_gmtime_def by (simp add: time_unit divs years yday mday Let_def)
  have wday: "(if n smod 7 < 0 then n smod 7 + 7 else n smod 7) = n mod 7" for n :: int
    using time_unit [of 7 n] by (simp add: time_unit_def Let_def split: if_splits)
  have "(?s + 3) mod 7 = ((t div 86400 + 4) - 7 * 1574) mod 7" by simp
  also have "\<dots> = (t div 86400 + 4) mod 7" by (simp only: mod_mult_self4 diff_conv_add_uminus mult_minus_right [symmetric] mod_mult_self2)
  finally have "(?s + 3) mod 7 = (t div 86400 + 4) mod 7" .
  moreover have "year_start (y' + 2000) + d = t div 86400" "0 \<le> d" "d < ltfs_get_days_of_year (y' + 2000)"
    using gm_years_march [OF years] gm_yday [OF _ _ _ yday] by auto
  moreover from mday_from_yday [OF this(2,3) mday]
  have "civil_date (y' + 2000) m md" "month_start (y' + 2000) m + md - 1 = d" by auto
  ultimately show thesis
    using wday [of "t div 86400 - 11014"] by (intro that [of "y' + 2000"]) (simp_all add: g split: if_splits)
qed

lemma month_cases:
  assumes "civil_date y m d"
  shows "m = 0 \<or> m = 1 \<or> m = 2 \<or> m = 3 \<or> m = 4 \<or> m = 5 \<or> m = 6 \<or> m = 7 \<or> m = 8 \<or> m = 9 \<or> m = 10 \<or> m = 11"
  using assms unfolding civil_date_def by presburger

lemma month_start_le:
  assumes "civil_date y m d"
  shows "0 \<le> month_start y m" "month_start y m + d \<le> ltfs_get_days_of_year y"
proof -
  have "d \<le> month_days y m" using assms by (simp add: civil_date_def)
  then show "0 \<le> month_start y m" "month_start y m + d \<le> ltfs_get_days_of_year y"
    using month_cases [OF assms] unfolding days_of_year
    by (elim disjE; simp add: month_start_vals month_days_def split: if_splits)+
qed

lemma date_day:
  assumes "civil_date y m d" "year_start y + month_start y m + d - 1 = n"
  shows "year_start y \<le> n" "n < year_start (y + 1)"
  using assms month_start_le [OF assms(1)] year_start_step [of y] by (auto simp: civil_date_def)

lemma year_unique:
  assumes "year_start y \<le> n" "n < year_start (y + 1)" "year_start z \<le> n" "n < year_start (z + 1)"
  shows "y = z"
proof (rule ccontr)
  assume "y \<noteq> z"
  then consider "y + 1 \<le> z" | "z + 1 \<le> y" by linarith
  then show False using assms year_start_mono [of "y + 1" z] year_start_mono [of "z + 1" y] by cases simp_all
qed

lemma month_unique:
  assumes "civil_date y m d" "civil_date y m' d'" "month_start y m + d = month_start y m' + d'"
  shows "m = m' \<and> d = d'"
proof -
  have later: "month_start y m + month_days y m \<le> month_start y m'"
    if "0 \<le> m" "m < m'" for m m'
  proof -
    have "m + 1 \<le> m'" using that by simp
    then show ?thesis
    proof (induction m' rule: int_ge_induct)
      case base
      then show ?case using month_start_step [of m y] that(1) by simp
    next
      case (step i)
      then show ?case using month_start_step [of i y] that(1) by (simp add: month_days_def split: if_splits)
    qed
  qed
  from assms(1,2) have "0 \<le> m" "0 \<le> m'" "d \<le> month_days y m" "d' \<le> month_days y m'" "1 \<le> d" "1 \<le> d'"
    by (simp_all add: civil_date_def)
  then have "\<not> m < m'" "\<not> m' < m" using later [of m m'] later [of m' m] assms(3) by linarith+
  then show ?thesis using assms(3) by simp
qed

text \<open>The sum of \<open>ltfs_timegm\<close> with the divisions of the calendar.\<close>

lemma year_term: "(1461 * n) div 4 = 365 * n + n div (4 :: int)"
proof -
  have "1461 * n = n + 4 * (365 * n)" by simp
  then show ?thesis by (simp only: div_mult_self2 zero_neq_numeral not_False_eq_True)
qed

lemma century_term: "(3 * ((n + 4900) div 100)) div 4 = n div 100 - n div (400 :: int) + 36"
proof -
  have "(n + 4900) div 100 = n div 100 + 49" by simp
  moreover have "(3 * (k + 49)) div 4 = k - k div 4 + 36" for k :: int
  proof -
    have "3 * (k + 49) = 4 * (k - k div 4 + 36) + (3 - k mod 4)" by (simp add: minus_mod_eq_mult_div [symmetric])
    then show ?thesis by (rule int_div_pos_eq) (use pos_mod_bound [of 4 k] pos_mod_sign [of 4 k] in simp_all)
  qed
  moreover have "n div 100 div 4 = n div 400" by (simp add: zdiv_zmult2_eq [symmetric])
  ultimately show ?thesis by simp
qed

lemma timegm_days:
  assumes "civil_date y m d" "- 4799 \<le> y" "tmp = (m - 13) sdiv 12"
  shows "(1461 * (y - 1900 + 6700 + tmp)) sdiv 4 + (367 * (m - 1 - 12 * tmp)) sdiv 12 -
      (3 * ((y - 1900 + 6800 + tmp) sdiv 100)) sdiv 4 + d - 2472663 =
    year_start y + month_start y m + d - 1"
proof -
  have tmp: "tmp = (if m < 2 then - 1 else 0)"
    using month_cases [OF assms(1)] assms(3) by (elim disjE) (simp_all add: signed_divide_int_def)
  let ?n = "y + tmp"
  have pos: "0 \<le> 1461 * (y - 1900 + 6700 + tmp)" "0 \<le> y - 1900 + 6800 + tmp" using assms(2) tmp by simp_all
  then have pos': "0 \<le> 3 * ((y - 1900 + 6800 + tmp) div 100)" by (simp add: pos_imp_zdiv_nonneg_iff)
  have "(1461 * (y - 1900 + 6700 + tmp)) div 4 = 365 * ?n + ?n div 4 + 1753200"
    using year_term [of "?n + 4800"] by (simp add: algebra_simps)
  moreover have "(3 * ((y - 1900 + 6800 + tmp) div 100)) div 4 = ?n div 100 - ?n div 400 + 36"
    using century_term [of ?n] by (simp add: algebra_simps)
  moreover have "year_start y + month_start y m = 365 * ?n + (?n div 4 - ?n div 100 + ?n div 400) +
      (367 * (m - 1 - 12 * tmp)) sdiv 12 - 719498"
  proof (cases "m < 2")
    case True
    then have n: "?n = y - 1" using tmp by simp
    have "m = 0 \<or> m = 1" using True assms(1) by (auto simp: civil_date_def)
    then have "month_start y m = (367 * (m - 1 - 12 * tmp)) sdiv 12 - 336"
      using True tmp by (elim disjE) (simp_all add: month_start_vals signed_divide_int_def)
    then show ?thesis unfolding n year_start_def by simp
  next
    case False
    have "year_start y = 365 * y - 365 * 1970 - 477 + (y div 4 - y div 100 + y div 400) - (ltfs_get_days_of_year y - 365)"
      unfolding leap_days [of y] year_start_def by simp
    moreover have "month_start y m = (367 * (m - 1)) sdiv 12 - 336 + ltfs_get_days_of_year y"
      using month_cases [OF assms(1)] False
      by (elim disjE) (simp_all add: month_start_vals february signed_divide_int_def)
    ultimately show ?thesis using tmp False by simp
  qed
  ultimately show ?thesis unfolding sdiv_smod_pos(1) [OF pos(1) zero_less_numeral]
    sdiv_smod_pos(1) [OF pos(2) zero_less_numeral] sdiv_smod_pos(1) [OF pos' zero_less_numeral] by simp
qed

lemma timegm_civil:
  assumes "civil_tm t" "- 4799 \<le> tm_year t + 1900" "tm_year t + 1900 \<le> 1465072"
  shows "ltfs_timegm t = Some (civil_seconds t)"
proof -
  let ?y = "tm_year t + 1900" and ?tmp = "(tm_mon t - 13) sdiv 12"
  have date: "civil_date ?y (tm_mon t) (tm_mday t)" and time: "0 \<le> tm_hour t" "tm_hour t < 24" "0 \<le> tm_min t" "tm_min t < 60"
    using assms(1) by (simp_all add: civil_tm_def)
  note days = timegm_days [OF date assms(2) refl]
  have tmp: "?tmp = - 1 \<or> ?tmp = 0"
    using month_cases [OF date] by (elim disjE) (simp_all add: signed_divide_int_def)
  have month: "0 \<le> tm_mon t" "tm_mon t < 12" "1 \<le> tm_mday t" "tm_mday t \<le> 31"
    using date by (auto simp: civil_date_def month_days_def split: if_splits)
  have m: "0 \<le> (367 * (tm_mon t - 1 - 12 * ?tmp)) sdiv 12" "(367 * (tm_mon t - 1 - 12 * ?tmp)) sdiv 12 \<le> 400"
    using month_cases [OF date] by (elim disjE; simp add: signed_divide_int_def)+
  define tmp where "tmp = ?tmp"
  define n where "n = tm_year t + 6700 + tmp"
  have n: "0 \<le> n" "n \<le> 1469872" using assms(2,3) tmp by (auto simp: n_def tmp_def)
  define A where "A = (1461 * n) sdiv 4"
  have A: "0 \<le> A" "A \<le> 536870912" using n by (simp_all add: A_def sdiv_smod_pos)
  define M where "M = (367 * (tm_mon t - 1 - 12 * tmp)) sdiv 12"
  have M: "0 \<le> M" "M \<le> 400" using m by (simp_all add: M_def tmp_def)
  define C where "C = (tm_year t + 6800 + tmp) sdiv 100"
  have C: "0 \<le> C" "C \<le> 14700" using n by (simp_all add: C_def sdiv_smod_pos n_def)
  define B where "B = (3 * C) sdiv 4"
  have B: "0 \<le> B" "B \<le> 14700" using C by (simp_all add: B_def sdiv_smod_pos)
  have "- 1 \<le> tmp" "tmp \<le> 0" using tmp by (auto simp: tmp_def)
  note bounds = this n A M C B month time assms(2,3)
  have sum: "ltfs_timegm t =
      (if list_all in_int
           [tm_mon t - 13, tm_year t + 6700, n, 1461 * n, tm_mon t - 1, 12 * tmp, tm_mon t - 1 - 12 * tmp,
            367 * (tm_mon t - 1 - 12 * tmp), tm_year t + 6800, tm_year t + 6800 + tmp, 3 * C,
            A + M, A + M - B, A + M - B + tm_mday t, A + M - B + tm_mday t - 2472663,
            3600 * tm_hour t, 60 * tm_min t]
       then Some (86400 * (A + M - B + tm_mday t - 2472663) + 3600 * tm_hour t + 60 * tm_min t + tm_sec t) else None)"
    unfolding ltfs_timegm_def Let_def A_def M_def B_def C_def n_def tmp_def ..
  have "A + M - B + tm_mday t - 2472663 = civil_day t"
    using days unfolding civil_day_def A_def M_def B_def C_def n_def tmp_def by simp
  then show ?thesis unfolding sum civil_seconds_def using bounds by (simp add: in_int_def)
qed

lemma day_seconds: "86400 * (t div 86400) + 3600 * (t div 3600 mod 24) + 60 * (t div 60 mod 60) + t mod 60 = (t :: int)"
proof -
  have sum: "60 * a + x = t \<Longrightarrow> 60 * b + y = a \<Longrightarrow> 24 * c + z = b \<Longrightarrow> 86400 * c + 3600 * z + 60 * y + x = t"
    for a b c x y z :: int by simp
  have "t div 60 div 60 = t div 3600" "t div 3600 div 24 = t div 86400" by (simp_all add: zdiv_zmult2_eq [symmetric])
  with mult_div_mod_eq [of 60 "t div 60"] mult_div_mod_eq [of 24 "t div 3600"] mult_div_mod_eq [of 60 t]
  show ?thesis by (intro sum) (simp_all only:)
qed

lemma gmtime_civil:
  assumes "\<bar>t div 86400\<bar> \<le> 700000000000" "g = ltfs_gmtime t"
  shows "civil_tm g" "civil_seconds g = t" "civil_day g = t div 86400" "tm_wday g = (t div 86400 + 4) mod 7"
    "year_start (tm_year g + 1900) + tm_yday g = t div 86400"
proof -
  from gmtime_parts [OF assms(2) [symmetric]] obtain y where
    parts: "tm_year g = to_int (y - 1900)" "civil_date y (tm_mon g) (tm_mday g)"
    "year_start y + month_start y (tm_mon g) + tm_mday g - 1 = t div 86400"
    "year_start y + tm_yday g = t div 86400" "tm_wday g = (t div 86400 + 4) mod 7"
    "tm_sec g = t mod 60" "tm_min g = t div 60 mod 60" "tm_hour g = t div 3600 mod 24" by metis
  note assms(1)
  moreover note date_day [OF parts(2,3)]
  moreover have "year_start 1970 = 0" by (simp add: year_start_def)
  ultimately have "\<bar>y - 1970\<bar> \<le> 2000000000"
    using year_start_mono [of 1970 y] year_start_mono [of "y + 1" 1970] by (cases "1970 \<le> y") auto
  then have "in_int (y - 1900)" by (auto simp: in_int_def abs_le_iff)
  then have year: "tm_year g + 1900 = y" unfolding parts(1) by (simp add: to_int_id)
  show day: "civil_day g = t div 86400" unfolding civil_day_def year using parts(3) by simp
  show "civil_seconds g = t" unfolding civil_seconds_def day parts(6-8) by (rule day_seconds)
  show "civil_tm g" unfolding civil_tm_def year using parts(2,6-8) by simp
  show "tm_wday g = (t div 86400 + 4) mod 7" "year_start (tm_year g + 1900) + tm_yday g = t div 86400"
    unfolding year by (rule parts)+
qed

lemma civil_day_bounds:
  assumes "civil_tm g"
  shows "year_start (tm_year g + 1900) \<le> civil_day g" "civil_day g < year_start (tm_year g + 1900 + 1)"
    "civil_seconds g div 86400 = civil_day g"
proof -
  have "civil_date (tm_year g + 1900) (tm_mon g) (tm_mday g)" using assms by (simp add: civil_tm_def)
  from date_day [OF this refl] show "year_start (tm_year g + 1900) \<le> civil_day g"
    "civil_day g < year_start (tm_year g + 1900 + 1)" unfolding civil_day_def .
  show "civil_seconds g div 86400 = civil_day g"
    using assms by (intro int_div_pos_eq [where r = "3600 * tm_hour g + 60 * tm_min g + tm_sec g"])
      (simp_all add: civil_tm_def civil_seconds_def)
qed

lemma civil_year:
  assumes "civil_tm g" "year_start a \<le> civil_seconds g div 86400" "civil_seconds g div 86400 < year_start (b + 1)"
  shows "a \<le> tm_year g + 1900" "tm_year g + 1900 \<le> b"
proof -
  let ?y = "tm_year g + 1900"
  note day = civil_day_bounds(1,2) [OF assms(1)] assms(2,3) [unfolded civil_day_bounds(3) [OF assms(1)]]
  show "a \<le> ?y"
  proof (rule ccontr)
    assume "\<not> a \<le> ?y"
    then have "year_start (?y + 1) \<le> year_start a" by (intro year_start_le) simp
    with day show False by simp
  qed
  show "?y \<le> b"
  proof (rule ccontr)
    assume "\<not> ?y \<le> b"
    then have "year_start (b + 1) \<le> year_start ?y" by (intro year_start_le) simp
    with day show False by simp
  qed
qed

lemma clock:
  assumes "0 \<le> s" "s < 60" "0 \<le> m" "m < 60"
  shows "(3600 * h + 60 * m + s) mod 60 = s" "(3600 * h + 60 * m + s) div 60 mod 60 = m"
    "(3600 * h + 60 * m + s) div 3600 = (h :: int)"
proof -
  let ?n = "3600 * h + 60 * m + s"
  show "?n mod 60 = s" by (rule int_mod_pos_eq [where q = "60 * h + m"]) (use assms in simp_all)
  have "?n div 60 = 60 * h + m" by (rule int_div_pos_eq [where r = s]) (use assms in simp_all)
  then show "?n div 60 mod 60 = m" using assms(3,4) by simp
  show "?n div 3600 = h" by (rule int_div_pos_eq [where r = "60 * m + s"]) (use assms in simp_all)
qed

lemma civil_unique:
  assumes "civil_tm g" "civil_tm h" "civil_seconds g = civil_seconds h"
  shows "tm_sec g = tm_sec h" "tm_min g = tm_min h" "tm_hour g = tm_hour h"
    "tm_mday g = tm_mday h" "tm_mon g = tm_mon h" "tm_year g = tm_year h"
proof -
  note g = civil_day_bounds [OF assms(1)] and h = civil_day_bounds [OF assms(2)]
  have day: "civil_day g = civil_day h" using g(3) h(3) assms(3) by simp
  have "tm_year g + 1900 = tm_year h + 1900" by (rule year_unique [OF g(1,2) [unfolded day] h(1,2)])
  then show year: "tm_year g = tm_year h" by simp
  have "tm_mon g = tm_mon h \<and> tm_mday g = tm_mday h"
    using assms(1,2) day year by (intro month_unique [of "tm_year g + 1900"]) (simp_all add: civil_tm_def civil_day_def)
  then show "tm_mon g = tm_mon h" "tm_mday g = tm_mday h" by simp_all
  have "3600 * tm_hour g + 60 * tm_min g + tm_sec g = 3600 * tm_hour h + 60 * tm_min h + tm_sec h"
    using assms(3) day by (simp add: civil_seconds_def)
  with clock [of "tm_sec g" "tm_min g" "tm_hour g"] clock [of "tm_sec h" "tm_min h" "tm_hour h"] assms(1,2)
  show "tm_hour g = tm_hour h" "tm_min g = tm_min h" "tm_sec g = tm_sec h" unfolding civil_tm_def by auto
qed

text \<open>C21.  For every time stamp within nineteen hundred million years of 1970, \<open>ltfs_gmtime\<close> computes the date and
  time of the Gregorian calendar: all fields are within their ranges, the day exists in its month, the fields
  add up to the time stamp, and the day of the week and of the year belong to that date.\<close>

theorem gmtime_calendar:
  assumes "\<bar>t\<bar> \<le> 60000000000000000" "g = ltfs_gmtime t"
  shows "civil_tm g \<and> civil_seconds g = t \<and> tm_wday g = (civil_day g + 4) mod 7 \<and>
    0 \<le> tm_yday g \<and> tm_yday g < ltfs_get_days_of_year (tm_year g + 1900) \<and>
    civil_day g = year_start (tm_year g + 1900) + tm_yday g"
proof -
  have "\<bar>t div 86400\<bar> \<le> 700000000000" using assms(1) by linarith
  note g = gmtime_civil [OF this assms(2)]
  then have "civil_date (tm_year g + 1900) (tm_mon g) (tm_mday g)" by (simp add: civil_tm_def)
  from date_day [OF this refl] g(3,5) year_start_step [of "tm_year g + 1900"]
  show ?thesis using g unfolding civil_day_def by simp
qed

theorem gmtime_calendar_witness:
  "civil_tm (ltfs_gmtime (- 1)) \<and> civil_seconds (ltfs_gmtime (- 1)) = - 1"
  using gmtime_calendar [of "- 1" "ltfs_gmtime (- 1)"] by simp

text \<open>C22.  \<open>ltfs_timegm\<close> undoes \<open>ltfs_gmtime\<close> for every time stamp from the year -4799 up to the end of the year
  1465072, the years in which its sums of type int do not overflow.\<close>

theorem timegm_gmtime:
  assumes "- 213608966400 \<le> t" "t < 46171071187200"
  shows "ltfs_timegm (ltfs_gmtime t) = Some t"
proof -
  have year: "year_start (- 4799) = - 2472326" "year_start (1465072 + 1) = 534387398" by (simp_all add: year_start_def)
  have day: "- 2472326 \<le> t div 86400" "t div 86400 < 534387398" using assms by linarith+
  then have "\<bar>t div 86400\<bar> \<le> 700000000000" by simp
  note g = gmtime_civil [OF this refl]
  show ?thesis
    using timegm_civil [OF g(1)] civil_year [OF g(1), of "- 4799" 1465072] day unfolding g(2) year by simp
qed

theorem timegm_gmtime_witness: "ltfs_timegm (ltfs_gmtime (- 62167219200)) = Some (- 62167219200)"
  by (rule timegm_gmtime) simp_all

text \<open>C23.  \<open>ltfs_gmtime\<close> gives back the date and time that \<open>ltfs_timegm\<close> was given, for every date of the calendar
  in these years.\<close>

theorem gmtime_timegm:
  assumes "civil_tm g" "- 4799 \<le> tm_year g + 1900" "tm_year g + 1900 \<le> 1465072"
  shows "\<exists>t. ltfs_timegm g = Some t \<and>
    ltfs_gmtime t = g\<lparr>tm_wday := tm_wday (ltfs_gmtime t), tm_yday := tm_yday (ltfs_gmtime t),
      tm_isdst := tm_isdst (ltfs_gmtime t)\<rparr>"
proof -
  let ?t = "civil_seconds g"
  have "year_start (- 4799) = - 2472326" "year_start (1465072 + 1) = 534387398" by (simp_all add: year_start_def)
  moreover have "tm_year g + 1900 + 1 \<le> 1465072 + 1" using assms(3) by simp
  note year_start_le [OF this] year_start_le [OF assms(2)]
  ultimately have "\<bar>?t div 86400\<bar> \<le> 700000000000" using civil_day_bounds [OF assms(1)] by simp
  note h = gmtime_civil [OF this refl]
  from civil_unique [OF h(1) assms(1) h(2)] have "ltfs_gmtime ?t = g\<lparr>tm_wday := tm_wday (ltfs_gmtime ?t),
      tm_yday := tm_yday (ltfs_gmtime ?t), tm_isdst := tm_isdst (ltfs_gmtime ?t)\<rparr>" by simp
  then show ?thesis using timegm_civil [OF assms] by blast
qed

definition leap_day :: tm where
  "leap_day = \<lparr>tm_sec = 59, tm_min = 59, tm_hour = 23, tm_mday = 29, tm_mon = 1, tm_year = 100,
     tm_wday = 0, tm_yday = 0, tm_isdst = 0\<rparr>"

theorem gmtime_timegm_witness:
  "\<exists>t. ltfs_timegm leap_day = Some t \<and>
    ltfs_gmtime t = leap_day\<lparr>tm_wday := tm_wday (ltfs_gmtime t), tm_yday := tm_yday (ltfs_gmtime t),
      tm_isdst := tm_isdst (ltfs_gmtime t)\<rparr>"
  by (rule gmtime_timegm) (simp_all add: leap_day_def civil_tm_def civil_date_def month_days_def leap_year_def)

end
