(* ===== verification/XmlText.thy ===== *)
theory XmlText
  imports CText Calendar TapeOps "HOL-Library.Monad_Syntax"
begin

text \<open>
  The text of single values in an index: time stamps, numbers, booleans, UUIDs, versions and partitions, from
  \<open>libltfs/xml_reader.c\<close>, \<open>xml_writer.c\<close> and \<open>xml_reader_libltfs.c\<close>.  A result is the return value with the
  value behind the output pointer; arguments are not NULL.  The outcome of sscanf for a year that does not fit
  an int, and of the sums of \<open>ltfs_timegm\<close>, is \<open>None\<close> where C leaves it undefined.
\<close>

section \<open>Time stamps\<close>

definition xml_format_time :: "bool \<Rightarrow> ltfs_timespec \<Rightarrow> int \<times> string option" where
  "xml_format_time alloc t =
     (let (normalized, t) = normalize_ltfs_time t;
          g = ltfs_gmtime (tv_sec t) in
      if \<not> alloc then (-1, None)
      else (normalized,
        Some (print_pad_int 4 (tm_year g + 1900) @ ''-'' @ print_pad_int 2 (tm_mon g + 1) @ ''-'' @
              print_pad_int 2 (tm_mday g) @ ''T'' @ print_pad_int 2 (tm_hour g) @ '':'' @
              print_pad_int 2 (tm_min g) @ '':'' @ print_pad_int 2 (tm_sec g) @ ''.'' @
              print_pad_int 9 (tv_nsec t) @ ''Z'')))"

text \<open>The conversions and the literal characters of the format string of sscanf.\<close>

definition scan_d :: "nat \<Rightarrow> string \<Rightarrow> (int \<times> string) option" where
  "scan_d w s = map_option (\<lambda>(neg, v, rest). (if neg then - int v else int v, rest)) (scan_number 10 w s)"

definition scan_literal :: "char \<Rightarrow> string \<Rightarrow> string option" where
  "scan_literal c s = (case s of d # r \<Rightarrow> if d = c then Some r else None | [] \<Rightarrow> None)"

definition xml_scan_time :: "string \<Rightarrow> (tm \<times> int) option" where
  "xml_scan_time s = do {
     (y, s) \<leftarrow> scan_d (length s) s; s \<leftarrow> scan_literal (CHR ''-'') s;
     (mo, s) \<leftarrow> scan_d 2 s; s \<leftarrow> scan_literal (CHR ''-'') s;
     (d, s) \<leftarrow> scan_d 2 s; s \<leftarrow> scan_literal (CHR ''T'') s;
     (h, s) \<leftarrow> scan_d 2 s; s \<leftarrow> scan_literal (CHR '':'') s;
     (mi, s) \<leftarrow> scan_d 2 s; s \<leftarrow> scan_literal (CHR '':'') s;
     (sec, s) \<leftarrow> scan_d 2 s; s \<leftarrow> scan_literal (CHR ''.'') s;
     (ns, s) \<leftarrow> scan_d 9 s;
     Some (\<lparr>tm_sec = sec, tm_min = mi, tm_hour = h, tm_mday = d, tm_mon = mo, tm_year = y,
            tm_wday = 0, tm_yday = 0, tm_isdst = 0\<rparr>, ns)
   }"

definition xml_parse_time :: "string \<Rightarrow> ltfs_timespec \<Rightarrow> (int \<times> ltfs_timespec) option" where
  "xml_parse_time fmt_time rawtime =
     (case xml_scan_time fmt_time of
        None \<Rightarrow> Some (-1, rawtime)
      | Some (t, ns) \<Rightarrow>
          if \<not> in_int (tm_year t) \<or> \<not> in_int (tm_year t - 1900) then None
          else map_option (\<lambda>sec. normalize_ltfs_time (rawtime\<lparr>tv_sec := sec, tv_nsec := ns\<rparr>))
            (ltfs_timegm (t\<lparr>tm_year := tm_year t - 1900, tm_mon := tm_mon t - 1\<rparr>)))"

section \<open>Numbers, booleans and identifiers\<close>

definition xml_parse_ull :: "nat \<Rightarrow> string \<Rightarrow> int \<times> nat" where
  "xml_parse_ull out_val val =
     (if val = [] then (-1, out_val)
      else case strtoull 10 val of (v, invalid_start) \<Rightarrow> (if invalid_start \<noteq> [] then -1 else 0, v))"

definition xml_parse_xll :: "nat \<Rightarrow> string \<Rightarrow> int \<times> nat" where
  "xml_parse_xll out_val val =
     (if val = [] then (-1, out_val)
      else case strtoull 16 val of (v, invalid_start) \<Rightarrow> (if invalid_start \<noteq> [] then -1 else 0, v))"

definition xml_parse_ll :: "int \<Rightarrow> string \<Rightarrow> int \<times> int" where
  "xml_parse_ll out_val val =
     (if val = [] then (-1, out_val)
      else case strtoll 10 val of (v, invalid_start) \<Rightarrow> (if invalid_start \<noteq> [] then -1 else 0, v))"

definition xml_parse_bool :: "bool \<Rightarrow> string \<Rightarrow> int \<times> bool" where
  "xml_parse_bool out_val value =
     (if value = ''true'' \<or> value = ''1'' then (0, True)
      else if value = ''false'' \<or> value = ''0'' then (0, False)
      else (-1, out_val))"

text \<open>
  The loop over a UUID: the text as far as it was converted when the loop stopped, and whether it stopped at
  an invalid character.
\<close>

definition uuid_char_ok :: "nat \<Rightarrow> char \<Rightarrow> bool" where
  "uuid_char_ok i c \<longleftrightarrow>
     (if i = 8 \<or> i = 13 \<or> i = 18 \<or> i = 23 then c = CHR ''-'' else is_digit 16 c)"

definition uuid_lower :: "char \<Rightarrow> char" where
  "uuid_lower c = (if 65 \<le> (of_char c :: nat) \<and> of_char c \<le> (70 :: nat) then char_of (of_char c + 32 :: nat) else c)"

fun uuid_loop :: "nat \<Rightarrow> string \<Rightarrow> bool \<times> string" where
  "uuid_loop i [] = (True, [])"
| "uuid_loop i (c # cs) =
     (if \<not> uuid_char_ok i c then (False, c # cs)
      else case uuid_loop (i + 1) cs of (ok, rest) \<Rightarrow> (ok, uuid_lower c # rest))"

definition xml_parse_uuid :: "string \<Rightarrow> string \<Rightarrow> int \<times> string" where
  "xml_parse_uuid out_val val =
     (if length val \<noteq> 36 then (-1, out_val)
      else case uuid_loop 0 val of (ok, out_val) \<Rightarrow> (if ok then 0 else -1, out_val))"

definition xml_parse_partition :: "string \<Rightarrow> int" where
  "xml_parse_partition val =
     (case val of [c] \<Rightarrow> if (of_char c :: nat) < 97 \<or> 122 < (of_char c :: nat) then -1 else 0 | _ \<Rightarrow> -1)"

text \<open>Versions of the form X.Y.Z; atoi of digits that do not fit an int is undefined.\<close>

definition MAKE_LTFS_VERSION :: "int \<Rightarrow> int \<Rightarrow> int \<Rightarrow> int" where
  "MAKE_LTFS_VERSION x y z = 10000 * x + 100 * y + z"

definition xml_parse_version :: "string \<Rightarrow> (error + int) option" where
  "xml_parse_version version_str =
     (let digit = is_digit 10;
          x_str = takeWhile digit version_str; tmp = dropWhile digit version_str;
          y_str = takeWhile digit (tl tmp); tmp2 = dropWhile digit (tl tmp);
          z_str = takeWhile digit (tl tmp2); tmp3 = dropWhile digit (tl tmp2);
          num = (\<lambda>s. int (digits_value 10 s)) in
      if version_str = ''1.0'' then Some (Inr (MAKE_LTFS_VERSION 1 0 0))
      else if x_str = [] \<or> tmp = [] \<or> hd tmp \<noteq> CHR ''.'' then Some (Inl LTFS_BAD_ARG)
      else if y_str = [] \<or> tmp2 = [] \<or> hd tmp2 \<noteq> CHR ''.'' then Some (Inl LTFS_BAD_ARG)
      else if z_str = [] \<or> tmp3 \<noteq> [] then Some (Inl LTFS_BAD_ARG)
      else if list_all in_int [num x_str, num y_str, num z_str, 10000 * num x_str, 100 * num y_str,
                10000 * num x_str + 100 * num y_str, MAKE_LTFS_VERSION (num x_str) (num y_str) (num z_str)]
      then Some (Inr (MAKE_LTFS_VERSION (num x_str) (num y_str) (num z_str)))
      else None)"

section \<open>Time stamps are read back\<close>

lemma scan_d_pad: "0 < w \<Longrightarrow> n < 10 ^ w \<Longrightarrow> scan_d w (print_pad w n @ rest) = Some (int n, rest)"
  by (simp add: scan_d_def scan_pad)

lemma scan_d_year:
  assumes "\<not> is_digit 10 c"
  shows "scan_d (length (print_pad w n @ c # rest)) (print_pad w n @ c # rest) = Some (int n, c # rest)"
proof -
  have "scan_number 10 (length (print_pad w n @ c # rest)) (print_pad w n @ c # rest) =
      Some (False, digits_value 10 (print_pad w n), c # rest)"
    using assms print_pad_digits by (intro scan_digits) (auto simp: subset_iff)
  then show ?thesis by (simp add: scan_d_def)
qed

lemma scan_literal_hit [simp]: "scan_literal c (c # r) = Some r"
  by (simp add: scan_literal_def)

text \<open>The fields of a time stamp in the range of the format are printed in fixed widths.\<close>

lemma scan_printed_time:
  assumes "y < 10000" "mo < 100" "d < 100" "h < 100" "mi < 100" "s < 100" "ns < 1000000000"
  shows "xml_scan_time (print_pad 4 y @ ''-'' @ print_pad 2 mo @ ''-'' @ print_pad 2 d @ ''T'' @ print_pad 2 h @
      '':'' @ print_pad 2 mi @ '':'' @ print_pad 2 s @ ''.'' @ print_pad 9 ns @ ''Z'') =
    Some (\<lparr>tm_sec = int s, tm_min = int mi, tm_hour = int h, tm_mday = int d, tm_mon = int mo, tm_year = int y,
      tm_wday = 0, tm_yday = 0, tm_isdst = 0\<rparr>, int ns)"
proof -
  have "\<not> is_digit 10 (CHR ''-'')" by (simp add: is_digit_def digit_of_def)
  note year = scan_d_year [OF this]
  have two: "scan_d 2 (print_pad 2 n @ rest) = Some (int n, rest)" if "n < 100" for n rest
    using that by (intro scan_d_pad) simp_all
  have nine: "scan_d 9 (print_pad 9 ns @ rest) = Some (int ns, rest)" for rest
    using assms(7) by (intro scan_d_pad) simp_all
  show ?thesis unfolding xml_scan_time_def append_Cons append_Nil year using assms by (simp add: two nine)
qed

lemma normalize_range:
  assumes "normalize_ltfs_time t = (r, t')"
  shows "LTFS_TIME_T_MIN \<le> tv_sec t'" "tv_sec t' \<le> LTFS_TIME_T_MAX"
    "normalize_ltfs_time t' = (0, t')"
    "0 \<le> tv_nsec t \<Longrightarrow> tv_nsec t < 1000000000 \<Longrightarrow> 0 \<le> tv_nsec t' \<and> tv_nsec t' < 1000000000"
  using assms by (auto simp: normalize_ltfs_time_def LTFS_TIME_T_MIN_def LTFS_TIME_T_MAX_def LTFS_NSEC_MAX_def
      LTFS_NSEC_MIN_def split: if_splits)

lemma gmtime_in_range:
  assumes "LTFS_TIME_T_MIN \<le> t" "t \<le> LTFS_TIME_T_MAX" "g = ltfs_gmtime t"
  shows "civil_tm g" "civil_seconds g = t" "0 \<le> tm_year g + 1900" "tm_year g + 1900 \<le> 9999"
proof -
  have day: "- 719528 \<le> t div 86400" "t div 86400 < 2932897"
    using assms(1,2) unfolding LTFS_TIME_T_MIN_def LTFS_TIME_T_MAX_def by linarith+
  then have "\<bar>t div 86400\<bar> \<le> 700000000000" by simp
  note g = gmtime_civil [OF this assms(3)]
  show "civil_tm g" "civil_seconds g = t" by (rule g)+
  have "year_start 0 = - 719528" "year_start (9999 + 1) = 2932897" by (simp_all add: year_start_def)
  with day show "0 \<le> tm_year g + 1900" "tm_year g + 1900 \<le> 9999"
    using civil_year [OF g(1), of 0 9999] unfolding g(2) by simp_all
qed

lemma format_fields:
  assumes "civil_tm g"
  shows "0 \<le> tm_mon g + 1 \<and> tm_mon g + 1 < 100" "0 \<le> tm_mday g \<and> tm_mday g < 100"
    "0 \<le> tm_hour g \<and> tm_hour g < 100" "0 \<le> tm_min g \<and> tm_min g < 100" "0 \<le> tm_sec g \<and> tm_sec g < 100"
  using assms by (auto simp: civil_tm_def civil_date_def month_days_def split: if_splits)

lemma timegm_cong:
  assumes "tm_sec t = tm_sec g" "tm_min t = tm_min g" "tm_hour t = tm_hour g"
    "tm_mday t = tm_mday g" "tm_mon t = tm_mon g" "tm_year t = tm_year g"
  shows "ltfs_timegm t = ltfs_timegm g"
  unfolding ltfs_timegm_def assms ..

text \<open>C24.  A time stamp that is written to an index is read back with the same seconds and nanoseconds.  A time
  stamp outside of the years 0 to 9999 is written and read back as the nearest one inside, and writing it is
  reported with the return value 1.\<close>

theorem xml_time_roundtrip:
  assumes "0 \<le> tv_nsec t" "tv_nsec t < 1000000000" "normalize_ltfs_time t = (r, t')"
  shows "\<exists>text. xml_format_time True t = (r, Some text) \<and> xml_parse_time text raw = Some (0, t')"
proof -
  define g where "g = ltfs_gmtime (tv_sec t')"
  note norm = normalize_range [OF assms(3)]
  note g = gmtime_in_range [OF norm(1,2) g_def]
  note f = format_fields [OF g(1)]
  let ?y = "nat (tm_year g + 1900)" and ?mo = "nat (tm_mon g + 1)" and ?d = "nat (tm_mday g)"
  let ?h = "nat (tm_hour g)" and ?mi = "nat (tm_min g)" and ?s = "nat (tm_sec g)" and ?ns = "nat (tv_nsec t')"
  let ?text = "print_pad 4 ?y @ ''-'' @ print_pad 2 ?mo @ ''-'' @ print_pad 2 ?d @ ''T'' @ print_pad 2 ?h @
      '':'' @ print_pad 2 ?mi @ '':'' @ print_pad 2 ?s @ ''.'' @ print_pad 9 ?ns @ ''Z''"
  have ns: "0 \<le> tv_nsec t'" "tv_nsec t' < 1000000000" using norm(4) assms(1,2) by auto
  have "xml_format_time True t = (r, Some ?text)"
    using g(3) f ns by (simp add: xml_format_time_def assms(3) g_def [symmetric] print_pad_int_def)
  moreover have scan: "xml_scan_time ?text = Some (\<lparr>tm_sec = int ?s, tm_min = int ?mi, tm_hour = int ?h,
      tm_mday = int ?d, tm_mon = int ?mo, tm_year = int ?y, tm_wday = 0, tm_yday = 0, tm_isdst = 0\<rparr>, int ?ns)"
    using g(4) f ns by (intro scan_printed_time) auto
  moreover have "ltfs_timegm (\<lparr>tm_sec = int ?s, tm_min = int ?mi, tm_hour = int ?h, tm_mday = int ?d,
      tm_mon = int ?mo, tm_year = int ?y, tm_wday = 0, tm_yday = 0, tm_isdst = 0\<rparr>
      \<lparr>tm_year := int ?y - 1900, tm_mon := int ?mo - 1\<rparr>) = ltfs_timegm g"
    using g(3) f by (intro timegm_cong) simp_all
  moreover have "ltfs_timegm g = Some (tv_sec t')" using timegm_civil [OF g(1)] g(2-4) by simp
  moreover have "in_int (int ?y)" "in_int (int ?y - 1900)" using g(3,4) by (simp_all add: in_int_def)
  moreover have "raw\<lparr>tv_sec := tv_sec t', tv_nsec := int ?ns\<rparr> = t'" using ns(1) by simp
  ultimately have "xml_parse_time ?text raw = Some (0, t')" using norm(3) unfolding xml_parse_time_def by simp
  then show ?thesis using \<open>xml_format_time True t = (r, Some ?text)\<close> by blast
qed

theorem xml_time_roundtrip_witness:
  "\<exists>text. xml_format_time True \<lparr>tv_sec = 300000000000, tv_nsec = 5\<rparr> = (1, Some text) \<and>
    xml_parse_time text \<lparr>tv_sec = 0, tv_nsec = 0\<rparr> = Some (0, \<lparr>tv_sec = 253402300799, tv_nsec = 999999999\<rparr>)"
  by (rule xml_time_roundtrip)
    (simp_all add: normalize_ltfs_time_def LTFS_TIME_T_MAX_def LTFS_NSEC_MAX_def LTFS_TIME_OUT_OF_RANGE_def)

lemma length_print_pad_le: "0 < k \<Longrightarrow> n < 10 ^ k \<Longrightarrow> w \<le> k \<Longrightarrow> length (print_pad w n) \<le> k"
  using length_print_num [of k n] by (simp add: print_pad_def)

lemma length_print_pad_int:
  assumes "0 < k" "\<bar>n\<bar> < 10 ^ k" "w \<le> k"
  shows "length (print_pad_int w n) \<le> k + 1"
proof -
  have "nat n < 10 ^ k" "nat (- n) < 10 ^ k" using assms(2) by (simp_all add: nat_less_iff)
  then show ?thesis
    using length_print_pad_le [OF assms(1), of "nat n" w] length_print_pad_le [OF assms(1), of "nat (- n)" "w - 1"] assms(3)
    by (simp add: print_pad_int_def)
qed

text \<open>C25.  The text of a time stamp and its terminator always fit the buffer of 64 characters, whatever the
  nanoseconds are, and a time stamp with proper nanoseconds takes 30 characters.\<close>

theorem xml_format_fits:
  assumes "\<bar>tv_nsec t\<bar> < 10 ^ 19" "xml_format_time True t = (r, Some out)"
  shows "length out < 64 \<and> (0 \<le> tv_nsec t \<and> tv_nsec t < 1000000000 \<longrightarrow> length out = 30)"
proof -
  obtain r' t' where norm: "normalize_ltfs_time t = (r', t')" by (rule prod.exhaust)
  define g where "g = ltfs_gmtime (tv_sec t')"
  note range = normalize_range [OF norm]
  note g = gmtime_in_range [OF range(1,2) g_def]
  note f = format_fields [OF g(1)]
  have out: "out = print_pad 4 (nat (tm_year g + 1900)) @ ''-'' @ print_pad 2 (nat (tm_mon g + 1)) @ ''-'' @
      print_pad 2 (nat (tm_mday g)) @ ''T'' @ print_pad 2 (nat (tm_hour g)) @ '':'' @ print_pad 2 (nat (tm_min g)) @
      '':'' @ print_pad 2 (nat (tm_sec g)) @ ''.'' @ print_pad_int 9 (tv_nsec t') @ ''Z''"
    using assms(2) g(3) f by (simp add: xml_format_time_def norm g_def [symmetric] print_pad_int_def)
  have four: "length (print_pad 4 (nat (tm_year g + 1900))) = 4" using g(3,4) by (intro length_print_pad) auto
  have two: "0 \<le> n \<and> n < 100 \<Longrightarrow> length (print_pad 2 (nat n)) = 2" for n by (intro length_print_pad) auto
  have len: "length out = 21 + length (print_pad_int 9 (tv_nsec t'))"
    unfolding out using four two [OF f(1)] two [OF f(2)] two [OF f(3)] two [OF f(4)] two [OF f(5)] by simp
  have "\<bar>tv_nsec t'\<bar> < 10 ^ 19"
    using norm assms(1) by (auto simp: normalize_ltfs_time_def LTFS_NSEC_MAX_def LTFS_NSEC_MIN_def split: if_splits)
  then have "length (print_pad_int 9 (tv_nsec t')) \<le> 20" using length_print_pad_int [of 19 "tv_nsec t'" 9] by simp
  moreover have "length (print_pad_int 9 (tv_nsec t')) = 9" if "0 \<le> tv_nsec t" "tv_nsec t < 1000000000"
    using range(4) [OF that] length_print_pad [of 9 "nat (tv_nsec t')"] by (auto simp: print_pad_int_def)
  ultimately show ?thesis using len by auto
qed

theorem xml_format_fits_witness:
  "length (the (snd (xml_format_time True \<lparr>tv_sec = 0, tv_nsec = 0\<rparr>))) = 30"
proof -
  have "normalize_ltfs_time \<lparr>tv_sec = 0, tv_nsec = 0\<rparr> = (0, \<lparr>tv_sec = 0, tv_nsec = 0\<rparr>)"
    by (simp add: normalize_ltfs_time_def LTFS_TIME_T_MAX_def LTFS_TIME_T_MIN_def)
  then obtain out where "xml_format_time True \<lparr>tv_sec = 0, tv_nsec = 0\<rparr> = (0, Some out)"
    by (simp add: xml_format_time_def Let_def)
  with xml_format_fits [OF _ this] show ?thesis by simp
qed

section \<open>Numbers and identifiers\<close>

lemma print_num_all_digits: "set (print_num 10 n) \<subseteq> digit_char ` {..<10}"
  using print_num_digits by blast

lemma scan_print: "scan_number 10 (length (print_num 10 n)) (print_num 10 n) = Some (False, n, [])"
  using scan_digits [of "print_num 10 n" _ "[]"] print_num_all_digits digits_value_print by simp

lemma scan_minus:
  "scan_number 10 (length (CHR ''-'' # print_num 10 n)) (CHR ''-'' # print_num 10 n) = Some (True, n, [])"
proof -
  have space: "\<not> isspace (CHR ''-'')" by (simp add: isspace_def)
  have "\<forall>c \<in> set (print_num 10 n). is_digit 10 c" using print_num_all_digits is_digit_chars by blast
  then have "takeWhile (is_digit 10) (print_num 10 n) = print_num 10 n" by simp
  note digits = this
  show ?thesis by (simp add: scan_number_def strip_sign_def space digits digits_value_print Let_def)
qed

text \<open>C37.  \<open>xml_parse_ull\<close> reads every unsigned 64 bit number that was printed back, but it is not limited to
  them: a larger number is accepted as the largest one, and a number with a minus sign is accepted as its
  complement.\<close>

theorem xml_parse_ull_accepts:
  "(n < two64 \<longrightarrow> xml_parse_ull v (print_num 10 n) = (0, n)) \<and>
   (two64 \<le> n \<longrightarrow> xml_parse_ull v (print_num 10 n) = (0, two64 - 1)) \<and>
   (0 < n \<and> n < two64 \<longrightarrow> xml_parse_ull v (CHR ''-'' # print_num 10 n) = (0, two64 - n))"
  using scan_print [of n] scan_minus [of n]
  by (auto simp: xml_parse_ull_def strtoull_def u64_sub_def u64_def)

theorem xml_parse_ull_accepts_witness:
  "xml_parse_ull 0 ''-1'' = (0, 18446744073709551615)"
proof -
  have "print_num 10 1 = ''1''" by (simp add: print_num.simps) code_simp
  then show ?thesis using xml_parse_ull_accepts [of 1 0] by (simp add: two64_def)
qed

text \<open>
  The texts that stand for a UUID: groups of 8, 4, 4, 4 and 12 hexadecimal digits of either case with dashes
  between them, and the lower-case letter of a digit.
\<close>

definition hex_digits :: "char set" where
  "hex_digits = set ''0123456789abcdefABCDEF''"

definition uuid_shape :: "string \<Rightarrow> bool" where
  "uuid_shape v \<longleftrightarrow> (\<exists>a b c d e. v = a @ ''-'' @ b @ ''-'' @ c @ ''-'' @ d @ ''-'' @ e \<and>
     map length [a, b, c, d, e] = [8, 4, 4, 4, 12] \<and> set (a @ b @ c @ d @ e) \<subseteq> hex_digits)"

definition lower_digit :: "char \<Rightarrow> char" where
  "lower_digit c = (case map_of (zip ''ABCDEF'' ''abcdef'') c of Some d \<Rightarrow> d | None \<Rightarrow> c)"

lemma is_digit_hex: "is_digit 16 c \<longleftrightarrow> c \<in> hex_digits"
proof
  assume "is_digit 16 c"
  then have "(of_char c :: nat) \<in> {48..<58} \<union> {97..<103} \<union> {65..<71}"
    by (auto simp: is_digit_def digit_of_def Let_def split: if_splits)
  then have code: "of_char c \<in> set ([48..<58] @ [97..<103] @ [65..<71])" unfolding set_append set_upt by blast
  have "c = char_of (of_char c :: nat)" by simp
  from image_eqI [where f = char_of, OF this code] have "c \<in> set (map char_of ([48..<58] @ [97..<103] @ [65..<71]))"
    unfolding set_map .
  moreover have "map char_of ([48..<58] @ [97..<103] @ [65..<71]) = ''0123456789abcdefABCDEF''" by code_simp
  ultimately show "c \<in> hex_digits" by (simp only: hex_digits_def)
next
  have "list_all (is_digit 16) ''0123456789abcdefABCDEF''" by code_simp
  then show "c \<in> hex_digits \<Longrightarrow> is_digit 16 c" by (simp only: list_all_iff hex_digits_def)
qed

lemma uuid_lower_digit: "c = CHR ''-'' \<or> c \<in> hex_digits \<Longrightarrow> uuid_lower c = lower_digit c \<and> lower_digit (lower_digit c) = lower_digit c"
proof -
  have "list_all (\<lambda>c. uuid_lower c = lower_digit c \<and> lower_digit (lower_digit c) = lower_digit c) ''-0123456789abcdefABCDEF''"
    by code_simp
  then show "c = CHR ''-'' \<or> c \<in> hex_digits \<Longrightarrow> uuid_lower c = lower_digit c \<and> lower_digit (lower_digit c) = lower_digit c"
    unfolding list_all_iff hex_digits_def by auto
qed

lemma lower_digit_hex: "lower_digit c \<in> hex_digits \<longleftrightarrow> c \<in> hex_digits" "lower_digit c = CHR ''-'' \<longleftrightarrow> c = CHR ''-''"
  by (simp_all add: lower_digit_def hex_digits_def)

lemma uuid_loop_Cons:
  "fst (uuid_loop i (c # cs)) \<longleftrightarrow> uuid_char_ok i c \<and> fst (uuid_loop (Suc i) cs)"
  "uuid_char_ok i c \<Longrightarrow> snd (uuid_loop i (c # cs)) = uuid_lower c # snd (uuid_loop (Suc i) cs)"
  by (auto split: prod.split)

lemma uuid_loop_append:
  "fst (uuid_loop i (xs @ ys)) \<longleftrightarrow> fst (uuid_loop i xs) \<and> fst (uuid_loop (i + length xs) ys)"
proof (induction xs arbitrary: i)
  case (Cons x xs)
  show ?case using Cons [of "Suc i"] unfolding append_Cons uuid_loop_Cons by simp
qed simp

lemma uuid_loop_digits:
  "\<forall>k \<in> {8, 13, 18, 23}. k < i \<or> i + length xs \<le> k \<Longrightarrow> fst (uuid_loop i xs) \<longleftrightarrow> set xs \<subseteq> hex_digits"
proof (induction xs arbitrary: i)
  case (Cons x xs)
  then have "uuid_char_ok i x \<longleftrightarrow> x \<in> hex_digits" by (auto simp: uuid_char_ok_def is_digit_hex)
  moreover have "fst (uuid_loop (Suc i) xs) \<longleftrightarrow> set xs \<subseteq> hex_digits" using Cons.prems by (intro Cons.IH) fastforce
  ultimately show ?case unfolding uuid_loop_Cons by simp
qed simp

lemma uuid_loop_text:
  "fst (uuid_loop i cs) \<Longrightarrow> snd (uuid_loop i cs) = map uuid_lower cs"
proof (induction cs arbitrary: i)
  case (Cons c cs)
  then show ?case unfolding uuid_loop_Cons(1) by (simp add: uuid_loop_Cons(2) del: uuid_loop.simps)
qed simp

lemma uuid_groups:
  assumes "length v = 36"
  obtains a b c d e p q r s where "v = a @ [p] @ b @ [q] @ c @ [r] @ d @ [s] @ e"
    "length a = 8" "length b = 4" "length c = 4" "length d = 4" "length e = 12"
proof -
  have "drop k v = take n (drop k v) @ [v ! (k + n)] @ drop (k + n + 1) v" if "k + n < 36" for k n
    using that assms by (metis Cons_nth_drop_Suc Suc_eq_plus1 add.commute append_Cons append_Nil append_take_drop_id drop_drop)
  from this [of 0 8] this [of 9 4] this [of 14 4] this [of 19 4] have
    "v = take 8 v @ [v ! 8] @ take 4 (drop 9 v) @ [v ! 13] @ take 4 (drop 14 v) @ [v ! 18] @ take 4 (drop 19 v) @ [v ! 23] @ drop 24 v"
    by simp
  then show thesis by (rule that) (simp_all add: assms)
qed

lemma uuid_loop_shape: "length v = 36 \<and> fst (uuid_loop 0 v) \<longleftrightarrow> uuid_shape v"
proof
  assume v: "length v = 36 \<and> fst (uuid_loop 0 v)"
  then obtain a b c d e p q r s where g: "v = a @ [p] @ b @ [q] @ c @ [r] @ d @ [s] @ e"
    "length a = 8" "length b = 4" "length c = 4" "length d = 4" "length e = 12"
    by (blast elim: uuid_groups)
  with v have "p = CHR ''-''" "q = CHR ''-''" "r = CHR ''-''" "s = CHR ''-''" "set (a @ b @ c @ d @ e) \<subseteq> hex_digits"
    by (simp_all add: uuid_loop_append uuid_loop_digits uuid_loop_Cons uuid_char_ok_def del: uuid_loop.simps(2))
  with g show "uuid_shape v" unfolding uuid_shape_def by fastforce
next
  assume "uuid_shape v"
  then obtain a b c d e where "v = a @ ''-'' @ b @ ''-'' @ c @ ''-'' @ d @ ''-'' @ e"
    "map length [a, b, c, d, e] = [8, 4, 4, 4, 12]" "set (a @ b @ c @ d @ e) \<subseteq> hex_digits"
    unfolding uuid_shape_def by (elim exE conjE)
  then show "length v = 36 \<and> fst (uuid_loop 0 v)"
    by (simp add: uuid_loop_append uuid_loop_digits uuid_loop_Cons uuid_char_ok_def del: uuid_loop.simps(2))
qed

lemma uuid_shape_chars: "uuid_shape v \<Longrightarrow> set v \<subseteq> insert (CHR ''-'') hex_digits"
  unfolding uuid_shape_def by (elim exE conjE, hypsubst) (simp add: subset_insertI2)

lemma lower_digits_hex: "set xs \<subseteq> hex_digits \<Longrightarrow> set (map lower_digit xs) \<subseteq> hex_digits"
  by (induction xs) (simp_all add: lower_digit_hex(1))

lemma uuid_shape_lower:
  assumes "uuid_shape v"
  shows "uuid_shape (map lower_digit v)"
proof -
  from assms obtain a b c d e where v: "v = a @ ''-'' @ b @ ''-'' @ c @ ''-'' @ d @ ''-'' @ e"
    "map length [a, b, c, d, e] = [8, 4, 4, 4, 12]" "set (a @ b @ c @ d @ e) \<subseteq> hex_digits"
    unfolding uuid_shape_def by (elim exE conjE)
  let ?l = "map lower_digit"
  have dash: "lower_digit (CHR ''-'') = CHR ''-''" by code_simp
  have "?l v = ?l a @ ''-'' @ ?l b @ ''-'' @ ?l c @ ''-'' @ ?l d @ ''-'' @ ?l e"
    unfolding v(1) by (simp add: dash)
  moreover have "map length [?l a, ?l b, ?l c, ?l d, ?l e] = [8, 4, 4, 4, 12]" using v(2) by simp
  moreover have "set (?l a @ ?l b @ ?l c @ ?l d @ ?l e) \<subseteq> hex_digits"
    using lower_digits_hex [OF v(3)] by (simp only: map_append)
  ultimately show ?thesis unfolding uuid_shape_def by (intro exI conjI)
qed

lemma uuid_parsed: "uuid_shape v \<Longrightarrow> xml_parse_uuid out v = (0, map lower_digit v)"
proof -
  assume v: "uuid_shape v"
  then have l: "length v = 36" "fst (uuid_loop 0 v)" using uuid_loop_shape [of v] by auto
  have "map uuid_lower v = map lower_digit v"
    using uuid_shape_chars [OF v] uuid_lower_digit by (intro map_cong) auto
  moreover have "uuid_loop 0 v = (True, map uuid_lower v)"
    using l(2) uuid_loop_text [OF l(2)] by (cases "uuid_loop 0 v") simp
  ultimately show ?thesis using l(1) by (simp add: xml_parse_uuid_def)
qed

text \<open>C34.  The UUIDs that are accepted are exactly the texts of the format, groups of 8, 4, 4, 4 and 12 hexadecimal
  digits of either case with dashes between them.  The result is the text with lower-case digits, and it is
  accepted again unchanged; every other text is refused.\<close>

theorem xml_parse_uuid_type:
  "(xml_parse_uuid out v = (0, u) \<longleftrightarrow> uuid_shape v \<and> u = map lower_digit v) \<and>
   fst (xml_parse_uuid out v) = (if uuid_shape v then 0 else - 1) \<and>
   (uuid_shape v \<longrightarrow> xml_parse_uuid out' (map lower_digit v) = (0, map lower_digit v))"
proof (cases "uuid_shape v")
  case True
  have "map lower_digit (map lower_digit v) = map lower_digit v"
    using uuid_shape_chars [OF True] uuid_lower_digit by auto
  then show ?thesis
    using True uuid_parsed [OF True] uuid_parsed [OF uuid_shape_lower [OF True]] by auto
next
  case False
  then show ?thesis
    using uuid_loop_shape [of v] by (auto simp: xml_parse_uuid_def split: prod.split)
qed

theorem xml_parse_uuid_type_witness:
  "xml_parse_uuid [] ''01234567-89AB-cdef-0123-456789ABCDEF'' = (0, ''01234567-89ab-cdef-0123-456789abcdef'') \<and>
   xml_parse_uuid [] ''01234567-89ab-cdef-0123-456789abcdef'' = (0, ''01234567-89ab-cdef-0123-456789abcdef'') \<and>
   xml_parse_uuid [] ''01234567-89AB-cdef-0123-456789ABCDEG'' \<noteq> (0, ''01234567-89ab-cdef-0123-456789abcdeg'')"
proof -
  let ?v = "''01234567-89AB-cdef-0123-456789ABCDEF''"
  have "set (''01234567'' @ ''89AB'' @ ''cdef'' @ ''0123'' @ ''456789ABCDEF'') \<subseteq> hex_digits" by code_simp
  then have v: "uuid_shape ?v" unfolding uuid_shape_def
    by (intro exI [of _ "''01234567''"] exI [of _ "''89AB''"] exI [of _ "''cdef''"] exI [of _ "''0123''"]
        exI [of _ "''456789ABCDEF''"] conjI) simp_all
  have l: "map lower_digit ?v = ''01234567-89ab-cdef-0123-456789abcdef''" by code_simp
  have g: "\<not> uuid_shape ''01234567-89AB-cdef-0123-456789ABCDEG''"
  proof
    assume "uuid_shape ''01234567-89AB-cdef-0123-456789ABCDEG''"
    then have "CHR ''G'' \<in> insert (CHR ''-'') hex_digits" by (rule subsetD [OF uuid_shape_chars]) simp
    then show False by (simp add: hex_digits_def)
  qed
  show ?thesis
    using xml_parse_uuid_type [of "[]" ?v _ "[]"] v l
      xml_parse_uuid_type [of "[]" "''01234567-89AB-cdef-0123-456789ABCDEG''"] g by simp
qed

end
