(* ===== verification/Glob.thy ===== *)
theory Glob
  imports TapeOps
begin

text \<open>
  Matching of file names against the patterns of the index criteria, \<open>_matches_name_criteria_caseless\<close> of
  \<open>libltfs/index_criteria.c\<close> with its stack of positions to go back to.  A text is a list of UTF-16 units; the
  character break iterator of ICU is the parameter \<open>clusters\<close>, which cuts a text into its grapheme clusters, and a
  position in a text is the list of the clusters from there on.  The allocation of stack elements succeeds, and
  the iterators can be opened.
\<close>

section \<open>The matcher\<close>

type_synonym cluster = "nat list"

abbreviation asterisk :: cluster where "asterisk \<equiv> [0x2a]"
abbreviation question :: cluster where "question \<equiv> [0x3f]"

type_synonym filename_ustack = "(cluster list \<times> cluster list) list"

text \<open>
  The stack, bottom first.  A push onto a stack that is not empty hangs the element below the bottom, and what
  was there is lost.
\<close>

definition push_ustack :: "filename_ustack \<Rightarrow> cluster list \<times> cluster list \<Rightarrow> filename_ustack" where
  "push_ustack stack element = (if stack = [] then [element] else [hd stack, element])"

text \<open>The state of the loop: the rest of the pattern and of the name, the flag \<open>have_asterisk\<close> and the stack.\<close>

record glob_state =
  g_criteria :: "cluster list"
  g_filename :: "cluster list"
  g_asterisk :: bool
  g_stack :: filename_ustack

definition glob_pop :: "glob_state \<Rightarrow> bool + glob_state" where
  "glob_pop s =
     (case rev (g_stack s) of
        [] \<Rightarrow> Inl False
      | (cr, fi) # _ \<Rightarrow>
          Inr (s\<lparr>g_criteria := cr, g_filename := tl fi, g_asterisk := True, g_stack := butlast (g_stack s)\<rparr>))"

definition glob_step :: "glob_state \<Rightarrow> bool + glob_state" where
  "glob_step s =
     (case g_criteria s of
        [] \<Rightarrow> if g_filename s = [] then Inl True else glob_pop s
      | c # cr \<Rightarrow>
          if c = asterisk then
            (if cr = [] then Inl True else Inr (s\<lparr>g_criteria := cr, g_asterisk := True\<rparr>))
          else case g_filename s of
              [] \<Rightarrow> glob_pop s
            | d # fi \<Rightarrow>
                let acceptany = (c = question) in
                if g_asterisk s then
                  if acceptany \<or> c = d
                  then Inr (s\<lparr>g_criteria := cr, g_filename := fi, g_asterisk := False,
                              g_stack := push_ustack (g_stack s) (g_criteria s, g_filename s)\<rparr>)
                  else Inr (s\<lparr>g_filename := fi\<rparr>)
                else if acceptany \<or> c = d then Inr (s\<lparr>g_criteria := cr, g_filename := fi\<rparr>)
                else glob_pop s)"

partial_function (option) glob_run :: "glob_state \<Rightarrow> bool option" where
  "glob_run s = (case glob_step s of Inl match \<Rightarrow> Some match | Inr s' \<Rightarrow> glob_run s')"

declare glob_run.simps [code]

definition matches_name_criteria_caseless ::
  "(nat list \<Rightarrow> cluster list) \<Rightarrow> nat list \<Rightarrow> nat list \<Rightarrow> bool option" where
  "matches_name_criteria_caseless clusters criteria filename =
     (if criteria = [] \<and> filename = [] then Some True
      else if criteria = [] then Some False
      else glob_run \<lparr>g_criteria = clusters criteria, g_filename = clusters filename, g_asterisk = False, g_stack = []\<rparr>)"

section \<open>What a pattern matches\<close>

text \<open>An asterisk stands for any sequence of characters, a question mark for any single one.\<close>

fun glob :: "cluster list \<Rightarrow> cluster list \<Rightarrow> bool" where
  "glob [] fi \<longleftrightarrow> fi = []"
| "glob (c # cr) [] \<longleftrightarrow> c = asterisk \<and> glob cr []"
| "glob (c # cr) (d # fi) \<longleftrightarrow>
     (if c = asterisk then glob cr (d # fi) \<or> glob (c # cr) fi else (c = question \<or> c = d) \<and> glob cr fi)"

lemma glob_asterisk: "glob (asterisk # cr) fi \<longleftrightarrow> glob cr fi \<or> fi \<noteq> [] \<and> glob (asterisk # cr) (tl fi)"
  by (cases fi) simp_all

lemma glob_other:
  "c \<noteq> asterisk \<Longrightarrow> glob (c # cr) fi \<longleftrightarrow> fi \<noteq> [] \<and> (c = question \<or> c = hd fi) \<and> glob cr (tl fi)"
  by (cases fi) simp_all

declare glob.simps(2,3) [simp del]

lemma glob_asterisk_end [simp]: "glob [asterisk] fi"
  by (induction fi) (simp_all add: glob.simps(2,3))

lemma glob_asterisk_drop: "glob (asterisk # cr) fi \<longleftrightarrow> (\<exists>i \<le> length fi. glob cr (drop i fi))"
proof (induction fi)
  case Nil
  then show ?case by (simp add: glob.simps(2))
next
  case (Cons d fi)
  have "(\<exists>i \<le> length (d # fi). glob cr (drop i (d # fi))) \<longleftrightarrow> glob cr (d # fi) \<or> (\<exists>i \<le> length fi. glob cr (drop i fi))"
  proof safe
    fix i assume "i \<le> length (d # fi)" "glob cr (drop i (d # fi))" "\<not> (\<exists>i \<le> length fi. glob cr (drop i fi))"
    then show "glob cr (d # fi)" by (cases i) auto
  next
    assume "glob cr (d # fi)"
    then show "\<exists>i \<le> length (d # fi). glob cr (drop i (d # fi))" by (intro exI [of _ 0]) simp
  next
    fix i assume "i \<le> length fi" "glob cr (drop i fi)"
    then show "\<exists>i \<le> length (d # fi). glob cr (drop i (d # fi))" by (intro exI [of _ "Suc i"]) simp
  qed
  then show ?case using Cons by (simp add: glob.simps(3))
qed

lemma glob_asterisk_suffix: "glob (asterisk # cr) (drop j fi) \<Longrightarrow> glob (asterisk # cr) fi"
proof -
  assume "glob (asterisk # cr) (drop j fi)"
  then obtain i where "i \<le> length (drop j fi)" "glob cr (drop (i + j) fi)" by (auto simp: glob_asterisk_drop)
  then have "min (i + j) (length fi) \<le> length fi" "glob cr (drop (min (i + j) (length fi)) fi)"
    by (auto simp: min_def)
  then show ?thesis unfolding glob_asterisk_drop by blast
qed

lemma glob_twice: "glob (asterisk # asterisk # cr) fi \<longleftrightarrow> glob (asterisk # cr) fi"
  using glob_asterisk_suffix [of cr _ fi] glob_asterisk [of "asterisk # cr" fi]
  unfolding glob_asterisk_drop [of "asterisk # cr"] by blast

lemma glob_segment:
  "asterisk \<notin> set seg \<Longrightarrow> glob (seg @ cr) fi \<Longrightarrow> glob cr (drop (length seg) fi)"
proof (induction seg arbitrary: fi)
  case (Cons c seg)
  then have "glob (seg @ cr) (tl fi)" by (auto simp: glob_other)
  from Cons.IH [OF _ this] Cons.prems(1) show ?case by (simp add: drop_Suc)
qed simp

text \<open>
  Once the part of the pattern up to the next asterisk has been found, looking for it further to the right cannot
  help.
\<close>

lemma leftmost_suffices:
  assumes "asterisk \<notin> set (take k cr)" "drop k cr = asterisk # rest" "glob (asterisk # cr) (tl fi)" "k \<le> length cr"
  shows "glob (asterisk # rest) (drop k fi)"
proof -
  from assms(3) obtain i where "glob cr (drop i (tl fi))" by (auto simp: glob_asterisk_drop)
  then have "glob (take k cr @ drop k cr) (drop (i + 1) fi)" by (simp add: drop_Suc)
  from glob_segment [OF assms(1) this] assms(4) have "glob (asterisk # rest) (drop (i + 1) (drop k fi))"
    unfolding assms(2) by (simp add: add.commute)
  then show ?thesis by (rule glob_asterisk_suffix)
qed

section \<open>The matcher decides what the pattern matches\<close>

text \<open>What the current position accepts, and what going back to a stack element accepts.\<close>

definition accepts :: "glob_state \<Rightarrow> bool" where
  "accepts s \<longleftrightarrow> glob (if g_asterisk s then asterisk # g_criteria s else g_criteria s) (g_filename s)"

definition accepts_back :: "cluster list \<times> cluster list \<Rightarrow> bool" where
  "accepts_back e \<longleftrightarrow> glob (asterisk # fst e) (tl (snd e))"

text \<open>
  The invariant of the loop for a question whose answer is \<open>ans\<close>: no position is wrong, the current one or the top
  of the stack is enough, and without a pending asterisk the text since the top of the stack was matched literally.
\<close>

definition glob_inv :: "bool \<Rightarrow> glob_state \<Rightarrow> bool" where
  "glob_inv ans s \<longleftrightarrow>
     (accepts s \<longrightarrow> ans) \<and> (\<forall>e \<in> set (g_stack s). accepts_back e \<longrightarrow> ans) \<and>
     (ans \<longrightarrow> accepts s \<or> \<not> g_asterisk s \<and> g_stack s \<noteq> [] \<and> accepts_back (last (g_stack s))) \<and>
     (\<not> g_asterisk s \<and> g_stack s \<noteq> [] \<longrightarrow>
        (\<exists>k. k \<le> length (fst (last (g_stack s))) \<and> asterisk \<notin> set (take k (fst (last (g_stack s)))) \<and>
          g_criteria s = drop k (fst (last (g_stack s))) \<and> g_filename s = drop k (snd (last (g_stack s))))) \<and>
     (g_criteria s = [] \<longrightarrow> \<not> g_asterisk s)"

text \<open>The stack has at most two elements, and the names on it get shorter.\<close>

definition stack_ok :: "glob_state \<Rightarrow> bool" where
  "stack_ok s \<longleftrightarrow>
     (case g_stack s of
        [] \<Rightarrow> True
      | [e] \<Rightarrow> length (g_filename s) < length (snd e) \<and> fst e \<noteq> []
      | [e1, e2] \<Rightarrow> length (g_filename s) < length (snd e2) \<and> length (snd e2) < length (snd e1) \<and> fst e1 \<noteq> [] \<and> fst e2 \<noteq> []
      | _ \<Rightarrow> False)"

lemma stack_cases:
  assumes "stack_ok s"
  obtains "g_stack s = []"
    | cr fi where "g_stack s = [(cr, fi)]" "length (g_filename s) < length fi" "cr \<noteq> []"
    | cr1 fi1 cr2 fi2 where "g_stack s = [(cr1, fi1), (cr2, fi2)]" "length (g_filename s) < length fi2"
        "length fi2 < length fi1" "cr1 \<noteq> []" "cr2 \<noteq> []"
proof (cases "g_stack s")
  case Nil
  then show ?thesis by (rule that(1))
next
  case (Cons e es)
  note e = this
  show ?thesis
  proof (cases es)
    case Nil
    then show ?thesis using e assms by (cases e) (auto simp: stack_ok_def intro: that(2))
  next
    case (Cons e' es')
    moreover have "es' = []" using e Cons assms by (cases es') (simp_all add: stack_ok_def)
    ultimately show ?thesis using e assms by (cases e; cases e') (auto simp: stack_ok_def intro: that(3))
  qed
qed

lemma stack_ok_shorter:
  assumes "stack_ok s" "g_stack s' = g_stack s" "length (g_filename s') \<le> length (g_filename s)"
  shows "stack_ok s'"
  using assms(1) by (cases rule: stack_cases) (use assms(2,3) in \<open>simp_all add: stack_ok_def\<close>)

fun glob_measure :: "glob_state \<Rightarrow> nat \<times> nat \<times> nat" where
  "glob_measure s =
     (case g_stack s of
        [] \<Rightarrow> (length (g_filename s), length (g_filename s), length (g_criteria s) + length (g_filename s))
      | [e] \<Rightarrow> (length (snd e), length (g_filename s), length (g_criteria s) + length (g_filename s))
      | e1 # e2 # _ \<Rightarrow> (length (snd e1), length (snd e2), length (g_criteria s) + length (g_filename s)))"

definition glob_less :: "(glob_state \<times> glob_state) set" where
  "glob_less = inv_image (less_than <*lex*> less_than <*lex*> less_than) glob_measure"

lemma wf_glob_less: "wf glob_less"
  by (auto simp: glob_less_def)

text \<open>Going back to the top of the stack.\<close>

lemma glob_pop_ok:
  assumes "stack_ok s" "glob_inv ans s" "\<not> accepts s"
  shows "case glob_pop s of Inl r \<Rightarrow> r = ans | Inr s' \<Rightarrow> stack_ok s' \<and> glob_inv ans s' \<and> (s', s) \<in> glob_less"
  using assms(1)
proof (cases rule: stack_cases)
  case 1
  then show ?thesis using assms(2,3) by (simp add: glob_pop_def glob_inv_def)
next
  case (2 cr fi)
  let ?s = "s\<lparr>g_criteria := cr, g_filename := tl fi, g_asterisk := True, g_stack := []\<rparr>"
  have "glob_pop s = Inr ?s" by (simp add: glob_pop_def 2)
  moreover have "stack_ok ?s" by (simp add: stack_ok_def)
  moreover have "glob_inv ans ?s"
    using assms(2,3) 2 by (auto simp: glob_inv_def accepts_def accepts_back_def)
  moreover have "(?s, s) \<in> glob_less" using 2 by (cases fi) (auto simp: glob_less_def)
  ultimately show ?thesis by simp
next
  case (3 cr1 fi1 cr fi)
  let ?s = "s\<lparr>g_criteria := cr, g_filename := tl fi, g_asterisk := True, g_stack := [(cr1, fi1)]\<rparr>"
  have "glob_pop s = Inr ?s" by (simp add: glob_pop_def 3)
  moreover have "stack_ok ?s" using 3 by (simp add: stack_ok_def)
  moreover have "glob_inv ans ?s"
    using assms(2,3) 3 by (auto simp: glob_inv_def accepts_def accepts_back_def)
  moreover have "(?s, s) \<in> glob_less" using 3 by (cases fi) (auto simp: glob_less_def)
  ultimately show ?thesis by simp
qed

text \<open>An asterisk of the pattern.\<close>

lemma glob_asterisk_ok:
  assumes "stack_ok s" "glob_inv ans s" "g_criteria s = asterisk # cr" "cr \<noteq> []"
    and "s' = s\<lparr>g_criteria := cr, g_asterisk := True\<rparr>"
  shows "stack_ok s' \<and> glob_inv ans s' \<and> (s', s) \<in> glob_less"
proof -
  have acc: "accepts s' \<longleftrightarrow> accepts s"
    using assms(3) by (simp add: accepts_def assms(5) glob_twice)
  have "accepts s'" if "\<not> g_asterisk s" "g_stack s \<noteq> []" "accepts_back (last (g_stack s))"
  proof -
    obtain cr0 fi0 where e: "last (g_stack s) = (cr0, fi0)" by (rule prod.exhaust)
    from assms(2) that(1,2) obtain k where "k \<le> length cr0" "asterisk \<notin> set (take k cr0)"
      "g_criteria s = drop k cr0" "g_filename s = drop k fi0" unfolding glob_inv_def e by auto
    with leftmost_suffices [of k cr0 cr fi0] that(3) assms(3)
    show ?thesis by (simp add: accepts_back_def e accepts_def assms(5))
  qed
  then have "glob_inv ans s'" using assms(2,4) acc unfolding glob_inv_def by (auto simp: assms(5))
  moreover have "stack_ok s'" by (rule stack_ok_shorter [OF assms(1)]) (simp_all add: assms(5))
  moreover have "(s', s) \<in> glob_less"
    using assms(3) by (auto simp: glob_less_def assms(5) split: list.splits)
  ultimately show ?thesis by simp
qed

text \<open>A character that is not an asterisk, in front of a name that is not at its end.\<close>

lemma glob_less_shorter:
  assumes "stack_ok s" "g_stack s' = g_stack s" "length (g_criteria s') \<le> length (g_criteria s)"
    and "length (g_filename s') < length (g_filename s)"
  shows "(s', s) \<in> glob_less"
  using assms(1) by (cases rule: stack_cases) (use assms(2-4) in \<open>auto simp: glob_less_def\<close>)

lemma glob_skip_ok:
  assumes "stack_ok s" "glob_inv ans s" "g_criteria s = c # cr" "c \<noteq> asterisk" "g_filename s = d # fi"
    and "g_asterisk s" "\<not> (c = question \<or> c = d)" "s' = s\<lparr>g_filename := fi\<rparr>"
  shows "stack_ok s' \<and> glob_inv ans s' \<and> (s', s) \<in> glob_less"
proof -
  have "accepts s' \<longleftrightarrow> accepts s"
    using assms(3-7) by (simp add: accepts_def assms(8) glob_asterisk [of "c # cr" "d # fi"] glob_other)
  then have "glob_inv ans s'" using assms(2,3,6) unfolding glob_inv_def by (simp add: assms(8))
  moreover have "stack_ok s'" by (rule stack_ok_shorter [OF assms(1)]) (simp_all add: assms(5,8))
  moreover have "(s', s) \<in> glob_less" by (rule glob_less_shorter [OF assms(1)]) (simp_all add: assms(5,8))
  ultimately show ?thesis by simp
qed

lemma glob_match_ok:
  assumes "stack_ok s" "glob_inv ans s" "g_criteria s = c # cr" "c \<noteq> asterisk" "g_filename s = d # fi"
    and "\<not> g_asterisk s" "c = question \<or> c = d" "s' = s\<lparr>g_criteria := cr, g_filename := fi\<rparr>"
  shows "stack_ok s' \<and> glob_inv ans s' \<and> (s', s) \<in> glob_less"
proof -
  have "accepts s' \<longleftrightarrow> accepts s" using assms(3-7) by (simp add: accepts_def assms(8) glob_other)
  moreover have "\<exists>k. k \<le> length (fst e) \<and> asterisk \<notin> set (take k (fst e)) \<and> cr = drop k (fst e) \<and> fi = drop k (snd e)"
    if "g_stack s \<noteq> []" "e = last (g_stack s)" for e
  proof -
    from assms(2) that assms(6) obtain k where k: "k \<le> length (fst e)" "asterisk \<notin> set (take k (fst e))"
      "c # cr = drop k (fst e)" "d # fi = drop k (snd e)" unfolding glob_inv_def assms(3,5) by auto
    then have "k < length (fst e)" by (cases "k = length (fst e)") auto
    moreover from this have "fst e ! k = c" using k(3) by (metis nth_via_drop)
    ultimately have "asterisk \<notin> set (take (Suc k) (fst e))" using k(2) assms(4) by (simp add: take_Suc_conv_app_nth)
    moreover have "cr = drop (Suc k) (fst e)" "fi = drop (Suc k) (snd e)" using k(3,4) by (metis drop_Suc list.sel(3) tl_drop)+
    ultimately show ?thesis using \<open>k < length (fst e)\<close> by (intro exI [of _ "Suc k"]) simp
  qed
  ultimately have "glob_inv ans s'" using assms(2,6) unfolding glob_inv_def by (simp add: assms(8))
  moreover have "stack_ok s'" by (rule stack_ok_shorter [OF assms(1)]) (simp_all add: assms(5,8))
  moreover have "(s', s) \<in> glob_less" by (rule glob_less_shorter [OF assms(1)]) (simp_all add: assms(3,5,8))
  ultimately show ?thesis by simp
qed

lemma glob_push_ok:
  assumes "stack_ok s" "glob_inv ans s" "g_criteria s = c # cr" "c \<noteq> asterisk" "g_filename s = d # fi"
    and "g_asterisk s" "c = question \<or> c = d"
    and "s' = s\<lparr>g_criteria := cr, g_filename := fi, g_asterisk := False,
                g_stack := push_ustack (g_stack s) (c # cr, d # fi)\<rparr>"
  shows "stack_ok s' \<and> glob_inv ans s' \<and> (s', s) \<in> glob_less"
proof -
  have top: "g_stack s' \<noteq> []" "last (g_stack s') = (c # cr, d # fi)"
    "\<And>e. e \<in> set (g_stack s') \<Longrightarrow> e \<in> set (g_stack s) \<or> e = (c # cr, d # fi)"
    by (auto simp: assms(8) push_ustack_def split: if_splits)
  have "accepts s \<longleftrightarrow> accepts s' \<or> accepts_back (c # cr, d # fi)"
    using assms(3-7) by (simp add: accepts_def accepts_back_def assms(8) glob_asterisk [of "c # cr" "d # fi"] glob_other)
  then have "glob_inv ans s'"
    using assms(2,4,6) top unfolding glob_inv_def by (auto simp: assms(8) intro!: exI [of _ 1])
  moreover have "stack_ok s' \<and> (s', s) \<in> glob_less"
    using assms(1)
    by (cases rule: stack_cases) (use assms(3,5) in \<open>auto simp: assms(8) stack_ok_def push_ustack_def glob_less_def\<close>)
  ultimately show ?thesis by simp
qed

lemma glob_inv_accepts: "glob_inv ans s \<Longrightarrow> accepts s \<Longrightarrow> ans"
  by (simp add: glob_inv_def)

lemma glob_step_ok:
  assumes "stack_ok s" "glob_inv ans s"
  shows "case glob_step s of Inl r \<Rightarrow> r = ans | Inr s' \<Rightarrow> stack_ok s' \<and> glob_inv ans s' \<and> (s', s) \<in> glob_less"
proof -
  note acc = glob_inv_accepts [OF assms(2)] and pop = glob_pop_ok [OF assms]
  consider "g_criteria s = []" | cr where "g_criteria s = asterisk # cr"
    | c cr where "g_criteria s = c # cr" "c \<noteq> asterisk" "g_filename s = []"
    | c cr d fi where "g_criteria s = c # cr" "c \<noteq> asterisk" "g_filename s = d # fi"
    by (cases "g_criteria s"; cases "g_filename s") auto
  then show ?thesis
  proof cases
    case 1
    then have "accepts s \<longleftrightarrow> g_filename s = []" using assms(2) by (simp add: accepts_def glob_inv_def)
    then show ?thesis using acc pop 1 by (cases "g_filename s = []") (simp_all add: glob_step_def)
  next
    case (2 cr)
    show ?thesis
    proof (cases "cr = []")
      case True
      then have "accepts s" using 2 by (simp add: accepts_def glob_twice)
      then show ?thesis using acc 2 True by (simp add: glob_step_def)
    next
      case False
      show ?thesis using glob_asterisk_ok [OF assms 2 False refl] 2 False by (simp add: glob_step_def)
    qed
  next
    case (3 c cr)
    then have "\<not> accepts s" by (simp add: accepts_def glob.simps)
    from pop [OF this] show ?thesis using 3 by (simp add: glob_step_def)
  next
    case (4 c cr d fi)
    show ?thesis
    proof (cases "c = question \<or> c = d")
      case True
      show ?thesis
      proof (cases "g_asterisk s")
        case ast: True
        show ?thesis using glob_push_ok [OF assms 4 ast True refl] 4 ast True by (simp add: glob_step_def)
      next
        case ast: False
        show ?thesis using glob_match_ok [OF assms 4 ast True refl] 4 ast True by (simp add: glob_step_def)
      qed
    next
      case False
      show ?thesis
      proof (cases "g_asterisk s")
        case ast: True
        show ?thesis using glob_skip_ok [OF assms 4 ast False refl] 4 ast False by (simp add: glob_step_def)
      next
        case ast: False
        then have "\<not> accepts s" using 4 False by (simp add: accepts_def glob_other)
        from pop [OF this] show ?thesis using 4 ast False by (simp add: glob_step_def)
      qed
    qed
  qed
qed

lemma glob_run_ok: "stack_ok s \<Longrightarrow> glob_inv ans s \<Longrightarrow> glob_run s = Some ans"
proof (induction s rule: wf_induct_rule [OF wf_glob_less])
  case (1 s)
  show ?case
  proof (cases "glob_step s")
    case (Inl r)
    then show ?thesis using glob_step_ok [OF 1(2,3)] by (simp add: glob_run.simps [of s])
  next
    case (Inr s')
    then show ?thesis using glob_step_ok [OF 1(2,3)] 1(1) [of s'] by (simp add: glob_run.simps [of s])
  qed
qed

lemma matches_glob:
  assumes "\<And>t. concat (clusters t) = t" "\<And>t. [] \<notin> set (clusters t)"
  shows "matches_name_criteria_caseless clusters criteria filename = Some (glob (clusters criteria) (clusters filename))"
proof -
  have empty: "clusters t = [] \<longleftrightarrow> t = []" for t
    using assms(1) [of t] assms(2) [of t] by (cases "clusters t") auto
  have "glob_run \<lparr>g_criteria = clusters criteria, g_filename = clusters filename, g_asterisk = False, g_stack = []\<rparr> =
      Some (glob (clusters criteria) (clusters filename))"
    by (rule glob_run_ok) (simp_all add: stack_ok_def glob_inv_def accepts_def)
  then show ?thesis using empty [of criteria] empty [of filename] by (auto simp: matches_name_criteria_caseless_def)
qed

text \<open>C15.  The matcher ends for every pattern and every name, and accepts the name exactly when the pattern matches
  it, asterisks standing for any characters and question marks for one; that it keeps two positions at most to
  go back to does no harm.\<close>

theorem glob_decides:
  assumes "\<And>t. concat (clusters t) = t" "\<And>t. [] \<notin> set (clusters t)"
  shows "matches_name_criteria_caseless clusters criteria filename = Some (glob (clusters criteria) (clusters filename))"
  using assms by (rule matches_glob)

theorem glob_decides_witness:
  "matches_name_criteria_caseless (map (\<lambda>u. [u])) [0x2a, 1, 0x3f, 0x2a, 3] [1, 1, 2, 3, 2, 3] = Some True"
proof -
  have "concat (map (\<lambda>u. [u]) t) = t" "[] \<notin> set (map (\<lambda>u. [u]) t)" for t :: "nat list" by auto
  from glob_decides [of "map (\<lambda>u. [u])", OF this]
  have "matches_name_criteria_caseless (map (\<lambda>u. [u])) [0x2a, 1, 0x3f, 0x2a, 3] [1, 1, 2, 3, 2, 3] =
      Some (glob (map (\<lambda>u. [u]) [0x2a, 1, 0x3f, 0x2a, 3]) (map (\<lambda>u. [u]) [1, 1, 2, 3, 2, 3]))" .
  then show ?thesis by (simp add: glob.simps)
qed

end
