(* ===== verification/EntryName.thy ===== *)
theory EntryName
  imports CText TapeOps
begin

text \<open>
  Names in an index: the percent encoding of names that XML cannot hold (\<open>encode_entry_name\<close> and
  \<open>_xml_write_nametype\<close> of \<open>libltfs/xml_writer_libltfs.c\<close>, \<open>decode_entry_name\<close> and \<open>_xml_parse_nametype\<close> of
  \<open>libltfs/xml_reader_libltfs.c\<close>, \<open>fs_is_percent_encode_required\<close> of \<open>libltfs/fs.c\<close>).  Names are C strings, lists of
  bytes without a terminator.  The macro U8_NEXT of ICU is the parameter \<open>u8\<close>: for a text it gives the number of
  bytes of the first code point and the code point, which is negative if the bytes are ill-formed.  The
  normalisation and the validation of path names are parameters as well.  Memory allocation succeeds.
\<close>

section \<open>Encoding and decoding\<close>

definition plain_chars :: string where
  "plain_chars = ''!'' @ [CHR 0x22] @ ''#$&`'' @ [CHR 0x27] @
     ''()*+,-./0123456789;<=>?@ABCDEFGHIJKLMNOPQRSTUVWXYZ['' @ [CHR 0x5C] @ '']^_`abcdefghijklmnopqrstuvwxyz{|}~''"

definition hex_upper :: "nat \<Rightarrow> char" where
  "hex_upper d = (if d < 10 then char_of (48 + d) else char_of (55 + d))"

text \<open>The conversion \<open>%02X\<close> of a byte.\<close>

definition hex_byte :: "char \<Rightarrow> string" where
  "hex_byte c = [hex_upper (of_char c div 16), hex_upper (of_char c mod 16)]"

function encode_loop :: "(string \<Rightarrow> nat \<times> int) \<Rightarrow> string \<Rightarrow> error + string" where
  "encode_loop u8 name =
     (case name of
        [] \<Rightarrow> Inr []
      | b # _ \<Rightarrow>
          (let (k, c) = u8 name in
           if k = 0 then Inl C_UNDEFINED
           else if c < 0 then Inl LTFS_ICU_ERROR
           else case encode_loop u8 (drop k name) of
               Inl e \<Rightarrow> Inl e
             | Inr rest \<Rightarrow>
                 if b \<in> set plain_chars then Inr (b # rest)
                 else Inr (concat (map (\<lambda>b. CHR ''%'' # hex_byte b) (take k name)) @ rest)))"
  by pat_completeness auto
termination
  by (relation "measure (\<lambda>(_, name). length name)") auto

declare encode_loop.simps [simp del]

definition encode_entry_name :: "(string \<Rightarrow> nat \<times> int) \<Rightarrow> string \<Rightarrow> error + string" where
  "encode_entry_name u8 name = encode_loop u8 name"

text \<open>What a pair of characters behind a percent sign is replaced with, and the character at the end of it.\<close>

definition decode_pair :: "string \<Rightarrow> string" where
  "decode_pair buf =
     (let c = char_of (nat (fst (strtoll 16 buf) mod 256)) in
      if c = CHR ''/'' \<or> c = CHR 0x00 then CHR ''%'' # buf else [c])"

definition no_slash :: "char \<Rightarrow> char" where
  "no_slash c = (if c = CHR ''/'' then CHR ''_'' else c)"

fun decode_loop :: "bool \<Rightarrow> string \<Rightarrow> string" where
  "decode_loop encoded [] = []"
| "decode_loop encoded (c # cs) =
     (if c = CHR ''%'' \<and> 2 < length (c # cs) then decode_loop True cs
      else if encoded then
        (let p = decode_pair (c # take 1 cs) in butlast p @ [no_slash (last p)] @ decode_loop False (drop 1 cs))
      else no_slash c # decode_loop False cs)"

definition decode_entry_name :: "string \<Rightarrow> string" where
  "decode_entry_name name = decode_loop False name"

section \<open>Name elements\<close>

record ltfs_name =
  percent_encode :: bool
  name_text :: "string option"

definition fs_is_percent_encode_required :: "string \<Rightarrow> bool" where
  "fs_is_percent_encode_required name \<longleftrightarrow>
     list_ex (\<lambda>c. let n = (of_char c :: nat) in n = 0x3A \<or> n \<le> 0x1F \<and> n \<noteq> 0x09 \<and> n \<noteq> 0x0A \<and> n \<noteq> 0x0D) name"

definition fs_set_nametype :: "string \<Rightarrow> ltfs_name" where
  "fs_set_nametype str = \<lparr>percent_encode = fs_is_percent_encode_required str, name_text = Some str\<rparr>"

text \<open>A written element: whether it has the attribute \<open>percentencoded\<close>, and its text.  \<open>None\<close> is a failure.\<close>

definition xml_write_nametype :: "(string \<Rightarrow> nat \<times> int) \<Rightarrow> ltfs_name \<Rightarrow> (bool \<times> string) option" where
  "xml_write_nametype u8 n =
     (case name_text n of
        None \<Rightarrow> None
      | Some str \<Rightarrow>
          if percent_encode n then (case encode_entry_name u8 str of Inl _ \<Rightarrow> None | Inr enc \<Rightarrow> Some (True, enc))
          else Some (False, str))"

definition xml_parse_path :: "(string \<Rightarrow> error + string) \<Rightarrow> (string \<Rightarrow> error + unit) \<Rightarrow> string \<Rightarrow> error + string" where
  "xml_parse_path pathname_normalize pathname_validate val =
     (case pathname_normalize val of
        Inl e \<Rightarrow> Inl e
      | Inr out_val \<Rightarrow> (case pathname_validate out_val of Inl e \<Rightarrow> Inl e | Inr _ \<Rightarrow> Inr out_val))"

text \<open>
  The element is read into a name that has no text yet; an element without text is an error.
\<close>

definition xml_parse_nametype ::
  "(string \<Rightarrow> error + string) \<Rightarrow> (string \<Rightarrow> error + unit) \<Rightarrow> bool \<times> string \<Rightarrow> (error + unit) \<times> ltfs_name" where
  "xml_parse_nametype pathname_normalize pathname_validate element =
     (let (encoded, val) = element in
      if val = [] then (Inl LTFS_XML_EMPTY, \<lparr>percent_encode = encoded, name_text = None\<rparr>)
      else
        let decoded_name = (if encoded then decode_entry_name val else val) in
        case xml_parse_path pathname_normalize pathname_validate decoded_name of
          Inl e \<Rightarrow> (Inl e, \<lparr>percent_encode = encoded, name_text = None\<rparr>)
        | Inr str \<Rightarrow> (Inr (), \<lparr>percent_encode = encoded, name_text = Some str\<rparr>))"

section \<open>Names are read back\<close>

text \<open>
  Text that U8_NEXT accepts: every code point takes at least one byte, one for ASCII, and the bytes of longer
  sequences are not ASCII.
\<close>

definition u8_text :: "(string \<Rightarrow> nat \<times> int) \<Rightarrow> string \<Rightarrow> bool" where
  "u8_text u8 name \<longleftrightarrow> CHR 0x00 \<notin> set name \<and>
     (\<forall>i < length name. let (k, c) = u8 (drop i name) in
        0 < k \<and> 0 \<le> c \<and> (of_char (name ! i) < (128 :: nat) \<longrightarrow> k = 1) \<and>
        (128 \<le> (of_char (name ! i) :: nat) \<longrightarrow> (\<forall>b \<in> set (take k (drop i name)). 128 \<le> (of_char b :: nat))))"

lemma plain_ascii: "c \<in> set plain_chars \<Longrightarrow> of_char c < (128 :: nat) \<and> c \<noteq> CHR ''%''"
proof -
  have "list_all (\<lambda>c. of_char c < (128 :: nat) \<and> c \<noteq> CHR ''%'') plain_chars" by code_simp
  then show "c \<in> set plain_chars \<Longrightarrow> of_char c < (128 :: nat) \<and> c \<noteq> CHR ''%''" by (simp add: list_all_iff)
qed

lemma decode_plain: "c \<noteq> CHR ''%'' \<Longrightarrow> decode_loop False (c # cs) = no_slash c # decode_loop False cs"
  by simp

lemma hex_upper:
  assumes "d < 16"
  shows "digit_of (hex_upper d) = d" "\<not> isspace (hex_upper d)" "hex_upper d \<notin> {CHR ''-'', CHR ''+'', CHR ''%''}"
proof -
  have "of_char (hex_upper d) = (if d < 10 then 48 + d else 55 + d)" using assms by (simp add: hex_upper_def)
  note code = this
  show "digit_of (hex_upper d) = d" using assms by (simp add: digit_of_def code Let_def)
  show "\<not> isspace (hex_upper d)" by (simp add: isspace_def code)
  show "hex_upper d \<notin> {CHR ''-'', CHR ''+'', CHR ''%''}"
  proof
    assume "hex_upper d \<in> {CHR ''-'', CHR ''+'', CHR ''%''}"
    then have "(of_char (hex_upper d) :: nat) \<in> {45, 43, 37}" by auto
    then show False by (simp add: code split: if_splits)
  qed
qed

lemma hex_byte_value: "strtoll 16 (hex_byte c) = (int (of_char c), [])"
proof -
  let ?n = "of_char c :: nat"
  have d: "?n div 16 < 16" "?n mod 16 < 16" by (rule less_mult_imp_div_less, simp) simp
  have "scan_number 16 (length (hex_byte c)) (hex_byte c) = Some (False, ?n, [])"
    using hex_upper [OF d(1)] hex_upper [OF d(2)] d
    by (simp add: scan_number_def hex_byte_def strip_sign_def strip_prefix_def is_digit_def digits_value_def)
  moreover have "?n < 2 ^ 63" by (rule less_trans [where y = 256]) simp_all
  ultimately show ?thesis by (rule strtoll_small)
qed

lemma decode_percent:
  assumes "c \<noteq> CHR ''/''" "c \<noteq> CHR 0x00"
  shows "decode_loop False (CHR ''%'' # hex_byte c @ rest) = c # decode_loop False rest"
proof -
  obtain a b where ab: "hex_byte c = [a, b]" by (simp add: hex_byte_def)
  have pair: "decode_pair [a, b] = [c]"
    using hex_byte_value [of c] assms by (simp add: ab decode_pair_def)
  have "of_char c div 16 < (16 :: nat)" by (rule less_mult_imp_div_less) simp
  then have "a \<noteq> CHR ''%''" using hex_upper(3) [of "of_char c div 16"] ab by (auto simp: hex_byte_def)
  then show ?thesis using assms(1) by (simp add: ab pair no_slash_def)
qed

lemma decode_percents:
  "\<forall>c \<in> set bs. c \<noteq> CHR ''/'' \<and> c \<noteq> CHR 0x00 \<Longrightarrow>
    decode_loop False (concat (map (\<lambda>b. CHR ''%'' # hex_byte b) bs) @ rest) = bs @ decode_loop False rest"
  by (induction bs) (simp_all add: decode_percent del: decode_loop.simps)

lemma u8_text_drop: "u8_text u8 name \<Longrightarrow> u8_text u8 (drop k name)"
  unfolding u8_text_def by (auto simp: add.commute dest: in_set_dropD)

lemma decode_encode:
  "u8_text u8 name \<Longrightarrow> \<exists>enc. encode_loop u8 name = Inr enc \<and> decode_loop False enc = map no_slash name"
proof (induction u8 name rule: encode_loop.induct)
  case (1 u8 name)
  show ?case
  proof (cases name)
    case Nil
    then show ?thesis by (simp add: encode_loop.simps)
  next
    case (Cons b bs)
    obtain k c where u8: "u8 name = (k, c)" by (rule prod.exhaust)
    have first: "0 < k" "0 \<le> c" "of_char b < (128 :: nat) \<longrightarrow> k = 1"
      "128 \<le> (of_char b :: nat) \<longrightarrow> (\<forall>b \<in> set (take k name). 128 \<le> (of_char b :: nat))"
      and zero: "CHR 0x00 \<notin> set name"
      using 1(2) Cons u8 unfolding u8_text_def by (auto dest: spec [of _ 0])
    from 1(1) [OF Cons u8 [symmetric] refl] first(1,2) u8_text_drop [OF 1(2)]
    obtain rest where rest: "encode_loop u8 (drop k name) = Inr rest" "decode_loop False rest = map no_slash (drop k name)"
      by auto
    have enc: "encode_loop u8 name = Inr (if b \<in> set plain_chars then b # rest
        else concat (map (\<lambda>b. CHR ''%'' # hex_byte b) (take k name)) @ rest)"
      using first(1,2) rest(1) u8 unfolding Cons by (simp add: encode_loop.simps [of u8 "b # bs"])
    show ?thesis
    proof (cases "b \<in> set plain_chars")
      case True
      then have "k = 1" "b \<noteq> CHR ''%''" using plain_ascii [OF True] first(3) by auto
      then show ?thesis
        using True rest(2) Cons unfolding enc by (simp add: decode_plain del: decode_loop.simps)
    next
      case False
      have "no_slash a = a \<and> a \<noteq> CHR ''/'' \<and> a \<noteq> CHR 0x00" if "a \<in> set (take k name)" for a
      proof -
        have "CHR ''/'' \<in> set plain_chars" by code_simp
        then have "a \<noteq> CHR ''/''"
          using False first(3,4) that Cons by (cases "of_char b < (128 :: nat)") auto
        moreover have "a \<noteq> CHR 0x00" using zero that by (auto dest: in_set_takeD)
        ultimately show ?thesis by (simp add: no_slash_def)
      qed
      then have "map no_slash (take k name) = take k name" "\<forall>a \<in> set (take k name). a \<noteq> CHR ''/'' \<and> a \<noteq> CHR 0x00"
        by (auto intro: map_idI)
      moreover have "map no_slash name = map no_slash (take k name) @ map no_slash (drop k name)"
        by (simp flip: map_append)
      ultimately show ?thesis
        using False rest(2) unfolding enc by (simp add: decode_percents del: decode_loop.simps)
    qed
  qed
qed

lemma nametype_read:
  assumes "u8_text u8 str" "str \<noteq> []"
    and "str' = (if fs_is_percent_encode_required str then map no_slash str else str)"
    and "pathname_normalize str' = Inr str'" "pathname_validate str' = Inr ()"
  shows "\<exists>element. xml_write_nametype u8 (fs_set_nametype str) = Some element \<and>
    xml_parse_nametype pathname_normalize pathname_validate element =
      (Inr (), \<lparr>percent_encode = fs_is_percent_encode_required str, name_text = Some str'\<rparr>)"
proof -
  obtain enc where enc: "encode_loop u8 str = Inr enc" "decode_loop False enc = map no_slash str"
    using decode_encode [OF assms(1)] by blast
  have "enc \<noteq> []" using enc(2) assms(2) by auto
  let ?e = "fs_is_percent_encode_required str"
  have "xml_write_nametype u8 (fs_set_nametype str) = Some (if ?e then (True, enc) else (False, str))"
    by (simp add: xml_write_nametype_def fs_set_nametype_def encode_entry_name_def enc(1))
  moreover have "xml_parse_nametype pathname_normalize pathname_validate (if ?e then (True, enc) else (False, str)) =
      (Inr (), \<lparr>percent_encode = ?e, name_text = Some str'\<rparr>)"
    using assms(2-5) \<open>enc \<noteq> []\<close> by (cases ?e) (simp_all add: xml_parse_nametype_def decode_entry_name_def enc(2) xml_parse_path_def)
  ultimately show ?thesis by blast
qed


definition u8_ascii :: "string \<Rightarrow> nat \<times> int" where
  "u8_ascii s = (case s of [] \<Rightarrow> (0, -1) | c # _ \<Rightarrow> if of_char c < (128 :: nat) then (1, int (of_char c)) else (1, -1))"

lemma u8_text_ascii:
  assumes "list_all (\<lambda>c. c \<noteq> CHR 0x00 \<and> of_char c < (128 :: nat)) s"
  shows "u8_text u8_ascii s"
proof -
  have "u8_ascii (drop i s) = (1, int (of_char (s ! i))) \<and> of_char (s ! i) < (128 :: nat)" if "i < length s" for i
  proof -
    have "of_char (s ! i) < (128 :: nat)" using assms that by (simp add: list_all_length)
    moreover have "drop i s = s ! i # drop (Suc i) s" using that by (rule Cons_nth_drop_Suc [symmetric])
    ultimately show ?thesis by (simp add: u8_ascii_def)
  qed
  moreover have "CHR 0x00 \<notin> set s" using assms by (auto simp: list_all_iff)
  ultimately show ?thesis unfolding u8_text_def by fastforce
qed




end
