(* ===== verification/Criteria.thy ===== *)
theory Criteria
  imports Glob EntryName
begin

text \<open>
  The index criteria of \<open>libltfs/index_criteria.c\<close>: which files have their data on the index partition.  The rules
  are parsed from a string such as \<open>size=10K/name=*.txt:*.c\<close> and matched against file names.  The validation of
  names and the preparation of text for caseless matching (both ICU) are parameters; allocation succeeds.  A read
  outside of a string is \<open>C_UNDEFINED\<close>.
\<close>

section \<open>Options\<close>

definition to_lower :: "char \<Rightarrow> char" where
  "to_lower c = (if 65 \<le> (of_char c :: nat) \<and> of_char c \<le> (90 :: nat) then char_of (of_char c + 32 :: nat) else c)"

definition isalpha :: "char \<Rightarrow> bool" where
  "isalpha c \<longleftrightarrow> (let n = (of_char c :: nat) in 65 \<le> n \<and> n \<le> 90 \<or> 97 \<le> n \<and> n \<le> 122)"

text \<open>The comparison \<open>! strncasecmp(option, str, strlen(option))\<close>.\<close>

definition has_option :: "string \<Rightarrow> string \<Rightarrow> bool" where
  "has_option option str \<longleftrightarrow> length option \<le> length str \<and> map to_lower (take (length option) str) = map to_lower option"

definition valid_option :: "string \<Rightarrow> bool" where
  "valid_option str \<longleftrightarrow> list_ex (\<lambda>option. has_option option str) [''name='', ''size='']"

text \<open>The options behind each separator; the argument is the text in which the next separator is looked for.\<close>

function invalid_loop :: "string \<Rightarrow> bool" where
  "invalid_loop str =
     (case dropWhile (\<lambda>c. c \<noteq> CHR ''/'') str of
        [] \<Rightarrow> False
      | _ # rest \<Rightarrow> if \<not> valid_option rest then True else invalid_loop rest)"
  by pat_completeness auto
termination
proof (relation "measure length")
  fix str rest :: string and c
  assume "dropWhile (\<lambda>c. c \<noteq> CHR ''/'') str = c # rest"
  then show "(rest, str) \<in> measure length"
    using length_dropWhile_le [of "\<lambda>c. c \<noteq> CHR ''/''" str] by simp
qed simp

declare invalid_loop.simps [simp del]

definition index_criteria_contains_invalid_options :: "string option \<Rightarrow> bool" where
  "index_criteria_contains_invalid_options str =
     (case str of
        None \<Rightarrow> False
      | Some str \<Rightarrow>
          if length str < 5 then True
          else if \<not> valid_option str then True
          else invalid_loop (tl str))"

text \<open>
  The search for an option: not found, with the error flag left alone, found with the text of the option up to the
  next separator, or rejected with the error flag set.  The options of the program do not begin with a separator;
  for one that does, the recursion of the source would not end, and the model stops it.
\<close>

datatype find_result = Not_found | Found string | Duplicate

fun find_from :: "string \<Rightarrow> char \<Rightarrow> string \<Rightarrow> string option" where
  "find_from option before [] = None"
| "find_from option before (c # cs) =
     (if before = CHR ''/'' \<and> has_option option (c # cs) then Some (c # cs) else find_from option c cs)"

definition option_start :: "string \<Rightarrow> string \<Rightarrow> string option" where
  "option_start option str = (if has_option option str then Some str else find_from option (hd str) (tl str))"

lemma find_from_length: "find_from option b str = Some u \<Longrightarrow> length u \<le> length str"
proof (induction str arbitrary: b)
  case (Cons c str)
  then show ?case by (cases "b = CHR ''/'' \<and> has_option option (c # str)") (auto dest!: Cons.IH)
qed simp

lemma option_start_length: "option_start option str = Some u \<Longrightarrow> length u \<le> length str"
  by (auto simp: option_start_def split: if_splits dest!: find_from_length)

function index_criteria_find_option :: "string \<Rightarrow> string \<Rightarrow> find_result" where
  "index_criteria_find_option str option =
     (if length str < 5 then Not_found
      else case option_start option str of
          None \<Rightarrow> Not_found
        | Some u \<Rightarrow>
            if u = [] \<or> hd u = CHR ''/'' then Not_found
            else (case index_criteria_find_option (dropWhile (\<lambda>c. c \<noteq> CHR ''/'') u) option of
                Found _ \<Rightarrow> Duplicate
              | _ \<Rightarrow> Found (takeWhile (\<lambda>c. c \<noteq> CHR ''/'') u)))"
  by pat_completeness auto
termination
proof (relation "measure (\<lambda>(str, _). length str)")
  fix str option u
  assume "option_start option str = Some u" "\<not> (u = [] \<or> hd u = CHR ''/'')"
  then show "((dropWhile (\<lambda>c. c \<noteq> CHR ''/'') u, option), (str, option)) \<in> measure (\<lambda>(str, _). length str)"
    using option_start_length [of option str u] length_dropWhile_le [of "\<lambda>c. c \<noteq> CHR ''/''" "tl u"] by (cases u) auto
qed simp

declare index_criteria_find_option.simps [simp del]

section \<open>Parsing\<close>

record index_criteria =
  have_criteria :: bool
  max_filesize_criteria :: nat
  glob_patterns :: "ltfs_name list option"
  glob_cache :: "nat list list option"

fun two_letters :: "string \<Rightarrow> bool" where
  "two_letters (a # b # cs) \<longleftrightarrow> isalpha a \<and> isalpha b \<or> two_letters (b # cs)"
| "two_letters _ \<longleftrightarrow> False"

definition size_multiplier :: "char \<Rightarrow> nat option" where
  "size_multiplier last_char =
     (if last_char = CHR ''k'' \<or> last_char = CHR ''K'' then Some 1024
      else if last_char = CHR ''m'' \<or> last_char = CHR ''M'' then Some (1024 * 1024)
      else if last_char = CHR ''g'' \<or> last_char = CHR ''G'' then Some (1024 * 1024 * 1024)
      else None)"

definition index_criteria_parse_size :: "string \<Rightarrow> index_criteria \<Rightarrow> (error + unit) \<times> index_criteria" where
  "index_criteria_parse_size criteria ic =
     (let rule = drop 5 criteria in
      if length criteria < 5 then (Inl LTFS_POLICY_INVALID, ic)
      else if two_letters rule then (Inl LTFS_POLICY_INVALID, ic)
      else if rule = [] then (Inl C_UNDEFINED, ic)
      else
        let rest = (if isalpha (last rule)
                    then map_option (\<lambda>m. (butlast rule, m)) (size_multiplier (last rule)) else Some (rule, 1)) in
        case rest of
          None \<Rightarrow> (Inl LTFS_POLICY_INVALID, ic)
        | Some (rule, multiplier) \<Rightarrow>
            if rule = [] then (Inl LTFS_POLICY_INVALID, ic)
            else if \<not> is_digit 10 (hd rule) then (Inl LTFS_POLICY_INVALID, ic)
            else (Inr (), ic\<lparr>max_filesize_criteria := u64 (fst (strtoull 10 rule) * multiplier)\<rparr>))"

text \<open>The check for empty rules from the second character on, with the character before.\<close>

fun empty_rule :: "char \<Rightarrow> string \<Rightarrow> bool" where
  "empty_rule before [] \<longleftrightarrow> False"
| "empty_rule before (c # cs) \<longleftrightarrow> c = CHR '':'' \<and> (before = CHR '':'' \<or> cs = []) \<or> empty_rule c cs"

fun split_rules :: "string \<Rightarrow> string \<Rightarrow> string list" where
  "split_rules acc [] = [rev acc]"
| "split_rules acc (c # cs) = (if c = CHR '':'' then rev acc # split_rules [] cs else split_rules (c # acc) cs)"

fun validate_rules :: "(string \<Rightarrow> error + unit) \<Rightarrow> string list \<Rightarrow> error + unit" where
  "validate_rules pathname_validate_file [] = Inr ()"
| "validate_rules pathname_validate_file (r # rs) =
     (case pathname_validate_file r of Inl e \<Rightarrow> Inl e | Inr _ \<Rightarrow> validate_rules pathname_validate_file rs)"

definition index_criteria_parse_name ::
  "(string \<Rightarrow> error + unit) \<Rightarrow> string \<Rightarrow> index_criteria \<Rightarrow> (error + unit) \<times> index_criteria" where
  "index_criteria_parse_name pathname_validate_file criteria ic =
     (let rule = drop 5 criteria in
      if length criteria \<le> 5 then (Inl C_UNDEFINED, ic)
      else if hd rule = CHR '':'' then (Inl LTFS_POLICY_EMPTY_RULE, ic)
      else if empty_rule (hd rule) (tl rule) then (Inl LTFS_POLICY_EMPTY_RULE, ic)
      else
        let rules = split_rules [] rule in
        (validate_rules pathname_validate_file rules, ic\<lparr>glob_patterns := Some (map fs_set_nametype rules)\<rparr>))"

definition index_criteria_free :: "index_criteria \<Rightarrow> index_criteria" where
  "index_criteria_free ic =
     (if \<not> have_criteria ic then ic
      else \<lparr>have_criteria = False, max_filesize_criteria = 0, glob_patterns = None, glob_cache = None\<rparr>)"

definition index_criteria_parse ::
  "(string \<Rightarrow> error + unit) \<Rightarrow> string option \<Rightarrow> index_criteria \<Rightarrow> (error + unit) \<times> index_criteria" where
  "index_criteria_parse pathname_validate_file filterrules ic =
     (case filterrules of
        None \<Rightarrow> (Inr (), ic\<lparr>have_criteria := False\<rparr>)
      | Some rules \<Rightarrow>
          let ic = (index_criteria_free ic)\<lparr>have_criteria := True\<rparr> in
          if index_criteria_contains_invalid_options filterrules then (Inl LTFS_POLICY_INVALID, ic)
          else
            let (has_name, ret, ic) =
              (case index_criteria_find_option rules ''name='' of
                 Found opt \<Rightarrow> (True, index_criteria_parse_name pathname_validate_file opt ic)
               | Duplicate \<Rightarrow> (False, Inl LTFS_POLICY_INVALID, ic)
               | Not_found \<Rightarrow> (False, Inr (), ic)) in
            case ret of
              Inl e \<Rightarrow> (Inl e, ic)
            | Inr _ \<Rightarrow>
                let ic = ic\<lparr>max_filesize_criteria := 0\<rparr> in
                (case index_criteria_find_option rules ''size='' of
                   Found opt \<Rightarrow> index_criteria_parse_size opt ic
                 | Duplicate \<Rightarrow> (Inl LTFS_POLICY_INVALID, ic)
                 | Not_found \<Rightarrow> if has_name then (Inl LTFS_POLICY_INVALID, ic) else (Inr (), ic)))"

text \<open>A copy for another index, without the cache; what the destination had is given up first.\<close>

definition index_criteria_dup_rules :: "index_criteria \<Rightarrow> index_criteria \<Rightarrow> (error + unit) \<times> index_criteria" where
  "index_criteria_dup_rules dest_ic src_ic = (Inr (), src_ic\<lparr>glob_cache := None\<rparr>)"

definition index_criteria_get_glob_patterns :: "index_criteria \<Rightarrow> ltfs_name list option" where
  "index_criteria_get_glob_patterns ic = (if have_criteria ic then glob_patterns ic else None)"

definition index_criteria_get_max_filesize :: "index_criteria \<Rightarrow> nat" where
  "index_criteria_get_max_filesize ic = (if have_criteria ic then max_filesize_criteria ic else 0)"

section \<open>Matching\<close>

text \<open>The cache of prepared patterns; when the preparation of one fails, the ones before it stay in the cache.\<close>

fun prepare_patterns :: "(string \<Rightarrow> error + nat list) \<Rightarrow> string list \<Rightarrow> (error + unit) \<times> nat list list" where
  "prepare_patterns prepare [] = (Inr (), [])"
| "prepare_patterns prepare (n # ns) =
     (case prepare n of
        Inl e \<Rightarrow> (Inl e, [])
      | Inr u \<Rightarrow> (case prepare_patterns prepare ns of (ret, us) \<Rightarrow> (ret, u # us)))"

definition prepare_glob_cache ::
  "(string \<Rightarrow> error + nat list) \<Rightarrow> index_criteria \<Rightarrow> (error + unit) \<times> index_criteria" where
  "prepare_glob_cache prepare ic =
     (case prepare_patterns prepare (map (\<lambda>n. the (name_text n)) (the (glob_patterns ic))) of
        (ret, cache) \<Rightarrow> (ret, ic\<lparr>glob_cache := Some cache\<rparr>))"

text \<open>The result is a truth value, and a negative error code is true.\<close>

definition index_criteria_match ::
  "(string \<Rightarrow> error + nat list) \<Rightarrow> (nat list \<Rightarrow> cluster list) \<Rightarrow> string \<Rightarrow> index_criteria \<Rightarrow> bool \<times> index_criteria" where
  "index_criteria_match prepare clusters dname ic =
     (if \<not> have_criteria ic \<or> max_filesize_criteria ic = 0 then (False, ic)
      else if glob_patterns ic = None then (True, ic)
      else
        case (if glob_cache ic = None then prepare_glob_cache prepare ic else (Inr (), ic)) of
          (Inl _, ic) \<Rightarrow> (True, ic)
        | (Inr _, ic) \<Rightarrow>
            (case prepare dname of
               Inl _ \<Rightarrow> (True, ic)
             | Inr u \<Rightarrow>
                 (list_ex (\<lambda>g. matches_name_criteria_caseless clusters g u = Some True) (the (glob_cache ic)), ic)))"

section \<open>Options joined by separators\<close>

definition tails :: "char \<Rightarrow> string list \<Rightarrow> string" where
  "tails s xs = concat (map ((#) s) xs)"

definition join :: "char \<Rightarrow> string list \<Rightarrow> string" where
  "join s xs = tl (tails s xs)"

lemma tails_simps [simp]: "tails s [] = []" "tails s (x # xs) = s # x @ tails s xs"
  by (simp_all add: tails_def)

lemma join_Cons [simp]: "join s (x # xs) = x @ tails s xs"
  by (simp add: join_def)

lemma tails_cut [simp]:
  "s \<notin> set x \<Longrightarrow> takeWhile (\<lambda>c. c \<noteq> s) (x @ tails s xs) = x"
  "s \<notin> set x \<Longrightarrow> dropWhile (\<lambda>c. c \<noteq> s) (x @ tails s xs) = tails s xs"
  by (induction x) (cases xs, auto)+

definition criteria_option :: "string \<Rightarrow> bool" where
  "criteria_option option \<longleftrightarrow> option = ''name='' \<or> option = ''size=''"

lemma to_lower_slash [simp]: "to_lower c = CHR ''/'' \<longleftrightarrow> c = CHR ''/''"
proof -
  have "char_of (of_char c + 32 :: nat) \<noteq> CHR ''/''" if "65 \<le> (of_char c :: nat)" "of_char c \<le> (90 :: nat)"
  proof
    assume "char_of (of_char c + 32 :: nat) = CHR ''/''"
    then have "of_char (char_of (of_char c + 32 :: nat)) = (of_char (CHR ''/'') :: nat)" by simp
    with that show False by simp
  qed
  then show ?thesis by (auto simp: to_lower_def)
qed

lemma option_no_slash: "criteria_option option \<Longrightarrow> CHR ''/'' \<notin> set (map to_lower option)"
  by (auto simp: criteria_option_def to_lower_def)

lemma option_length: "criteria_option option \<Longrightarrow> length option = 5"
  by (auto simp: criteria_option_def)

lemma has_option_append:
  assumes "criteria_option option"
  shows "has_option option (x @ CHR ''/'' # y) \<longleftrightarrow> has_option option x"
proof (cases "length option \<le> length x")
  case False
  then have "CHR ''/'' \<in> set (take (length option) (x @ CHR ''/'' # y))" by (simp add: take_Cons')
  then have "CHR ''/'' \<in> set (map to_lower (take (length option) (x @ CHR ''/'' # y)))" by (force simp: to_lower_def)
  then have "map to_lower (take (length option) (x @ CHR ''/'' # y)) \<noteq> map to_lower option"
    using option_no_slash [OF assms] by metis
  then show ?thesis using False by (simp add: has_option_def)
qed (simp add: has_option_def)

lemma has_option_tails [simp]:
  "criteria_option option \<Longrightarrow> has_option option (x @ tails (CHR ''/'') opts) \<longleftrightarrow> has_option option x"
  using has_option_append [of option x] by (cases opts) simp_all

lemma has_option_not [simp]: "criteria_option option \<Longrightarrow> \<not> has_option option []"
  by (simp add: has_option_def option_length)

lemma has_option_slash [simp]: "criteria_option option \<Longrightarrow> \<not> has_option option (CHR ''/'' # x)"
  using has_option_append [of option "[]" x] has_option_not [of option] by simp

definition find_tail :: "string \<Rightarrow> string list \<Rightarrow> string option" where
  "find_tail option opts =
     (case dropWhile (\<lambda>x. \<not> has_option option x) opts of [] \<Rightarrow> None | x # xs \<Rightarrow> Some (x @ tails (CHR ''/'') xs))"

lemma find_tail_simps [simp]:
  "find_tail option [] = None"
  "find_tail option (x # xs) = (if has_option option x then Some (x @ tails (CHR ''/'') xs) else find_tail option xs)"
  by (simp_all add: find_tail_def)

lemma find_from_tails:
  assumes "criteria_option option" "CHR ''/'' \<notin> set x" "\<forall>y \<in> set opts. CHR ''/'' \<notin> set y"
  shows "find_from option b (x @ tails (CHR ''/'') opts) =
    (if b = CHR ''/'' \<and> has_option option x then Some (x @ tails (CHR ''/'') opts) else find_tail option opts)"
  using assms(2,3)
proof (induction opts arbitrary: x b)
  case Nil
  then show ?case
  proof (induction x arbitrary: b)
    case (Cons c x)
    then show ?case by (cases "b = CHR ''/'' \<and> has_option option (c # x)") auto
  qed (simp add: assms(1))
next
  case (Cons y opts)
  show ?case using Cons.prems(1)
  proof (induction x arbitrary: b)
    case Nil
    show ?case using Cons.IH [of y "CHR ''/''"] Cons.prems(2) assms(1) by simp
  next
    case (Cons c x)
    have "has_option option (c # x @ tails (CHR ''/'') (y # opts)) \<longleftrightarrow> has_option option (c # x)"
      using has_option_tails [OF assms(1), of "c # x" "y # opts"] by simp
    moreover have "c \<noteq> CHR ''/''" "CHR ''/'' \<notin> set x" using Cons.prems by auto
    ultimately show ?case using Cons.IH [of c] assms(1) by simp
  qed
qed

lemma option_start_tails:
  assumes "criteria_option option" "CHR ''/'' \<notin> set x" "\<forall>y \<in> set opts. CHR ''/'' \<notin> set y" "x \<noteq> [] \<or> opts \<noteq> []"
  shows "option_start option (x @ tails (CHR ''/'') opts) = find_tail option (x # opts)"
proof (cases x)
  case Nil
  then obtain y ys where opts: "opts = y # ys" using assms(4) by (cases opts) auto
  then show ?thesis using find_from_tails [OF assms(1), of y ys "CHR ''/''"] assms(1,3) Nil
    by (simp add: option_start_def)
next
  case (Cons c cs)
  then have "c \<noteq> CHR ''/''" "CHR ''/'' \<notin> set cs" using assms(2) by auto
  then show ?thesis
    using Cons find_from_tails [OF assms(1), of cs opts c] has_option_tails [OF assms(1), of x opts] assms(3)
    by (simp add: option_start_def)
qed

text \<open>What the search answers when the options that match are \<open>ms\<close>.\<close>

fun find_answer :: "string list \<Rightarrow> find_result" where
  "find_answer [] = Not_found"
| "find_answer (m # ms) = (if even (length ms) then Found m else Duplicate)"

lemma filter_dropWhile: "filter P xs = filter P (dropWhile (\<lambda>x. \<not> P x) xs)"
  by (induction xs) simp_all

lemma find_option_tails:
  assumes "criteria_option option" "CHR ''/'' \<notin> set x" "\<forall>y \<in> set opts. CHR ''/'' \<notin> set y"
  shows "index_criteria_find_option (x @ tails (CHR ''/'') opts) option = find_answer (filter (has_option option) (x # opts))"
  using assms(2,3)
proof (induction "length (x @ tails (CHR ''/'') opts)" arbitrary: x opts rule: less_induct)
  case less
  let ?str = "x @ tails (CHR ''/'') opts" and ?m = "dropWhile (\<lambda>y. \<not> has_option option y) (x # opts)"
  have filter: "filter (has_option option) (x # opts) = filter (has_option option) ?m" (is "?f = _")
    by (rule filter_dropWhile)
  show ?case
  proof (cases ?m)
    case Nil
    then have none: "find_tail option (x # opts) = None" by (simp add: find_tail_def)
    have "index_criteria_find_option ?str option = Not_found"
    proof (cases "x \<noteq> [] \<or> opts \<noteq> []")
      case True
      from option_start_tails [OF assms(1) less.prems this] none
      show ?thesis by (simp add: index_criteria_find_option.simps)
    qed (simp add: index_criteria_find_option.simps)
    then show ?thesis unfolding filter Nil by simp
  next
    case (Cons m ms)
    then have m: "has_option option m" by (metis hd_dropWhile list.sel(1) list.distinct(1))
    have "set ?m \<subseteq> set (x # opts)" by (meson set_dropWhileD subsetI)
    with Cons less.prems have slash: "CHR ''/'' \<notin> set m" "\<forall>y \<in> set ms. CHR ''/'' \<notin> set y" by auto
    have m0: "m \<noteq> []" "5 \<le> length m" using m option_length [OF assms(1)] by (auto simp: has_option_def)
    have ne: "x \<noteq> [] \<or> opts \<noteq> []" using m0 Cons by (cases opts) (auto split: if_splits)
    have start: "option_start option ?str = Some (m @ tails (CHR ''/'') ms)"
      using option_start_tails [OF assms(1) less.prems ne] Cons by (simp add: find_tail_def)
    then have long: "\<not> length ?str < 5" using option_start_length [OF start] m0 by simp
    have "hd (m @ tails (CHR ''/'') ms) \<noteq> CHR ''/''" using slash(1) m0(1) by (cases m) auto
    moreover have "index_criteria_find_option (tails (CHR ''/'') ms) option = find_answer (filter (has_option option) ms)"
      using less.hyps [of "[]" ms] slash(2) option_start_length [OF start] m0 assms(1) by simp
    ultimately have "index_criteria_find_option ?str option =
        (case find_answer (filter (has_option option) ms) of Found _ \<Rightarrow> Duplicate | _ \<Rightarrow> Found m)"
      using long start m0(1) slash(1)
      by (simp add: index_criteria_find_option.simps [of ?str] split: find_result.splits)
    then show ?thesis unfolding filter Cons using m by (cases "filter (has_option option) ms") simp_all
  qed
qed

text \<open>C38.  The search for an option in rules joined by slashes finds nothing when no rule has the option, and
  answers with the first such rule when their number is odd; an even number of them is rejected.  So an option
  given twice is refused, and one given three times is accepted.\<close>

theorem find_option_parity:
  assumes "option = ''name='' \<or> option = ''size=''" "\<forall>x \<in> set rules. CHR ''/'' \<notin> set x"
  shows "index_criteria_find_option (join (CHR ''/'') rules) option =
    (case filter (has_option option) rules of
       [] \<Rightarrow> Not_found
     | x # xs \<Rightarrow> if even (length xs) then Found x else Duplicate)"
proof (cases rules)
  case Nil
  then show ?thesis by (simp add: index_criteria_find_option.simps join_def)
next
  case (Cons x opts)
  then show ?thesis using find_option_tails [of option x opts] assms
    by (cases "filter (has_option option) rules") (auto simp: criteria_option_def)
qed

theorem find_option_parity_witness:
  "index_criteria_find_option ''size=1/name=a/SIZE=2/size=3'' ''size='' = Found ''size=1''"
proof -
  have "join (CHR ''/'') [''size=1'', ''name=a'', ''SIZE=2'', ''size=3''] = ''size=1/name=a/SIZE=2/size=3''" by code_simp
  moreover have "filter (has_option ''size='') [''size=1'', ''name=a'', ''SIZE=2'', ''size=3''] = [''size=1'', ''SIZE=2'', ''size=3'']"
    by code_simp
  ultimately show ?thesis
    using find_option_parity [of "''size=''" "[''size=1'', ''name=a'', ''SIZE=2'', ''size=3'']"] by simp
qed

section \<open>From the rules to the decision\<close>

lemma valid_option_tails [simp]: "valid_option (x @ tails (CHR ''/'') opts) = valid_option x"
  using has_option_tails [of "''name=''" x opts] has_option_tails [of "''size=''" x opts]
  by (simp add: valid_option_def criteria_option_def)

lemma invalid_loop_tails:
  "CHR ''/'' \<notin> set x \<Longrightarrow> \<forall>y \<in> set opts. CHR ''/'' \<notin> set y \<Longrightarrow>
    invalid_loop (x @ tails (CHR ''/'') opts) \<longleftrightarrow> (\<exists>y \<in> set opts. \<not> valid_option y)"
proof (induction opts arbitrary: x)
  case Nil
  then show ?case unfolding invalid_loop.simps [of "x @ _"] tails_cut(2) [OF Nil(1)] by simp
next
  case (Cons y opts)
  then show ?case unfolding invalid_loop.simps [of "x @ _"] tails_cut(2) [OF Cons.prems(1)] by simp
qed

lemma validate_rules_ok: "\<forall>r \<in> set rs. validate r = Inr () \<Longrightarrow> validate_rules validate rs = Inr ()"
  by (induction rs) simp_all

lemma split_rules_tails:
  "CHR '':'' \<notin> set x \<Longrightarrow> \<forall>y \<in> set xs. CHR '':'' \<notin> set y \<Longrightarrow>
    split_rules acc (x @ tails (CHR '':'') xs) = (rev acc @ x) # xs"
proof (induction xs arbitrary: acc x)
  case Nil
  then show ?case by (induction x arbitrary: acc) auto
next
  case (Cons y xs)
  show ?case using Cons.prems(1)
  proof (induction x arbitrary: acc)
    case Nil
    then show ?case using Cons.IH [of y "[]"] Cons.prems(2) by simp
  next
    case (Cons c x)
    then show ?case using Cons.IH [of "c # acc"] by auto
  qed
qed

lemma no_colon: "CHR '':'' \<notin> set x \<Longrightarrow> \<not> empty_rule b x"
  by (induction x arbitrary: b) auto

lemma no_empty_rule:
  "CHR '':'' \<notin> set x \<Longrightarrow> \<forall>y \<in> set xs. y \<noteq> [] \<and> CHR '':'' \<notin> set y \<Longrightarrow> b \<noteq> CHR '':'' \<Longrightarrow>
    \<not> empty_rule b (x @ tails (CHR '':'') xs)"
proof (induction xs arbitrary: b x)
  case Nil
  then show ?case by (simp add: no_colon)
next
  case (Cons y xs)
  show ?case using Cons.prems(1,3)
  proof (induction x arbitrary: b)
    case Nil
    obtain c y' where y: "y = c # y'" using Cons.prems(2) by (cases y) auto
    then have "c \<noteq> CHR '':''" "CHR '':'' \<notin> set y'" using Cons.prems(2) by auto
    then have "\<not> empty_rule c (y' @ tails (CHR '':'') xs)" using Cons.IH [of y' c] Cons.prems(2) by simp
    then show ?case using \<open>c \<noteq> _\<close> Nil(2) by (simp add: y)
  next
    case (Cons c x)
    have "c \<noteq> CHR '':''" "CHR '':'' \<notin> set x" using Cons.prems(1) by auto
    then show ?case using Cons.IH [of c] by simp
  qed
qed

lemma prepare_patterns_ok:
  "\<forall>p \<in> set ps. prepare p = Inr (u p) \<Longrightarrow> prepare_patterns prepare ps = (Inr (), map u ps)"
  by (induction ps) simp_all

lemma parse_name_ok:
  assumes "ps \<noteq> []" "\<forall>p \<in> set ps. p \<noteq> [] \<and> CHR '':'' \<notin> set p" "\<forall>p \<in> set ps. validate p = Inr ()"
  shows "index_criteria_parse_name validate (''name='' @ join (CHR '':'') ps) ic =
    (Inr (), ic\<lparr>glob_patterns := Some (map fs_set_nametype ps)\<rparr>)"
proof -
  obtain c p qs where ps: "ps = (c # p) # qs" using assms(1,2) by (cases ps) (auto simp: neq_Nil_conv)
  then have colon: "c \<noteq> CHR '':''" "CHR '':'' \<notin> set p" "\<forall>q \<in> set qs. q \<noteq> [] \<and> CHR '':'' \<notin> set q"
    using assms(2) by auto
  have "\<not> empty_rule c (p @ tails (CHR '':'') qs)" by (rule no_empty_rule [OF colon(2,3,1)])
  moreover have "split_rules [] (c # p @ tails (CHR '':'') qs) = ps"
    using split_rules_tails [of "c # p" qs "[]"] colon by (simp add: ps)
  moreover have "validate_rules validate ps = Inr ()" by (rule validate_rules_ok [OF assms(3)])
  ultimately show ?thesis using colon(1) unfolding index_criteria_parse_name_def Let_def by (simp add: ps)
qed

text \<open>A size is a number with a unit or without one.\<close>

fun size_unit :: "string \<Rightarrow> nat option" where
  "size_unit [] = Some 1"
| "size_unit [c] = size_multiplier c"
| "size_unit _ = None"

lemma digit_not_alpha: "c \<in> digit_char ` {..<10} \<Longrightarrow> \<not> isalpha c"
  by (auto simp: isalpha_def digit_char_def)

lemma two_letters_digits:
  "set ds \<subseteq> digit_char ` {..<10} \<Longrightarrow> length unit \<le> 1 \<Longrightarrow> \<not> two_letters (ds @ unit)"
proof (induction ds)
  case Nil
  then show ?case by (cases unit rule: two_letters.cases) auto
next
  case (Cons d ds)
  then show ?case using digit_not_alpha [of d] by (cases "ds @ unit") simp_all
qed

lemma parse_size_ok:
  assumes "n < two64" "size_unit unit = Some m"
  shows "index_criteria_parse_size (''size='' @ print_num 10 n @ unit) ic =
    (Inr (), ic\<lparr>max_filesize_criteria := u64 (n * m)\<rparr>)"
proof -
  let ?ds = "print_num 10 n"
  have ds: "set ?ds \<subseteq> digit_char ` {..<10}" using print_num_digits by blast
  have drop: "drop 5 (''size='' @ r) = r" for r by simp
  have hd: "is_digit 10 (hd ?ds)" using ds is_digit_chars hd_in_set [of ?ds] by (auto simp: subset_iff)
  have last: "\<not> isalpha (last ?ds)" using ds digit_not_alpha last_in_set [of ?ds] by (auto simp: subset_iff)
  have two: "length unit \<le> 1 \<Longrightarrow> \<not> two_letters (?ds @ unit)" by (rule two_letters_digits [OF ds])
  show ?thesis
  proof (cases unit rule: size_unit.cases)
    case 1
    then have "m = 1" using assms(2) by simp
    with 1 show ?thesis using two last hd assms(1) drop unfolding index_criteria_parse_size_def
      by (simp add: strtoull_print Let_def)
  next
    case (2 c)
    then have "isalpha c" using assms(2) by (auto simp: size_multiplier_def isalpha_def split: if_splits)
    moreover have "size_multiplier c = Some m" using assms(2) 2 by simp
    ultimately show ?thesis using 2 two hd assms(1) drop unfolding index_criteria_parse_size_def
      by (simp add: strtoull_print Let_def)
  next
    case 3
    then show ?thesis using assms(2) by simp
  qed
qed

lemma parse_ok:
  assumes "n < two64" "size_unit unit = Some m" "CHR ''/'' \<notin> set unit" "ps \<noteq> []"
    and "\<forall>p \<in> set ps. p \<noteq> [] \<and> CHR '':'' \<notin> set p \<and> CHR ''/'' \<notin> set p" "\<forall>p \<in> set ps. validate p = Inr ()"
  shows "index_criteria_parse validate
      (Some (join (CHR ''/'') [''size='' @ print_num 10 n @ unit, ''name='' @ join (CHR '':'') ps])) ic =
    (Inr (), (index_criteria_free ic)\<lparr>have_criteria := True, glob_patterns := Some (map fs_set_nametype ps),
      max_filesize_criteria := u64 (n * m)\<rparr>)"
proof -
  let ?s = "''size='' @ print_num 10 n @ unit" and ?n = "''name='' @ join (CHR '':'') ps"
  let ?str = "join (CHR ''/'') [?s, ?n]"
  have "CHR ''/'' \<notin> set (tails (CHR '':'') ps)" using assms(5) by (auto simp: tails_def)
  then have "CHR ''/'' \<notin> set (join (CHR '':'') ps)" by (metis join_def list.set_sel(2) list.sel(2))
  moreover have "CHR ''/'' \<notin> set (print_num 10 n)"
    using print_num_digits [of "CHR ''/''" n] is_digit_chars [of "CHR ''/''"] by (auto simp: is_digit_def digit_of_def)
  ultimately have slash: "CHR ''/'' \<notin> set ?s" "\<forall>y \<in> set [?n]. CHR ''/'' \<notin> set y" using assms(3) by simp_all
  have hs: "has_option ''size='' ?s" "\<not> has_option ''size='' ?n" "\<not> has_option ''name='' ?s" "has_option ''name='' ?n"
    by (simp_all add: has_option_def to_lower_def)
  have valid: "valid_option ?s" "valid_option ?n" using hs by (simp_all add: valid_option_def)
  have "invalid_loop (tl ?s @ tails (CHR ''/'') [?n]) \<longleftrightarrow> (\<exists>y \<in> set [?n]. \<not> valid_option y)"
    by (rule invalid_loop_tails) (use slash in simp_all)
  then have "\<not> index_criteria_contains_invalid_options (Some ?str)"
    using valid valid_option_tails [of ?s "[?n]"] by (simp add: index_criteria_contains_invalid_options_def)
  moreover have "index_criteria_find_option ?str ''name='' = Found ?n"
    using find_option_tails [OF _ slash, of "''name=''"] hs by (simp add: criteria_option_def)
  moreover have "index_criteria_find_option ?str ''size='' = Found ?s"
    using find_option_tails [OF _ slash, of "''size=''"] hs by (simp add: criteria_option_def)
  moreover note parse_name_ok [of ps validate] parse_size_ok [OF assms(1,2)]
  ultimately show ?thesis using assms(4-6)
    unfolding index_criteria_parse_def option.case Let_def by simp
qed

lemma match_ok:
  assumes "\<And>t. concat (clusters t) = t" "\<And>t. [] \<notin> set (clusters t)"
    and "glob_patterns ic = Some (map fs_set_nametype ps)" "glob_cache ic = None" "have_criteria ic"
    and "\<forall>p \<in> set ps. prepare p = Inr (u p)" "prepare d = Inr (u d)"
  shows "fst (index_criteria_match prepare clusters d ic) \<longleftrightarrow>
    max_filesize_criteria ic \<noteq> 0 \<and> (\<exists>p \<in> set ps. glob (clusters (u p)) (clusters (u d)))"
proof -
  have "map (\<lambda>n. the (name_text n)) (map fs_set_nametype ps) = ps" by (simp add: fs_set_nametype_def comp_def)
  then have "prepare_glob_cache prepare ic = (Inr (), ic\<lparr>glob_cache := Some (map u ps)\<rparr>)"
    using prepare_patterns_ok [OF assms(6)] assms(3) by (simp add: prepare_glob_cache_def del: map_map)
  then show ?thesis using assms(3-5,7)
    by (simp add: index_criteria_match_def matches_glob [OF assms(1,2)] list_ex_iff)
qed

text \<open>C16.  From the rules to the decision: rules with a size and file name patterns are accepted, the size times its
  unit (modulo the width of a size) becomes the limit, and a file then matches exactly when the limit is not zero
  and one of the patterns matches its name.\<close>

theorem criteria_decide:
  assumes "n < two64" "size_unit unit = Some m" "CHR ''/'' \<notin> set unit" "ps \<noteq> []"
    and "\<forall>p \<in> set ps. p \<noteq> [] \<and> CHR '':'' \<notin> set p \<and> CHR ''/'' \<notin> set p" "\<forall>p \<in> set ps. validate p = Inr ()"
    and "\<forall>p \<in> set ps. prepare p = Inr (u p)" "prepare d = Inr (u d)"
    and "\<And>t. concat (clusters t) = t" "\<And>t. [] \<notin> set (clusters t)"
    and "have_criteria ic \<or> glob_cache ic = None"
  shows "\<exists>ic'. index_criteria_parse validate
        (Some (join (CHR ''/'') [''size='' @ print_num 10 n @ unit, ''name='' @ join (CHR '':'') ps])) ic = (Inr (), ic') \<and>
      index_criteria_get_max_filesize ic' = u64 (n * m) \<and>
      (fst (index_criteria_match prepare clusters d ic') \<longleftrightarrow>
        u64 (n * m) \<noteq> 0 \<and> (\<exists>p \<in> set ps. glob (clusters (u p)) (clusters (u d))))"
proof -
  let ?ic = "(index_criteria_free ic)\<lparr>have_criteria := True, glob_patterns := Some (map fs_set_nametype ps),
      max_filesize_criteria := u64 (n * m)\<rparr>"
  have "glob_cache ?ic = None" using assms(11) by (auto simp: index_criteria_free_def)
  then have "fst (index_criteria_match prepare clusters d ?ic) \<longleftrightarrow>
      u64 (n * m) \<noteq> 0 \<and> (\<exists>p \<in> set ps. glob (clusters (u p)) (clusters (u d)))"
    using match_ok [OF assms(9,10), of ?ic ps prepare u d] assms(7,8) by simp
  then show ?thesis using parse_ok [OF assms(1-6)] by (auto simp: index_criteria_get_max_filesize_def)
qed

definition code_units :: "string \<Rightarrow> nat list" where
  "code_units s = map (\<lambda>c. of_char (to_lower c)) s"

theorem criteria_decide_witness:
  "\<exists>ic'. index_criteria_parse (\<lambda>_. Inr ()) (Some ''size=10K/name=*.txt:a?'')
        \<lparr>have_criteria = False, max_filesize_criteria = 0, glob_patterns = None, glob_cache = None\<rparr> = (Inr (), ic') \<and>
      index_criteria_get_max_filesize ic' = 10240 \<and>
      fst (index_criteria_match (Inr \<circ> code_units) (map (\<lambda>u. [u])) ''B.TXT'' ic')"
proof -
  have "print_num 10 10 = ''10''" by code_simp
  then have str: "join (CHR ''/'') [''size='' @ print_num 10 10 @ ''K'', ''name='' @ join (CHR '':'') [''*.txt'', ''a?'']] =
      ''size=10K/name=*.txt:a?''" by simp
  have glob: "glob (map (\<lambda>u. [u]) (code_units ''*.txt'')) (map (\<lambda>u. [u]) (code_units ''B.TXT''))"
    by (simp add: code_units_def to_lower_def glob.simps)
  have limit: "u64 (10 * 1024) = 10240" by (simp add: u64_def two64_def)
  have hyps: "(10 :: nat) < two64" "size_unit ''K'' = Some 1024" by (simp_all add: two64_def size_multiplier_def)
  show ?thesis
    using criteria_decide [OF hyps, of "[''*.txt'', ''a?'']" "\<lambda>_. Inr ()" "Inr \<circ> code_units" code_units
        "''B.TXT''" "map (\<lambda>u. [u])"
        "\<lparr>have_criteria = False, max_filesize_criteria = 0, glob_patterns = None, glob_cache = None\<rparr>"] glob
    unfolding str limit by (simp add: o_def image_iff)
qed

end
