(* ===== verification/CacheManager.thy ===== *)
theory CacheManager
  imports TapeOps
begin

text \<open>
  The cache manager of \<open>iosched/cache_manager.c\<close>: a pool of equally large objects that grows up to a high water
  mark and shrinks again to the capacity it began with.  Objects have addresses, and the store of the live objects
  is a map; the pool is the queue of the addresses that wait for use.  Whether the system has memory and a
  mutex for one more object is the parameter \<open>mem\<close>, asked in every state.  The use of an address that is no live
  object, or of bytes outside of its data, is \<open>C_UNDEFINED\<close>.
\<close>

section \<open>The operations\<close>

definition LTFS_CRC_SIZE :: nat where "LTFS_CRC_SIZE = 4"

record cache_object =
  refcount :: "32 word"
  obj_data :: "byte list"

record cache_pool =
  object_size :: nat
  initial_capacity :: nat
  max_capacity :: nat
  current_capacity :: nat
  pool :: "nat list"
  objects :: "nat \<rightharpoonup> cache_object"
  next_object :: nat

definition new_object :: "cache_pool \<Rightarrow> cache_object" where
  "new_object p = \<lparr>refcount = 1, obj_data = replicate (u64 (object_size p + LTFS_CRC_SIZE)) 0\<rparr>"

definition cache_manager_create_object :: "(cache_pool \<Rightarrow> bool) \<Rightarrow> cache_pool \<Rightarrow> nat option \<times> cache_pool" where
  "cache_manager_create_object mem p =
     (if \<not> mem p then (None, p)
      else
        let a = next_object p in
        (Some a, p\<lparr>objects := (objects p)(a \<mapsto> new_object p), pool := pool p @ [a], next_object := a + 1\<rparr>))"

fun init_loop :: "(cache_pool \<Rightarrow> bool) \<Rightarrow> nat \<Rightarrow> cache_pool \<Rightarrow> cache_pool option" where
  "init_loop mem 0 p = Some p"
| "init_loop mem (Suc n) p =
     (case cache_manager_create_object mem p of
        (None, _) \<Rightarrow> None
      | (Some _, p) \<Rightarrow> init_loop mem n p)"

definition cache_manager_init :: "(cache_pool \<Rightarrow> bool) \<Rightarrow> nat \<Rightarrow> nat \<Rightarrow> nat \<Rightarrow> cache_pool option" where
  "cache_manager_init mem obj_size init_cap max_cap =
     init_loop mem init_cap
       \<lparr>object_size = obj_size, initial_capacity = init_cap, max_capacity = max_cap, current_capacity = init_cap,
        pool = [], objects = Map.empty, next_object = 0\<rparr>"

text \<open>The pool gives up the objects in its queue; the result is the store of those that are still in use elsewhere.\<close>

definition cache_manager_destroy :: "cache_pool \<Rightarrow> nat \<rightharpoonup> cache_object" where
  "cache_manager_destroy p = objects p |` (- set (pool p))"

definition cache_manager_has_room :: "cache_pool \<Rightarrow> bool" where
  "cache_manager_has_room p \<longleftrightarrow> \<not> (pool p = [] \<and> current_capacity p = max_capacity p)"

fun grow_loop :: "(cache_pool \<Rightarrow> bool) \<Rightarrow> nat \<Rightarrow> nat option \<Rightarrow> cache_pool \<Rightarrow> nat option \<times> cache_pool" where
  "grow_loop mem 0 last_object p = (last_object, p)"
| "grow_loop mem (Suc n) last_object p =
     (case cache_manager_create_object mem p of
        (None, p) \<Rightarrow> (last_object, p)
      | (Some a, p) \<Rightarrow> grow_loop mem n (Some a) (p\<lparr>current_capacity := current_capacity p + 1\<rparr>))"

definition new_capacity :: "nat \<Rightarrow> nat \<Rightarrow> nat" where
  "new_capacity current max_cap =
     (if u64 (current * 2) < max_cap then if current \<noteq> 0 then u64 (current * 2) else max_cap div 2 else max_cap)"

definition cache_manager_allocate_object :: "(cache_pool \<Rightarrow> bool) \<Rightarrow> cache_pool \<Rightarrow> nat option \<times> cache_pool" where
  "cache_manager_allocate_object mem p =
     (case pool p of
        a # rest \<Rightarrow>
          (Some a, p\<lparr>pool := rest, objects := (objects p)(a := map_option (refcount_update (\<lambda>_. 1)) (objects p a))\<rparr>)
      | [] \<Rightarrow>
          if current_capacity p = max_capacity p then (None, p)
          else
            let new_size = new_capacity (current_capacity p) (max_capacity p) in
            case grow_loop mem (new_size - current_capacity p) None p of
              (None, p) \<Rightarrow> (None, p)
            | (Some a, p) \<Rightarrow> (Some a, p\<lparr>pool := remove1 a (pool p)\<rparr>))"

definition cache_manager_get_object :: "nat \<Rightarrow> cache_pool \<Rightarrow> error + cache_pool" where
  "cache_manager_get_object a p =
     (case objects p a of
        None \<Rightarrow> Inl C_UNDEFINED
      | Some object \<Rightarrow> Inr (p\<lparr>objects := (objects p)(a \<mapsto> object\<lparr>refcount := refcount object + 1\<rparr>)\<rparr>))"

definition zero_data :: "nat \<Rightarrow> byte list \<Rightarrow> byte list" where
  "zero_data n bs = replicate n 0 @ drop n bs"

definition cache_manager_free_object :: "nat \<Rightarrow> nat \<Rightarrow> cache_pool \<Rightarrow> error + cache_pool" where
  "cache_manager_free_object a count p =
     (case objects p a of
        None \<Rightarrow> Inl C_UNDEFINED
      | Some object \<Rightarrow>
          let object = object\<lparr>refcount := refcount object - 1\<rparr> in
          if 0 < refcount object then Inr (p\<lparr>objects := (objects p)(a \<mapsto> object)\<rparr>)
          else if initial_capacity p < current_capacity p
          then Inr (p\<lparr>objects := (objects p)(a := None), current_capacity := current_capacity p - 1\<rparr>)
          else
            let n = (if count \<noteq> 0 then count else object_size p) in
            if length (obj_data object) < n then Inl C_UNDEFINED
            else Inr (p\<lparr>objects := (objects p)(a \<mapsto> object\<lparr>obj_data := zero_data n (obj_data object)\<rparr>),
                        pool := pool p @ [a]\<rparr>))"

definition cache_manager_get_object_data :: "nat \<Rightarrow> cache_pool \<Rightarrow> byte list option" where
  "cache_manager_get_object_data a p = map_option obj_data (objects p a)"

definition cache_manager_get_object_size :: "nat \<Rightarrow> cache_pool \<Rightarrow> nat option" where
  "cache_manager_get_object_size a p = map_option (\<lambda>_. object_size p) (objects p a)"

section \<open>Clients\<close>

text \<open>
  A client holds an object from its allocation on; it writes to its data, takes further references (fewer than the
  counter can hold) and gives references back.
\<close>

definition held :: "cache_pool \<Rightarrow> nat set" where
  "held p = dom (objects p) - set (pool p)"

inductive cm_step :: "cache_pool \<Rightarrow> cache_pool \<Rightarrow> bool" where
  allocate: "cache_manager_allocate_object mem p = (r, p') \<Longrightarrow> cm_step p p'"
| get: "a \<in> held p \<Longrightarrow> refcount (the (objects p a)) \<noteq> - 1 \<Longrightarrow> cache_manager_get_object a p = Inr p' \<Longrightarrow> cm_step p p'"
| release: "a \<in> held p \<Longrightarrow> cache_manager_free_object a count p = Inr p' \<Longrightarrow> cm_step p p'"
| store: "a \<in> held p \<Longrightarrow> objects p a = Some object \<Longrightarrow> length bs = length (obj_data object) \<Longrightarrow>
    cm_step p (p\<lparr>objects := (objects p)(a \<mapsto> object\<lparr>obj_data := bs\<rparr>)\<rparr>)"

inductive cm_reach :: "nat \<Rightarrow> nat \<Rightarrow> nat \<Rightarrow> cache_pool \<Rightarrow> bool" for obj_size init_cap max_cap where
  init: "cache_manager_init mem obj_size init_cap max_cap = Some p \<Longrightarrow> cm_reach obj_size init_cap max_cap p"
| step: "cm_reach obj_size init_cap max_cap p \<Longrightarrow> cm_step p p' \<Longrightarrow> cm_reach obj_size init_cap max_cap p'"

section \<open>The invariant of the pool\<close>

definition object_ok :: "cache_pool \<Rightarrow> cache_object \<Rightarrow> bool" where
  "object_ok p object \<longleftrightarrow> length (obj_data object) = u64 (object_size p + LTFS_CRC_SIZE)"

definition store_ok :: "cache_pool \<Rightarrow> bool" where
  "store_ok p \<longleftrightarrow>
     finite (dom (objects p)) \<and> (\<forall>a \<in> dom (objects p). a < next_object p) \<and>
     distinct (pool p) \<and> set (pool p) \<subseteq> dom (objects p) \<and>
     (\<forall>a object. objects p a = Some object \<longrightarrow> object_ok p object \<and> (a \<notin> set (pool p) \<longrightarrow> refcount object \<noteq> 0))"

definition pool_ok :: "cache_pool \<Rightarrow> bool" where
  "pool_ok p \<longleftrightarrow> store_ok p \<and> card (dom (objects p)) = current_capacity p \<and>
     initial_capacity p \<le> current_capacity p \<and> current_capacity p \<le> max_capacity p"

lemma create_ok:
  assumes "cache_manager_create_object mem p = (r, p')" "store_ok p"
  shows "store_ok p'" "held p' = held p" "current_capacity p' = current_capacity p"
    and "initial_capacity p' = initial_capacity p" "max_capacity p' = max_capacity p" "object_size p' = object_size p"
    and "r = None \<and> p' = p \<and> \<not> mem p \<or>
      r = Some (next_object p) \<and> next_object p \<notin> dom (objects p) \<and>
        objects p' = (objects p)(next_object p \<mapsto> new_object p) \<and> pool p' = pool p @ [next_object p]"
proof -
  have new: "next_object p \<notin> dom (objects p)" using assms(2) by (auto simp: store_ok_def)
  then have fresh: "next_object p \<notin> set (pool p)" using assms(2) by (auto simp: store_ok_def)
  show held: "held p' = held p" using assms(1) new
    by (auto simp: cache_manager_create_object_def held_def Let_def split: if_splits)
  show "store_ok p'" using assms new fresh held
    by (auto simp: cache_manager_create_object_def store_ok_def object_ok_def new_object_def Let_def held_def less_Suc_eq split: if_splits)
  show "current_capacity p' = current_capacity p" "initial_capacity p' = initial_capacity p"
    "max_capacity p' = max_capacity p" "object_size p' = object_size p"
    using assms(1) by (auto simp: cache_manager_create_object_def Let_def split: if_splits)
  show "r = None \<and> p' = p \<and> \<not> mem p \<or>
      r = Some (next_object p) \<and> next_object p \<notin> dom (objects p) \<and>
        objects p' = (objects p)(next_object p \<mapsto> new_object p) \<and> pool p' = pool p @ [next_object p]"
    using assms(1) new by (auto simp: cache_manager_create_object_def Let_def split: if_splits)
qed

text \<open>What a loop that creates objects keeps.\<close>

definition same_shape :: "cache_pool \<Rightarrow> cache_pool \<Rightarrow> bool" where
  "same_shape p p' \<longleftrightarrow> held p' = held p \<and> initial_capacity p' = initial_capacity p \<and>
     max_capacity p' = max_capacity p \<and> object_size p' = object_size p"

lemma init_loop_ok:
  assumes "init_loop mem n p = Some p'" "store_ok p"
  shows "store_ok p' \<and> same_shape p p' \<and> current_capacity p' = current_capacity p \<and>
    card (dom (objects p')) = card (dom (objects p)) + n"
  using assms
proof (induction n arbitrary: p)
  case (Suc n)
  obtain r q where q: "cache_manager_create_object mem p = (r, q)" by (rule prod.exhaust)
  with Suc.prems(1) have r: "r \<noteq> None" "init_loop mem n q = Some p'" by (auto split: option.splits)
  note new = create_ok [OF q Suc.prems(2)]
  have "finite (dom (objects p))" using Suc.prems(2) by (simp add: store_ok_def)
  then have "card (dom (objects q)) = card (dom (objects p)) + 1" using new(7) r(1) by auto
  then show ?case using Suc.IH [OF r(2) new(1)] new(2-6) by (simp add: same_shape_def)
qed (simp add: same_shape_def)

lemma grow_loop_ok:
  assumes "grow_loop mem n r p = (r', p')" "store_ok p"
  shows "store_ok p' \<and> same_shape p p' \<and>
    card (dom (objects p')) + current_capacity p = card (dom (objects p)) + current_capacity p' \<and>
    current_capacity p \<le> current_capacity p' \<and> current_capacity p' \<le> current_capacity p + n \<and>
    dom (objects p) \<subseteq> dom (objects p') \<and>
    (r' = r \<and> p' = p \<and> (n = 0 \<or> \<not> mem p) \<or>
     (\<exists>a object. r' = Some a \<and> a \<in> set (pool p') \<and> a \<notin> dom (objects p) \<and> objects p' a = Some object \<and> refcount object = 1))"
  using assms
proof (induction n arbitrary: r p)
  case (Suc n)
  obtain x q where q: "cache_manager_create_object mem p = (x, q)" by (rule prod.exhaust)
  note new = create_ok [OF q Suc.prems(2)]
  show ?case
  proof (cases x)
    case None
    then show ?thesis using new q Suc.prems by (auto simp: same_shape_def)
  next
    case (Some a)
    let ?q = "q\<lparr>current_capacity := current_capacity q + 1\<rparr>"
    have ok: "store_ok ?q" using new(1) by (simp add: store_ok_def object_ok_def held_def)
    from Some Suc.prems(1) q have "grow_loop mem n (Some a) ?q = (r', p')" by simp
    note IH = Suc.IH [OF this ok]
    have obj: "a = next_object p" "a \<notin> dom (objects p)" "refcount (new_object p) = 1"
      "objects q = (objects p)(a \<mapsto> new_object p)" "pool q = pool p @ [a]"
      using new(7) Some by (auto simp: new_object_def)
    have dom: "dom (objects ?q) = insert a (dom (objects p))" "objects ?q a = Some (new_object p)" "a \<in> set (pool ?q)"
      using obj by auto
    have "finite (dom (objects p))" using Suc.prems(2) by (simp add: store_ok_def)
    then have card: "card (dom (objects ?q)) = card (dom (objects p)) + 1" unfolding dom(1) using obj(2) by simp
    have shape: "same_shape p ?q" using new(2-6) by (simp add: same_shape_def held_def)
    have "r' = Some a \<and> p' = ?q \<or> (\<exists>b object. r' = Some b \<and> b \<in> set (pool p') \<and> b \<notin> dom (objects ?q) \<and>
        objects p' b = Some object \<and> refcount object = 1)" using IH by blast
    then have found: "\<exists>b object. r' = Some b \<and> b \<in> set (pool p') \<and> b \<notin> dom (objects p) \<and>
        objects p' b = Some object \<and> refcount object = 1"
      using dom obj(2,3) by blast
    have "current_capacity ?q = current_capacity p + 1" using new(3) by simp
    then show ?thesis using IH card shape found unfolding dom(1) by (simp add: same_shape_def)
  qed
qed (simp add: same_shape_def)

lemma init_ok:
  assumes "cache_manager_init mem obj_size init_cap max_cap = Some p" "init_cap \<le> max_cap"
  shows "pool_ok p" "object_size p = obj_size" "initial_capacity p = init_cap" "max_capacity p = max_cap"
  using init_loop_ok [OF assms(1) [unfolded cache_manager_init_def]] assms(2)
  by (simp_all add: pool_ok_def same_shape_def store_ok_def held_def)

lemma new_capacity_le: "new_capacity current max_cap \<le> max_cap"
  by (simp add: new_capacity_def)

lemma take_pooled:
  assumes "store_ok p" "pool p = a # rest"
    and "p' = p\<lparr>pool := rest, objects := (objects p)(a := map_option (refcount_update (\<lambda>_. 1)) (objects p a))\<rparr>"
  shows "store_ok p'" "dom (objects p') = dom (objects p)" "held p' = insert a (held p)" "a \<notin> held p"
    and "\<exists>object. objects p' a = Some object \<and> refcount object = 1"
proof -
  obtain object where object: "objects p a = Some object" using assms(1,2) by (auto simp: store_ok_def)
  show dom: "dom (objects p') = dom (objects p)" using object assms(3) by auto
  show "held p' = insert a (held p)" "a \<notin> held p"
    using assms object unfolding held_def dom by (auto simp: store_ok_def)
  show "\<exists>object. objects p' a = Some object \<and> refcount object = 1" using object assms(3) by simp
  have "objects p' b = Some x \<Longrightarrow> object_ok p' x \<and> (b \<notin> set (pool p') \<longrightarrow> refcount x \<noteq> 0)" for b x
    using assms object by (cases "b = a") (auto simp: store_ok_def object_ok_def)
  then show "store_ok p'" using assms(1) unfolding store_ok_def dom using assms(2,3) by simp
qed

lemma take_new:
  assumes "store_ok p" "a \<in> set (pool p)" "objects p a = Some object" "refcount object = 1"
    and "p' = p\<lparr>pool := remove1 a (pool p)\<rparr>"
  shows "store_ok p'" "held p' = insert a (held p)"
  using assms by (auto simp: store_ok_def object_ok_def held_def)

lemma allocate_ok:
  assumes "cache_manager_allocate_object mem p = (r, p')" "pool_ok p"
  shows "pool_ok p'" "initial_capacity p' = initial_capacity p" "max_capacity p' = max_capacity p"
    and "object_size p' = object_size p"
    and "case r of
        None \<Rightarrow> p' = p \<and> pool p = []
      | Some a \<Rightarrow> a \<notin> held p \<and> held p' = insert a (held p) \<and> (\<exists>object. objects p' a = Some object \<and> refcount object = 1)"
proof -
  have "pool_ok p' \<and> initial_capacity p' = initial_capacity p \<and> max_capacity p' = max_capacity p \<and>
      object_size p' = object_size p \<and> (case r of
        None \<Rightarrow> p' = p \<and> pool p = []
      | Some a \<Rightarrow> a \<notin> held p \<and> held p' = insert a (held p) \<and> (\<exists>object. objects p' a = Some object \<and> refcount object = 1))"
    (is ?goal)
  proof (cases "pool p")
    case (Cons a rest)
    from take_pooled [OF _ Cons refl] assms show ?thesis
      by (auto simp: cache_manager_allocate_object_def Cons pool_ok_def)
  next
    case Nil
    let ?new = "new_capacity (current_capacity p) (max_capacity p)"
    obtain x q where q: "grow_loop mem (?new - current_capacity p) None p = (x, q)" by (rule prod.exhaust)
    have ok: "store_ok p" using assms(2) by (simp add: pool_ok_def)
    note grow = grow_loop_ok [OF q ok]
    show ?thesis
    proof (cases "current_capacity p = max_capacity p \<or> x = None")
      case True
      then have "r = None \<and> p' = p" using assms(1) grow q Nil
        by (auto simp: cache_manager_allocate_object_def Let_def split: if_splits)
      then show ?thesis using assms(2) Nil by simp
    next
      case False
      then obtain a object where a: "x = Some a" "a \<in> set (pool q)" "a \<notin> dom (objects p)" "objects q a = Some object"
        "refcount object = 1" using grow by auto
      have p': "r = Some a" "p' = q\<lparr>pool := remove1 a (pool q)\<rparr>"
        using assms(1) False q a(1) Nil unfolding cache_manager_allocate_object_def Let_def by simp_all
      have "current_capacity q \<le> current_capacity p + (?new - current_capacity p)" using grow by blast
      moreover have "?new \<le> max_capacity p" by (rule new_capacity_le)
      moreover have "current_capacity p \<le> max_capacity p" using assms(2) by (simp add: pool_ok_def)
      ultimately have "current_capacity q \<le> max_capacity p" by linarith
      then have "pool_ok p'" using take_new(1) [OF _ a(2,4,5) p'(2)] grow assms(2) p'(2)
        by (simp add: pool_ok_def same_shape_def)
      moreover have "held p' = insert a (held p)" using take_new(2) [OF _ a(2,4,5) p'(2)] grow by (simp add: same_shape_def)
      moreover have "a \<notin> held p" using a(3) by (simp add: held_def)
      ultimately show ?thesis using p' a(4,5) grow by (simp add: same_shape_def)
    qed
  qed
  then show "pool_ok p'" "initial_capacity p' = initial_capacity p" "max_capacity p' = max_capacity p"
    "object_size p' = object_size p" "case r of
        None \<Rightarrow> p' = p \<and> pool p = []
      | Some a \<Rightarrow> a \<notin> held p \<and> held p' = insert a (held p) \<and> (\<exists>object. objects p' a = Some object \<and> refcount object = 1)"
    by simp_all
qed

lemma update_object_ok:
  assumes "pool_ok p" "a \<in> held p" "object_ok p object" "refcount object \<noteq> 0"
    and "p' = p\<lparr>objects := (objects p)(a \<mapsto> object)\<rparr>"
  shows "pool_ok p'" "held p' = held p"
proof -
  have dom: "dom (objects p') = dom (objects p)" using assms(2,5) by (auto simp: held_def)
  have "objects p' b = Some x \<Longrightarrow> object_ok p' x \<and> (b \<notin> set (pool p') \<longrightarrow> refcount x \<noteq> 0)" for b x
    using assms by (cases "b = a") (auto simp: pool_ok_def store_ok_def object_ok_def)
  then show "pool_ok p'" using assms(1) unfolding pool_ok_def store_ok_def dom using assms(5) by simp
  show "held p' = held p" using assms(5) dom by (simp add: held_def)
qed

lemma remove_object_ok:
  assumes "pool_ok p" "a \<in> held p" "initial_capacity p < current_capacity p"
    and "p' = p\<lparr>objects := (objects p)(a := None), current_capacity := current_capacity p - 1\<rparr>"
  shows "pool_ok p'" "held p' = held p - {a}"
proof -
  have dom: "dom (objects p') = dom (objects p) - {a}" using assms(4) by auto
  have "objects p' b = Some x \<Longrightarrow> object_ok p' x \<and> (b \<notin> set (pool p') \<longrightarrow> refcount x \<noteq> 0)" for b x
    using assms(1,4) by (auto simp: pool_ok_def store_ok_def object_ok_def split: if_splits)
  then show "pool_ok p'" using assms(1-3) unfolding pool_ok_def store_ok_def dom using assms(4) by (auto simp: held_def)
  show "held p' = held p - {a}" using assms(4) dom by (auto simp: held_def)
qed

lemma return_object_ok:
  assumes "pool_ok p" "a \<in> held p" "object_ok p object"
    and "p' = p\<lparr>objects := (objects p)(a \<mapsto> object), pool := pool p @ [a]\<rparr>"
  shows "pool_ok p'" "held p' = held p - {a}"
proof -
  have dom: "dom (objects p') = dom (objects p)" using assms(2,4) by (auto simp: held_def)
  have "objects p' b = Some x \<Longrightarrow> object_ok p' x \<and> (b \<notin> set (pool p') \<longrightarrow> refcount x \<noteq> 0)" for b x
    using assms by (cases "b = a") (auto simp: pool_ok_def store_ok_def object_ok_def)
  then show "pool_ok p'" using assms(1,2) unfolding pool_ok_def store_ok_def dom using assms(4) by (auto simp: held_def)
  show "held p' = held p - {a}" using assms(4) dom by (auto simp: held_def)
qed

lemma free_ok:
  assumes "cache_manager_free_object a count p = Inr p'" "pool_ok p" "a \<in> held p" "objects p a = Some object"
  shows "pool_ok p'" "initial_capacity p' = initial_capacity p" "max_capacity p' = max_capacity p"
    and "object_size p' = object_size p"
    and "if refcount object = 1 then held p' = held p - {a} \<and> cache_manager_has_room p' else held p' = held p"
proof -
  let ?o = "object\<lparr>refcount := refcount object - 1\<rparr>"
  have ok: "object_ok p object" using assms(2,4) by (auto simp: pool_ok_def store_ok_def)
  have "pool_ok p' \<and> initial_capacity p' = initial_capacity p \<and> max_capacity p' = max_capacity p \<and>
      object_size p' = object_size p \<and>
      (if refcount object = 1 then held p' = held p - {a} \<and> cache_manager_has_room p' else held p' = held p)"
  proof (cases "refcount object = 1")
    case False
    then have r: "refcount ?o \<noteq> 0" by simp
    then have "p' = p\<lparr>objects := (objects p)(a \<mapsto> ?o)\<rparr>"
      using assms(1,4) by (simp add: cache_manager_free_object_def Let_def word_gt_0)
    then show ?thesis using update_object_ok [OF assms(2,3) _ r] ok False by (simp add: object_ok_def)
  next
    case True
    show ?thesis
    proof (cases "initial_capacity p < current_capacity p")
      case shrink: True
      then have p': "p' = p\<lparr>objects := (objects p)(a := None), current_capacity := current_capacity p - 1\<rparr>"
        using assms(1,4) True by (simp add: cache_manager_free_object_def Let_def)
      have "current_capacity p \<le> max_capacity p" using assms(2) by (simp add: pool_ok_def)
      with shrink have "current_capacity p' \<noteq> max_capacity p'" unfolding p' by simp
      then show ?thesis using remove_object_ok [OF assms(2,3) shrink p'] True p'
        by (simp add: cache_manager_has_room_def)
    next
      case False
      let ?n = "if count \<noteq> 0 then count else object_size p"
      have "length (obj_data object) < ?n \<Longrightarrow> cache_manager_free_object a count p = Inl C_UNDEFINED"
        using assms(4) True False unfolding cache_manager_free_object_def Let_def by simp
      then have n: "\<not> length (obj_data object) < ?n" using assms(1) by auto
      then have p': "p' = p\<lparr>objects := (objects p)(a \<mapsto> ?o\<lparr>obj_data := zero_data ?n (obj_data object)\<rparr>), pool := pool p @ [a]\<rparr>"
        using assms(1,4) True False unfolding cache_manager_free_object_def Let_def by simp
      have "object_ok p (?o\<lparr>obj_data := zero_data ?n (obj_data object)\<rparr>)"
        using ok n by (simp add: object_ok_def zero_data_def)
      from return_object_ok [OF assms(2,3) this p'] show ?thesis using True p'
        by (simp add: cache_manager_has_room_def)
    qed
  qed
  then show "pool_ok p'" "initial_capacity p' = initial_capacity p" "max_capacity p' = max_capacity p"
    "object_size p' = object_size p"
    "if refcount object = 1 then held p' = held p - {a} \<and> cache_manager_has_room p' else held p' = held p" by simp_all
qed

lemma get_ok:
  assumes "cache_manager_get_object a p = Inr p'" "pool_ok p" "a \<in> held p" "refcount (the (objects p a)) \<noteq> - 1"
  shows "pool_ok p' \<and> same_shape p p'"
proof -
  obtain object where object: "objects p a = Some object" using assms(3) by (auto simp: held_def)
  then have p': "p' = p\<lparr>objects := (objects p)(a \<mapsto> object\<lparr>refcount := refcount object + 1\<rparr>)\<rparr>"
    using assms(1) by (simp add: cache_manager_get_object_def)
  have "refcount object + 1 \<noteq> 0" using assms(4) object eq_neg_iff_add_eq_0 [of "refcount object" 1] by simp
  moreover have "object_ok p object" using assms(2) object by (auto simp: pool_ok_def store_ok_def)
  ultimately show ?thesis using update_object_ok [OF assms(2,3) _ _ p'] p' by (simp add: object_ok_def same_shape_def)
qed

lemma step_ok:
  assumes "cm_step p p'" "pool_ok p"
  shows "pool_ok p' \<and> initial_capacity p' = initial_capacity p \<and> max_capacity p' = max_capacity p \<and>
    object_size p' = object_size p"
  using assms
proof (induction rule: cm_step.induct)
  case (allocate mem p r p')
  then show ?case using allocate_ok by blast
next
  case (get a p p')
  then show ?case using get_ok by (simp add: same_shape_def)
next
  case (release a p count p')
  then obtain object where "objects p a = Some object" by (auto simp: held_def)
  then show ?case using free_ok release by blast
next
  case (store a p object bs)
  then have "object_ok p object" "refcount object \<noteq> 0" by (auto simp: pool_ok_def store_ok_def held_def)
  then show ?case using update_object_ok(1) [OF store(4,1) _ _ refl] store(3) by (simp add: object_ok_def)
qed

lemma reach_ok:
  assumes "cm_reach obj_size init_cap max_cap p" "init_cap \<le> max_cap"
  shows "pool_ok p \<and> object_size p = obj_size \<and> initial_capacity p = init_cap \<and> max_capacity p = max_cap"
  using assms
proof (induction rule: cm_reach.induct)
  case (init mem p)
  then show ?case using init_ok by blast
next
  case (step p p')
  then show ?case using step_ok by simp
qed

text \<open>A pool for objects of one byte that began with one object and may grow to two, and the states in which a client
  holds one object and in which clients hold both.\<close>

definition small_pool :: cache_pool where
  "small_pool = the (cache_manager_init (\<lambda>_. True) 1 1 2)"

definition used_pool :: "nat \<Rightarrow> cache_pool" where
  "used_pool n = ((\<lambda>p. snd (cache_manager_allocate_object (\<lambda>_. True) p)) ^^ n) small_pool"

lemma small_reach: "cm_reach 1 1 2 small_pool"
proof -
  have "cache_manager_init (\<lambda>_. True) 1 1 2 = Some small_pool"
    by (simp add: small_pool_def cache_manager_init_def cache_manager_create_object_def Let_def)
  then show ?thesis by (rule cm_reach.init)
qed

lemma used_reach: "cm_reach 1 1 2 (used_pool n)"
proof (induction n)
  case 0
  then show ?case using small_reach by (simp add: used_pool_def)
next
  case (Suc n)
  have "cm_step (used_pool n) (snd (cache_manager_allocate_object (\<lambda>_. True) (used_pool n)))"
    by (rule cm_step.allocate [OF prod.collapse [symmetric]])
  then show ?case using cm_reach.step [OF Suc] by (simp add: used_pool_def)
qed

lemmas small_pool_simps = small_pool_def cache_manager_init_def cache_manager_create_object_def new_object_def Let_def
  LTFS_CRC_SIZE_def u64_def two64_def

lemma used_pool_1: "used_pool 1 = small_pool\<lparr>pool := []\<rparr>"
  by (simp add: used_pool_def small_pool_simps cache_manager_allocate_object_def)

lemma used_pool_2:
  "used_pool 2 = small_pool\<lparr>pool := [], current_capacity := 2, next_object := 2,
    objects := (objects small_pool)(1 \<mapsto> new_object small_pool)\<rparr>"
proof -
  have "used_pool 2 = snd (cache_manager_allocate_object (\<lambda>_. True) (used_pool 1))"
    by (simp add: used_pool_def numeral_2_eq_2)
  then show ?thesis unfolding used_pool_1
    by (simp add: small_pool_simps cache_manager_allocate_object_def new_capacity_def)
qed

section \<open>Properties\<close>

text \<open>C17.  Whatever clients do with a pool, the number of live objects is its current capacity, which stays between the
  capacity it began with and the high water mark; the queue has no object twice, and all objects keep the size
  of the pool with the room for a checksum.\<close>

theorem pool_capacity:
  assumes "cm_reach obj_size init_cap max_cap p" "init_cap \<le> max_cap"
  shows "init_cap \<le> current_capacity p \<and> current_capacity p \<le> max_cap \<and>
    card (dom (objects p)) = current_capacity p \<and> distinct (pool p) \<and> set (pool p) \<subseteq> dom (objects p) \<and>
    (\<forall>object \<in> ran (objects p). length (obj_data object) = u64 (obj_size + LTFS_CRC_SIZE))"
  using reach_ok [OF assms] by (auto simp: pool_ok_def store_ok_def object_ok_def ran_def)

theorem pool_capacity_witness: "current_capacity (used_pool 2) = 2 \<and> card (dom (objects (used_pool 2))) = 2"
  using pool_capacity [OF used_reach, of 2] by (simp add: used_pool_2 small_pool_simps)

text \<open>C18.  An allocation that is asked for while the pool has room succeeds when the system has memory, and the object
  is one that no client holds, with one reference.  The only exception is a pool without objects and with room
  for a single one, for which the new capacity is rounded down to zero.\<close>

theorem allocate_succeeds:
  assumes "cm_reach obj_size init_cap max_cap p" "init_cap \<le> max_cap" "max_cap \<le> 2 ^ 63"
    and "cache_manager_has_room p" "\<And>q. mem q" "\<not> (max_cap = 1 \<and> current_capacity p = 0)"
  shows "\<exists>a p' object. cache_manager_allocate_object mem p = (Some a, p') \<and> a \<notin> held p \<and> held p' = insert a (held p) \<and>
    objects p' a = Some object \<and> refcount object = 1"
proof -
  have ok: "pool_ok p" and max: "max_capacity p = max_cap" using reach_ok [OF assms(1,2)] by auto
  obtain r p' where r: "cache_manager_allocate_object mem p = (r, p')" by (rule prod.exhaust)
  have "r \<noteq> None"
  proof
    assume none: "r = None"
    then have nil: "pool p = []" using allocate_ok(5) [OF r ok] by simp
    then have room: "current_capacity p \<noteq> max_cap" using assms(4) max by (simp add: cache_manager_has_room_def)
    let ?n = "new_capacity (current_capacity p) max_cap - current_capacity p"
    have "current_capacity p < max_cap" using room ok max by (simp add: pool_ok_def)
    then have "?n \<noteq> 0" using assms(3,6) by (auto simp: new_capacity_def u64_def two64_def)
    obtain x q where q: "grow_loop mem ?n None p = (x, q)" by (rule prod.exhaust)
    have "store_ok p" using ok by (simp add: pool_ok_def)
    from grow_loop_ok [OF q this] \<open>?n \<noteq> 0\<close> assms(5) have "x \<noteq> None" by auto
    then show False using r q none nil room max by (auto simp: cache_manager_allocate_object_def Let_def)
  qed
  then show ?thesis using allocate_ok(5) [OF r ok] r by auto
qed

theorem allocate_succeeds_witness:
  "\<exists>a p' object. cache_manager_allocate_object (\<lambda>_. True) (used_pool 1) = (Some a, p') \<and> a \<notin> held (used_pool 1) \<and>
    held p' = insert a (held (used_pool 1)) \<and> objects p' a = Some object \<and> refcount object = 1"
  by (rule allocate_succeeds [OF used_reach])
    (simp_all add: used_pool_1 [simplified] small_pool_simps cache_manager_has_room_def)

text \<open>C19.  When a client gives back the last reference to an object, no client holds the object any more and the pool
  has room again, also if it was at its high water mark with all objects in use.\<close>

theorem release_makes_room:
  assumes "cm_reach obj_size init_cap max_cap p" "init_cap \<le> max_cap"
    and "a \<in> held p" "objects p a = Some object" "refcount object = 1" "count \<le> obj_size" "obj_size + LTFS_CRC_SIZE < two64"
  shows "\<exists>p'. cache_manager_free_object a count p = Inr p' \<and> held p' = held p - {a} \<and> cache_manager_has_room p'"
proof -
  have ok: "pool_ok p" and size: "object_size p = obj_size" using reach_ok [OF assms(1,2)] by auto
  have "length (obj_data object) = obj_size + LTFS_CRC_SIZE"
    using ok assms(4,7) size by (auto simp: pool_ok_def store_ok_def object_ok_def u64_simps)
  then have "\<exists>p'. cache_manager_free_object a count p = Inr p'"
    using assms(4,6) size by (simp add: cache_manager_free_object_def Let_def)
  then obtain p' where p': "cache_manager_free_object a count p = Inr p'" ..
  show ?thesis using free_ok(5) [OF p' ok assms(3,4)] assms(5) p' by auto
qed

theorem release_makes_room_witness:
  "\<not> cache_manager_has_room (used_pool 2) \<and>
   (\<exists>p'. cache_manager_free_object 0 0 (used_pool 2) = Inr p' \<and> held p' = held (used_pool 2) - {0} \<and> cache_manager_has_room p')"
proof (rule conjI)
  show "\<not> cache_manager_has_room (used_pool 2)"
    by (simp add: used_pool_2 small_pool_simps cache_manager_has_room_def)
  show "\<exists>p'. cache_manager_free_object 0 0 (used_pool 2) = Inr p' \<and> held p' = held (used_pool 2) - {0} \<and>
      cache_manager_has_room p'"
    by (rule release_makes_room [OF used_reach, where object = "new_object small_pool"])
      (simp_all add: used_pool_2 small_pool_simps held_def)
qed

end
