(* ===== verification/Base64.thy ===== *)
theory Base64
  imports Prelude
begin

text \<open>
  The base64 decoder of \<open>src/src/libltfs/base64.c\<close>, which reads key lists and the binary
  extended attributes of an index.

  The output buffer is a list of \<open>byte option\<close>, \<open>None\<close> for a byte that has been allocated and
  not written, and a write outside of it makes the decoder fail with \<open>B64_OVERRUN\<close>; that this
  never happens is a theorem.  The C code reads \<open>enc[i-1]\<close> also for \<open>i = 0\<close>, which is the byte
  in memory before the string: it is the parameter \<open>prev_byte\<close>.  \<open>alloc_ok\<close> says whether malloc
  succeeds.

  \<open>b64_encode\<close> is the encoder of RFC 4648, the reference the decoder is compared with.
\<close>

section \<open>The decoder\<close>

definition base64_enc :: "byte list" where
  "base64_enc = map of_char ''ABCDEFGHIJKLMNOPQRSTUVWXYZabcdefghijklmnopqrstuvwxyz0123456789+/''"

definition base64_dec :: "byte \<Rightarrow> byte" where
  "base64_dec = fold (\<lambda>i t. t(base64_enc ! i := of_nat i)) [0..<64] (\<lambda>_. 255)"

definition b64_ws :: "byte \<Rightarrow> bool" where
  "b64_ws c \<longleftrightarrow> c = 13 \<or> c = 10 \<or> c = 32 \<or> c = 9"

datatype b64_error = B64_EMPTY | B64_BAD_CHAR | B64_BAD_LENGTH | B64_NO_MEMORY | B64_OVERRUN

text \<open>The check for out-of-place equals signs and invalid characters; 61 is the equals sign.\<close>

function b64_scan :: "byte \<Rightarrow> byte list \<Rightarrow> nat \<Rightarrow> nat \<Rightarrow> nat \<Rightarrow> (nat \<times> nat) option" where
  "b64_scan prev_byte enc i nequal nbytes_real =
     (if i < length enc then
        if i + 2 = length enc \<and> enc ! i = 61 \<and> enc ! (i + 1) = 61 then
          b64_scan prev_byte enc (Suc i) 2 nbytes_real
        else if i + 1 = length enc \<and> enc ! i = 61 then
          b64_scan prev_byte enc (Suc i)
            (if (if i = 0 then prev_byte else enc ! (i - 1)) \<noteq> 61 then 1 else nequal) nbytes_real
        else if b64_ws (enc ! i) then
          b64_scan prev_byte enc (Suc i) nequal (nbytes_real - 1)
        else if base64_dec (enc ! i) = 255 then None
        else b64_scan prev_byte enc (Suc i) nequal nbytes_real
      else Some (nequal, nbytes_real))"
  by pat_completeness auto
termination
  by (relation "measure (\<lambda>(_, enc, i, _, _). length enc - i)") auto

text \<open>The bytes a full quad of decoded characters writes at \<open>out_pos\<close>.\<close>

definition b64_octet0 :: "byte \<Rightarrow> byte \<Rightarrow> byte" where
  "b64_octet0 q0 q1 = push_bit 2 q0 OR drop_bit 4 (q1 AND 48)"

definition b64_octet1 :: "byte \<Rightarrow> byte \<Rightarrow> byte" where
  "b64_octet1 q1 q2 = push_bit 4 (q1 AND 15) OR drop_bit 2 (q2 AND 60)"

definition b64_octet2 :: "byte \<Rightarrow> byte \<Rightarrow> byte" where
  "b64_octet2 q2 q3 = push_bit 6 (q2 AND 3) OR q3"

definition b64_emit :: "byte \<Rightarrow> byte \<Rightarrow> byte \<Rightarrow> byte \<Rightarrow> nat \<Rightarrow> byte option list \<Rightarrow> byte option list option" where
  "b64_emit q0 q1 q2 q3 out_pos buf =
     Option.bind (poke buf out_pos (Some (b64_octet0 q0 q1))) (\<lambda>buf.
     if q2 \<noteq> 255 then
       Option.bind (poke buf (out_pos + 1) (Some (b64_octet1 q1 q2))) (\<lambda>buf.
       if q3 \<noteq> 255 then poke buf (out_pos + 2) (Some (b64_octet2 q2 q3))
       else Some buf)
     else Some buf)"

fun b64_gen :: "byte list \<Rightarrow> byte list \<Rightarrow> nat \<Rightarrow> byte option list \<Rightarrow> byte option list option" where
  "b64_gen [] cur_quad out_pos buf = Some buf"
| "b64_gen (c # cs) cur_quad out_pos buf =
     (if b64_ws c then b64_gen cs cur_quad out_pos buf
      else case cur_quad @ [base64_dec c] of
          [q0, q1, q2, q3] \<Rightarrow>
            Option.bind (b64_emit q0 q1 q2 q3 out_pos buf) (b64_gen cs [] (out_pos + 3))
        | q \<Rightarrow> b64_gen cs q out_pos buf)"

definition base64_decode :: "byte \<Rightarrow> bool \<Rightarrow> byte list \<Rightarrow> b64_error + byte option list" where
  "base64_decode prev_byte alloc_ok enc =
     (if enc = [] then Inl B64_EMPTY
      else case b64_scan prev_byte enc 0 0 (length enc) of
          None \<Rightarrow> Inl B64_BAD_CHAR
        | Some (nequal, nbytes_real) \<Rightarrow>
            if nbytes_real mod 4 \<noteq> 0 then Inl B64_BAD_LENGTH
            else if \<not> alloc_ok then Inl B64_NO_MEMORY
            else case b64_gen enc [] 0 (replicate (3 * (nbytes_real div 4) - nequal) None) of
                None \<Rightarrow> Inl B64_OVERRUN
              | Some buf \<Rightarrow> Inr buf)"

section \<open>The reference encoder\<close>

abbreviation b64_char :: "byte \<Rightarrow> byte" where
  "b64_char v \<equiv> base64_enc ! unat v"

definition b64_sextet1 :: "byte \<Rightarrow> byte \<Rightarrow> byte" where
  "b64_sextet1 a b = push_bit 4 (a AND 3) OR drop_bit 4 b"

definition b64_sextet2 :: "byte \<Rightarrow> byte \<Rightarrow> byte" where
  "b64_sextet2 b c = push_bit 2 (b AND 15) OR drop_bit 6 c"

fun b64_encode :: "byte list \<Rightarrow> byte list" where
  "b64_encode [] = []"
| "b64_encode [a] = [b64_char (drop_bit 2 a), b64_char (b64_sextet1 a 0), 61, 61]"
| "b64_encode [a, b] =
     [b64_char (drop_bit 2 a), b64_char (b64_sextet1 a b), b64_char (b64_sextet2 b 0), 61]"
| "b64_encode (a # b # c # rest) =
     [b64_char (drop_bit 2 a), b64_char (b64_sextet1 a b), b64_char (b64_sextet2 b c),
      b64_char (c AND 63)] @ b64_encode rest"


section \<open>Facts about the tables\<close>

lemma length_base64_enc [simp]: "length base64_enc = 64"
  by (simp add: base64_enc_def)

lemma distinct_base64_enc: "distinct base64_enc"
  by (simp add: base64_enc_def)

lemma base64_enc_plain: "c \<in> set base64_enc \<Longrightarrow> \<not> b64_ws c \<and> c \<noteq> 61"
proof -
  have "list_all (\<lambda>c. \<not> b64_ws c \<and> c \<noteq> 61) base64_enc"
    by (simp add: base64_enc_def b64_ws_def)
  then show "c \<in> set base64_enc \<Longrightarrow> \<not> b64_ws c \<and> c \<noteq> 61"
    by (simp add: list_all_iff)
qed

lemma fold_upd_other: "(\<forall>i \<in> set is. f i \<noteq> x) \<Longrightarrow> fold (\<lambda>i t. t(f i := g i)) is t x = t x"
  by (induction "is" arbitrary: t) auto

lemma fold_upd_hit:
  "i \<in> set is \<Longrightarrow> inj_on f (set is) \<Longrightarrow> distinct is \<Longrightarrow> fold (\<lambda>i t. t(f i := g i)) is t (f i) = g i"
proof (induction "is" arbitrary: t)
  case Nil
  then show ?case by simp
next
  case (Cons j js)
  show ?case
  proof (cases "i = j")
    case True
    with Cons.prems have "\<forall>k \<in> set js. f k \<noteq> f i" by (auto simp: inj_on_def)
    then show ?thesis
      using True fold_upd_other [of js f "f i" g "t(f j := g j)"]
      by (simp del: fun_upd_apply add: fun_upd_same)
  next
    case False
    with Cons show ?thesis by (simp add: inj_on_def)
  qed
qed

lemma base64_dec_enc [simp]: "i < 64 \<Longrightarrow> base64_dec (base64_enc ! i) = of_nat i"
  unfolding base64_dec_def
  by (rule fold_upd_hit) (auto simp: inj_on_def nth_eq_iff_index_eq distinct_base64_enc)

lemma base64_dec_other: "c \<notin> set base64_enc \<Longrightarrow> base64_dec c = 255"
  unfolding base64_dec_def by (subst fold_upd_other) (auto simp: in_set_conv_nth)

lemma base64_dec_eq_255: "base64_dec c = 255 \<longleftrightarrow> c \<notin> set base64_enc"
proof -
  have "base64_dec c \<noteq> 255" if "c \<in> set base64_enc"
  proof -
    from that obtain i where i: "i < 64" "c = base64_enc ! i"
      by (auto simp: in_set_conv_nth)
    then have "base64_dec c = word_of_nat i" by simp
    moreover have "unat (word_of_nat i :: byte) = i"
      using i(1) by (simp add: unat_of_nat)
    moreover have "unat (255 :: byte) = 255" by simp
    ultimately show ?thesis using i(1) by auto
  qed
  then show ?thesis using base64_dec_other by blast
qed

lemma base64_dec_eqsign [simp]: "base64_dec 61 = 255"
  using base64_enc_plain base64_dec_eq_255 by blast

lemma b64_ws_eqsign [simp]: "\<not> b64_ws 61"
  by (simp add: b64_ws_def)

lemma base64_dec_char [simp]: "unat v < 64 \<Longrightarrow> base64_dec (b64_char v) = v"
  by simp

lemma b64_char_in: "unat v < 64 \<Longrightarrow> b64_char v \<in> set base64_enc"
  by simp

section \<open>The scan\<close>

definition b64_pad_at :: "byte list \<Rightarrow> nat \<Rightarrow> bool" where
  "b64_pad_at enc j \<longleftrightarrow> enc ! j = 61 \<and> (j + 1 = length enc \<or> j + 2 = length enc \<and> enc ! (j + 1) = 61)"

definition b64_ok_at :: "byte list \<Rightarrow> nat \<Rightarrow> bool" where
  "b64_ok_at enc j \<longleftrightarrow> b64_pad_at enc j \<or> b64_ws (enc ! j) \<or> enc ! j \<in> set base64_enc"

declare b64_scan.simps [simp del]

lemma b64_scan_end [simp]: "length enc \<le> i \<Longrightarrow> b64_scan p enc i ne r = Some (ne, r)"
  by (simp add: b64_scan.simps)

text \<open>What an accepting scan says of the characters, and the count of characters it returns.\<close>

lemma b64_scan_Some:
  "b64_scan p enc i ne r = Some (ne', r') \<Longrightarrow>
   (\<forall>j. i \<le> j \<and> j < length enc \<longrightarrow> b64_ok_at enc j) \<and>
   r' = r - length (filter b64_ws (drop i enc))"
proof (induction p enc i ne r rule: b64_scan.induct)
  case (1 p enc i ne r)
  show ?case
  proof (cases "i < length enc")
    case False
    with "1.prems" show ?thesis by auto
  next
    case True
    have dr: "drop i enc = enc ! i # drop (Suc i) enc"
      using True by (simp add: Cons_nth_drop_Suc)
    have "b64_ok_at enc i \<and> (\<forall>j. Suc i \<le> j \<and> j < length enc \<longrightarrow> b64_ok_at enc j) \<and>
       r' = r - length (filter b64_ws (drop i enc))"
      using "1.prems" "1.IH" True
      by (simp add: b64_scan.simps [of p enc i ne r] dr b64_ok_at_def b64_pad_at_def
           base64_dec_eq_255 split: if_split_asm)
    then show ?thesis
      by (metis Suc_leI le_neq_implies_less)
  qed
qed

lemma b64_scan_total:
  "(\<forall>j. i \<le> j \<and> j < length enc \<longrightarrow> b64_ok_at enc j) \<Longrightarrow> \<exists>ne' r'. b64_scan p enc i ne r = Some (ne', r')"
proof (induction "length enc - i" arbitrary: i ne r)
  case 0
  then show ?case by simp
next
  case (Suc m)
  then have "i < length enc" "b64_ok_at enc i" by simp_all
  moreover have "\<exists>ne' r'. b64_scan p enc (Suc i) ne r = Some (ne', r')" for ne r
    using Suc by simp
  ultimately show ?case
    by (auto simp: b64_scan.simps [of p enc i ne r] b64_ok_at_def b64_pad_at_def base64_dec_eq_255)
qed

lemma b64_scan_nequal:
  "b64_scan p enc i ne r = Some (ne', r') \<Longrightarrow> i + 2 \<le> length enc \<Longrightarrow>
   ne' = (if enc ! (length enc - 1) \<noteq> 61 then ne
          else if enc ! (length enc - 2) = 61 then 2 else 1)"
proof (induction "length enc - i" arbitrary: i r)
  case 0
  then show ?case by simp
next
  case (Suc m)
  show ?case
  proof (cases "i + 2 = length enc")
    case True
    then have len: "length enc = Suc (Suc i)" by simp
    show ?thesis
      using Suc.prems(1)
      by (auto simp: b64_scan.simps [of p enc i] b64_scan.simps [of p enc "Suc i"] len split: if_split_asm)
  next
    case False
    then have lt: "Suc i + 2 \<le> length enc" "m = length enc - Suc i"
      using Suc by auto
    then have "\<exists>r. b64_scan p enc (Suc i) ne r = Some (ne', r')"
      using Suc.prems(1) by (auto simp: b64_scan.simps [of p enc i] split: if_split_asm)
    then show ?thesis using Suc.hyps(1) lt by blast
  qed
qed

lemma b64_scan_decomp:
  assumes "b64_scan p enc 0 0 (length enc) = Some (ne, r)" "2 \<le> length enc"
  obtains body where "enc = body @ replicate ne 61" "ne \<le> 2"
    "set body \<subseteq> {c. b64_ws c} \<union> set base64_enc"
    "r = length (filter (\<lambda>c. \<not> b64_ws c) enc)"
proof -
  let ?n = "length enc"
  have ok: "\<forall>j < ?n. b64_ok_at enc j" and r: "r = ?n - length (filter b64_ws enc)"
    using b64_scan_Some [OF assms(1)] by auto
  have ne: "ne = (if enc ! (?n - 1) \<noteq> 61 then 0 else if enc ! (?n - 2) = 61 then 2 else 1)"
    using b64_scan_nequal [OF assms(1)] assms(2) by simp
  then have ne2: "ne \<le> 2" by simp
  have pad: "enc ! j = 61" if "?n - ne \<le> j" "j < ?n" for j
  proof -
    from that ne2 assms(2) consider "j = ?n - 1" "1 \<le> ne" | "j = ?n - 2" "ne = 2" by linarith
    then show ?thesis using ne by cases (auto split: if_split_asm)
  qed
  have "length (drop (?n - ne) enc) = ne" using ne2 assms(2) by simp
  moreover have "c = 61" if "c \<in> set (drop (?n - ne) enc)" for c
    using that pad [of "?n - ne + k" for k] by (auto simp: in_set_conv_nth)
  ultimately have pads: "drop (?n - ne) enc = replicate ne 61"
    by (metis replicate_eqI)
  have "enc ! j \<in> {c. b64_ws c} \<union> set base64_enc" if "j < ?n - ne" for j
  proof -
    from that ok have "b64_ok_at enc j" by simp
    moreover have "\<not> b64_pad_at enc j"
    proof
      assume "b64_pad_at enc j"
      then consider "?n = Suc j" "enc ! j = 61" | "?n = Suc (Suc j)" "enc ! j = 61" "enc ! Suc j = 61"
        by (auto simp: b64_pad_at_def)
      then show False
        using that by cases (auto simp: ne split: if_split_asm)
    qed
    ultimately show ?thesis by (auto simp: b64_ok_at_def)
  qed
  then have "set (take (?n - ne) enc) \<subseteq> {c. b64_ws c} \<union> set base64_enc"
    unfolding nth_image [OF diff_le_self, symmetric] by (simp add: image_subset_iff)
  moreover have "r = length (filter (\<lambda>c. \<not> b64_ws c) enc)"
    using r length_filter_split [of enc b64_ws] by simp
  ultimately show thesis
    using that [of "take (?n - ne) enc"] append_take_drop_id [of "?n - ne" enc] ne2 by (simp only: pads)
qed

text \<open>A string of alphabet and white space characters with up to two equals signs is accepted.\<close>

lemma b64_scan_accepts:
  assumes "set body \<subseteq> {c. b64_ws c} \<union> set base64_enc" "k \<le> 2" "2 \<le> length (body @ replicate k 61)"
  shows "b64_scan p (body @ replicate k 61) 0 0 (length (body @ replicate k 61)) =
    Some (k, length (filter (\<lambda>c. \<not> b64_ws c) body) + k)"
proof -
  let ?enc = "body @ replicate k (61 :: byte)"
  have "\<forall>j < length ?enc. b64_ok_at ?enc j"
  proof (intro allI impI)
    fix j assume "j < length ?enc"
    show "b64_ok_at ?enc j"
    proof (cases "j < length body")
      case True
      then have "?enc ! j \<in> set body" by (simp add: nth_append)
      with assms(1) show ?thesis by (auto simp: b64_ok_at_def)
    next
      case False
      with \<open>j < length ?enc\<close> have "j + 1 = length ?enc \<or> j + 2 = length ?enc \<and> j + 1 < length ?enc"
        using assms(2) by auto
      with False \<open>j < length ?enc\<close> show ?thesis
        by (auto simp: b64_ok_at_def b64_pad_at_def nth_append)
    qed
  qed
  then obtain ne r where sc: "b64_scan p ?enc 0 0 (length ?enc) = Some (ne, r)"
    using b64_scan_total [of 0 ?enc] by blast
  then obtain body' where b: "?enc = body' @ replicate ne 61" "ne \<le> 2"
      "set body' \<subseteq> {c. b64_ws c} \<union> set base64_enc"
      "r = length (filter (\<lambda>c. \<not> b64_ws c) ?enc)"
    using b64_scan_decomp assms(3) by blast
  have no61: "takeWhile (\<lambda>c. c \<noteq> 61) (bs @ replicate m 61) = bs"
    if "set bs \<subseteq> {c. b64_ws c} \<union> set base64_enc" for bs m
  proof -
    have "c \<noteq> 61" if "c \<in> set bs" for c
      using that \<open>set bs \<subseteq> _\<close> base64_enc_plain b64_ws_eqsign by blast
    then show ?thesis by (simp add: takeWhile_append2)
  qed
  have "body = body'" using no61 [OF assms(1), of k] no61 [OF b(3), of ne] b(1) by simp
  with b(1) have "ne = k" by (metis append_eq_append_conv length_replicate)
  with sc b(4) show ?thesis by simp
qed

section \<open>The generation of the output\<close>

lemma b64_gen_filter: "b64_gen s q pos buf = b64_gen (filter (\<lambda>c. \<not> b64_ws c) s) q pos buf"
proof (induction s arbitrary: q pos buf)
  case (Cons c s)
  have eq: "b64_gen s = b64_gen (filter (\<lambda>c. \<not> b64_ws c) s)" by (intro ext Cons.IH)
  show ?case
  proof (cases "b64_ws c")
    case True
    then show ?thesis by (simp flip: eq)
  next
    case False
    then have "filter (\<lambda>c. \<not> b64_ws c) (c # s) = c # filter (\<lambda>c. \<not> b64_ws c) s" by simp
    then show ?thesis by (simp only: b64_gen.simps flip: eq)
  qed
qed simp

lemma b64_gen_quad:
  assumes "\<not> b64_ws a" "\<not> b64_ws b" "\<not> b64_ws c" "\<not> b64_ws d"
  shows "b64_gen (a # b # c # d # rest) [] pos buf =
    Option.bind (b64_emit (base64_dec a) (base64_dec b) (base64_dec c) (base64_dec d) pos buf)
      (b64_gen rest [] (pos + 3))"
  using assms by simp

lemma b64_emit_full:
  assumes "c \<noteq> 255" "d \<noteq> 255"
  shows "b64_emit a b c d (length pre) (pre @ x # y # z # post) =
    Some (pre @ Some (b64_octet0 a b) #
      Some (b64_octet1 b c) #
      Some (b64_octet2 c d) # post)"
  using assms
  by (simp add: b64_emit_def poke_def nth_append list_update_append)

lemma b64_emit_pad1:
  assumes "c \<noteq> 255"
  shows "b64_emit a b c 255 (length pre) (pre @ x # y # post) =
    Some (pre @ Some (b64_octet0 a b) #
      Some (b64_octet1 b c) # post)"
  using assms
  by (simp add: b64_emit_def poke_def nth_append list_update_append)

lemma b64_emit_pad2:
  "b64_emit a b 255 d (length pre) (pre @ x # post) =
    Some (pre @ Some (b64_octet0 a b) # post)"
  by (simp add: b64_emit_def poke_def nth_append list_update_append)

lemma length4_cases:
  assumes "4 \<le> length xs"
  obtains a b c d ys where "xs = a # b # c # d # ys"
  using assms by (auto simp: numeral_eq_Suc Suc_le_length_iff)

text \<open>Every byte of the buffer is written, once, in order.\<close>

lemma b64_gen_fills:
  assumes "length tb + k = 4 * m" "k \<le> 2" "set tb \<subseteq> set base64_enc" "0 < k \<longrightarrow> 0 < m"
  shows "\<exists>out. length out = 3 * m - k \<and>
    b64_gen (tb @ replicate k 61) [] (length pre) (pre @ replicate (3 * m - k) None) = Some (pre @ map Some out)"
  using assms
proof (induction m arbitrary: tb pre)
  case 0
  then show ?case by simp
next
  case (Suc m)
  note plain = base64_enc_plain base64_dec_eq_255
  show ?case
  proof (cases "m = 0 \<and> 0 < k")
    case True
    then consider "k = 1" "length tb = 3" | "k = 2" "length tb = 2" using Suc.prems(1,2) by force
    then show ?thesis
    proof cases
      case 1
      then obtain a b c where "tb = [a, b, c]" by (auto simp: numeral_eq_Suc length_Suc_conv)
      with 1 True Suc.prems(3) show ?thesis
        by (intro exI [of _ "[b64_octet0 (base64_dec a) (base64_dec b), b64_octet1 (base64_dec b) (base64_dec c)]"])
          (simp add: plain b64_gen_quad b64_emit_pad1 numeral_2_eq_2)
    next
      case 2
      then obtain a b where "tb = [a, b]" by (auto simp: numeral_eq_Suc length_Suc_conv)
      with 2 True Suc.prems(3) show ?thesis
        by (intro exI [of _ "[b64_octet0 (base64_dec a) (base64_dec b)]"])
          (simp add: plain b64_gen_quad b64_emit_pad2 numeral_2_eq_2)
    qed
  next
    case False
    then have "4 \<le> length tb" "0 < k \<longrightarrow> 0 < m" using Suc.prems(1,2) by auto
    then obtain a b c d tb' where tb: "tb = a # b # c # d # tb'" by (meson length4_cases)
    have size: "3 * Suc m - k = Suc (Suc (Suc (3 * m - k)))" using False Suc.prems(2) by auto
    let ?w = "[b64_octet0 (base64_dec a) (base64_dec b), b64_octet1 (base64_dec b) (base64_dec c),
      b64_octet2 (base64_dec c) (base64_dec d)]"
    have "length tb' + k = 4 * m" using Suc.prems(1) tb by simp
    then obtain out where out: "length out = 3 * m - k"
       "b64_gen (tb' @ replicate k 61) [] (length (pre @ map Some ?w))
         ((pre @ map Some ?w) @ replicate (3 * m - k) None) = Some ((pre @ map Some ?w) @ map Some out)"
      using Suc.IH [of tb' "pre @ map Some ?w"] Suc.prems(2,3) tb \<open>0 < k \<longrightarrow> 0 < m\<close>
      by (meson set_subset_Cons subset_trans)
    have "b64_gen (tb @ replicate k 61) [] (length pre) (pre @ replicate (3 * Suc m - k) None) =
        Some (pre @ map Some (?w @ out))"
      using Suc.prems(3) out(2) tb size
      by (simp add: plain b64_gen_quad b64_emit_full numeral_3_eq_3)
    then show ?thesis using out(1) size by (intro exI [of _ "?w @ out"]) simp
  qed
qed

section \<open>The decoder\<close>

lemma b64_decode_scan:
  assumes "enc \<noteq> []" "b64_scan p enc 0 0 (length enc) = Some (ne, r)" "r mod 4 = 0"
  obtains tb m where "filter (\<lambda>c. \<not> b64_ws c) enc = tb @ replicate ne 61" "ne \<le> 2"
    "set tb \<subseteq> set base64_enc" "r = 4 * m" "length tb + ne = 4 * m" "0 < ne \<longrightarrow> 0 < m"
proof (cases "length enc = 1")
  case True
  then obtain c where enc: "enc = [c]" by (auto simp: length_Suc_conv)
  with assms have "b64_ws c" "ne = 0" "r = 0" by (auto simp: b64_scan.simps split: if_split_asm)
  then show thesis using that [of "[]" 0] by (simp add: enc)
next
  case False
  with assms(1) have "2 \<le> length enc" by (cases enc) (auto simp: Suc_le_eq)
  with assms(2) obtain body where b: "enc = body @ replicate ne 61" "ne \<le> 2"
    "set body \<subseteq> {c. b64_ws c} \<union> set base64_enc"
    "r = length (filter (\<lambda>c. \<not> b64_ws c) enc)"
    using b64_scan_decomp by blast
  from assms(3) obtain m where m: "r = 4 * m" by auto
  let ?tb = "filter (\<lambda>c. \<not> b64_ws c) body"
  have f: "filter (\<lambda>c. \<not> b64_ws c) enc = ?tb @ replicate ne 61" by (simp add: b(1))
  moreover have "length ?tb + ne = 4 * m" using b(4) m by (simp add: f)
  ultimately show thesis using that [of ?tb m] b(2,3) m by auto
qed

lemma b64_decode_good:
  assumes "enc \<noteq> []" "b64_scan p enc 0 0 (length enc) = Some (ne, r)" "r mod 4 = 0"
  shows "\<exists>out. length out = 3 * (r div 4) - ne \<and> base64_decode p True enc = Inr (map Some out)"
proof -
  obtain tb m where t: "filter (\<lambda>c. \<not> b64_ws c) enc = tb @ replicate ne 61" "ne \<le> 2"
    "set tb \<subseteq> set base64_enc" "r = 4 * m" "length tb + ne = 4 * m" "0 < ne \<longrightarrow> 0 < m"
    using b64_decode_scan [OF assms] .
  obtain out where "length out = 3 * m - ne"
      "b64_gen enc [] 0 (replicate (3 * m - ne) None) = Some (map Some out)"
    using b64_gen_fills [OF t(5,2,3,6), of "[]"] b64_gen_filter [of enc] t(1) by auto
  then show ?thesis
    using assms t(4) by (simp add: base64_decode_def)
qed

lemma byte_bit_high: "8 \<le> n \<Longrightarrow> \<not> bit (v :: byte) n"
  using bit_imp_le_length [of v n] by auto

lemma byte_eq_bits:
  "(v :: byte) = w \<longleftrightarrow> (bit v 0 = bit w 0 \<and> bit v 1 = bit w 1 \<and> bit v 2 = bit w 2 \<and> bit v 3 = bit w 3 \<and>
    bit v 4 = bit w 4 \<and> bit v 5 = bit w 5 \<and> bit v 6 = bit w 6 \<and> bit v 7 = bit w 7)"
proof -
  have "v = w \<longleftrightarrow> (\<forall>n<8. bit v n = bit w n)"
    by (auto intro!: bit_eqI dest: bit_imp_le_length)
  also have "\<dots> \<longleftrightarrow> (\<forall>n \<in> set [0..<8]. bit v n = bit w n)" by auto
  finally show ?thesis by (simp add: upt_rec numeral_eq_Suc)
qed

lemma sextet_less:
  assumes "\<not> bit v 6" "\<not> bit v 7"
  shows "unat (v :: byte) < 64"
proof -
  have "take_bit 6 v = v" using assms by (simp add: byte_eq_bits bit_take_bit_iff)
  then have "unat v = take_bit 6 (unat v)" by (metis unsigned_take_bit_eq)
  then show ?thesis using take_bit_nat_less_exp [of 6 "unat v"] by simp
qed

lemma sextets [simp]:
  "unat (drop_bit 2 a :: byte) < 64" "unat (b64_sextet1 a b) < 64"
  "unat (b64_sextet2 b c) < 64" "unat (c AND 63 :: byte) < 64"
  by (rule sextet_less; simp add: bit_simps b64_sextet1_def b64_sextet2_def byte_bit_high)+

lemma octets:
  "b64_octet0 (drop_bit 2 a) (b64_sextet1 a b) = a"
  "b64_octet1 (b64_sextet1 a b) (b64_sextet2 b c) = b"
  "b64_octet2 (b64_sextet2 b c) (c AND 63) = c"
  by (simp_all add: byte_eq_bits bit_simps b64_octet0_def b64_octet1_def b64_octet2_def
      b64_sextet1_def b64_sextet2_def byte_bit_high)

lemma sextet_not_255: "unat (v :: byte) < 64 \<Longrightarrow> v \<noteq> 255"
  by (cases "v = 255") simp_all

lemma b64_char_plain: "unat v < 64 \<Longrightarrow> \<not> b64_ws (b64_char v) \<and> b64_char v \<noteq> 61"
  using base64_enc_plain b64_char_in by blast

lemma b64_gen_encode:
  "b64_gen (b64_encode bs) [] (length pre) (pre @ replicate (length bs) None) = Some (pre @ map Some bs)"
proof (induction bs arbitrary: pre rule: b64_encode.induct)
  case (4 a b c rest)
  have "b64_gen (b64_encode rest) [] (length (pre @ [Some a, Some b, Some c]))
     ((pre @ [Some a, Some b, Some c]) @ replicate (length rest) None) =
     Some ((pre @ [Some a, Some b, Some c]) @ map Some rest)"
    by (rule 4)
  then show ?case
    by (simp add: b64_gen_quad b64_char_plain b64_emit_full sextet_not_255 octets numeral_3_eq_3
        del: nth_mem)
qed (simp_all add: b64_gen_quad b64_char_plain b64_emit_pad1 b64_emit_pad2 sextet_not_255 octets)

lemma b64_encode_form:
  "\<exists>tb k. b64_encode bs = tb @ replicate k 61 \<and> k \<le> 2 \<and> set tb \<subseteq> set base64_enc \<and>
     length tb + k = 4 * ((length bs + 2) div 3) \<and> length bs + k = 3 * ((length bs + 2) div 3)"
proof (induction bs rule: b64_encode.induct)
  case (2 a)
  have "replicate 2 (61 :: byte) = [61, 61]" by (simp add: numeral_2_eq_2)
  then show ?case
    by (intro exI [of _ "[b64_char (drop_bit 2 a), b64_char (b64_sextet1 a 0)]"] exI [of _ 2]) simp
next
  case (3 a b)
  show ?case
    by (rule exI [of _ "[b64_char (drop_bit 2 a), b64_char (b64_sextet1 a b), b64_char (b64_sextet2 b 0)]"],
        rule exI [of _ 1]) simp
next
  case (4 a b c rest)
  then obtain tb k where "b64_encode rest = tb @ replicate k 61 \<and> k \<le> 2 \<and> set tb \<subseteq> set base64_enc \<and>
     length tb + k = 4 * ((length rest + 2) div 3) \<and> length rest + k = 3 * ((length rest + 2) div 3)" by blast
  moreover have "(Suc (Suc (Suc (length rest))) + 2) div 3 = Suc ((length rest + 2) div 3)" by simp
  ultimately show ?case
    by (intro exI [of _ "[b64_char (drop_bit 2 a), b64_char (b64_sextet1 a b), b64_char (b64_sextet2 b c),
      b64_char (c AND 63)] @ tb"] exI [of _ k]) simp
qed simp

lemma b64_decode_encode:
  assumes "bs \<noteq> []"
  shows "base64_decode p True (b64_encode bs) = Inr (map Some bs)"
proof -
  let ?m = "(length bs + 2) div 3"
  obtain tb k where e: "b64_encode bs = tb @ replicate k 61" "k \<le> 2" "set tb \<subseteq> set base64_enc"
     "length tb + k = 4 * ?m" "length bs + k = 3 * ?m" using b64_encode_form [of bs] by blast
  have m: "0 < ?m" using assms by (cases bs) simp_all
  have "filter (\<lambda>c. \<not> b64_ws c) tb = tb"
    using e(3) base64_enc_plain by (auto simp: filter_id_conv)
  then have scan: "b64_scan p (b64_encode bs) 0 0 (length (b64_encode bs)) = Some (k, 4 * ?m)"
    using b64_scan_accepts [of tb k p] e m by auto
  have "3 * ?m - k = length bs" using e(5) by simp
  moreover have "b64_encode bs \<noteq> []" using e(1,4) m by auto
  ultimately show ?thesis
    using scan b64_gen_encode [of bs "[]"] by (simp add: base64_decode_def)
qed

interpretation b64: codec b64_encode "\<lambda>e. case base64_decode 0 True e of Inr out \<Rightarrow> Some (map the out) | Inl _ \<Rightarrow> None"
    "\<lambda>bs. bs \<noteq> []"
  by unfold_locales (simp add: b64_decode_encode o_def)

text \<open>
  C28: decoding the RFC 4648 encoding of any non-empty byte string gives the byte string back,
  every byte of the output written, whatever byte stands before the string in memory.
\<close>

theorem base64_roundtrip:
  assumes "bs \<noteq> []"
  shows "base64_decode p True (b64_encode bs) = Inr (map Some bs)"
  using assms by (rule b64_decode_encode)

theorem base64_roundtrip_witness:
  "base64_decode 0 True (b64_encode [72, 101, 108, 108]) = Inr (map Some [72, 101, 108, 108])"
  using base64_roundtrip [of "[72, 101, 108, 108]" 0] by simp

text \<open>
  C27: the decoder is memory safe on every input: it never writes outside of the buffer it
  allocated, and where it reports success every byte of the buffer has been written.
\<close>

theorem base64_decode_safe:
  "base64_decode p alloc_ok enc \<noteq> Inl B64_OVERRUN \<and>
   (\<forall>out. base64_decode p alloc_ok enc = Inr out \<longrightarrow> None \<notin> set out)"
proof (cases "base64_decode p alloc_ok enc")
  case (Inl e)
  have "e \<noteq> B64_OVERRUN"
    using Inl b64_decode_good [of enc p]
    by (auto simp: base64_decode_def split: if_split_asm option.split_asm)
  then show ?thesis using Inl by simp
next
  case (Inr out)
  then obtain ne r where "enc \<noteq> []" "b64_scan p enc 0 0 (length enc) = Some (ne, r)" "r mod 4 = 0"
      "alloc_ok"
    by (auto simp: base64_decode_def split: if_split_asm option.split_asm)
  then show ?thesis using b64_decode_good [of enc p ne r] Inr by auto
qed

theorem base64_decode_safe_witness:
  "base64_decode 61 True [65, 66] \<noteq> Inl B64_OVERRUN \<and> base64_decode 61 True [65, 66] = Inl B64_BAD_LENGTH"
  using base64_decode_safe [of 61 True "[65, 66]"]
  by (simp add: base64_decode_def b64_scan.simps b64_ws_def base64_dec_eq_255 base64_enc_def)

text \<open>White space inside an accepted string does not change the result.\<close>

lemma base64_decode_whitespace:
  assumes "base64_decode p True enc = Inr out" "\<not> list_all b64_ws enc"
  shows "base64_decode p True (filter (\<lambda>c. \<not> b64_ws c) enc) = Inr out"
proof -
  let ?t = "filter (\<lambda>c. \<not> b64_ws c) enc"
  obtain ne r where a: "enc \<noteq> []" "b64_scan p enc 0 0 (length enc) = Some (ne, r)" "r mod 4 = 0"
    and gen: "b64_gen enc [] 0 (replicate (3 * (r div 4) - ne) None) = Some out"
    using assms(1) by (auto simp: base64_decode_def split: if_split_asm option.split_asm)
  obtain tb m where t: "?t = tb @ replicate ne 61" "ne \<le> 2" "set tb \<subseteq> set base64_enc" "r = 4 * m"
      "length tb + ne = 4 * m" "0 < ne \<longrightarrow> 0 < m"
    using b64_decode_scan [OF a] .
  have ne: "?t \<noteq> []" using assms(2) by (simp add: filter_empty_conv list_all_iff)
  have "filter (\<lambda>c. \<not> b64_ws c) tb = tb" using t(3) base64_enc_plain by (auto simp: filter_id_conv)
  moreover have "length ?t = 4 * m" using t(1,5) by simp
  moreover have "2 \<le> 4 * m" using ne \<open>length ?t = 4 * m\<close> by (cases m) auto
  ultimately have "b64_scan p ?t 0 0 (length ?t) = Some (ne, r)"
    using b64_scan_accepts [of tb ne p] t by auto
  then show ?thesis
    using ne a(3) gen b64_gen_filter [of enc] by (simp add: base64_decode_def)
qed

text \<open>
  An equals sign that is followed by any other character, white space included, makes the
  decoder reject the string.
\<close>

lemma base64_decode_pad_last:
  assumes "Suc j < length enc" "enc ! j = 61" "enc ! Suc j \<noteq> 61"
  shows "base64_decode p alloc_ok enc = Inl B64_BAD_CHAR"
proof -
  have "\<not> b64_ok_at enc j"
    using assms base64_enc_plain b64_ws_eqsign by (auto simp: b64_ok_at_def b64_pad_at_def)
  then have "b64_scan p enc 0 0 (length enc) = None"
    using b64_scan_Some [of p enc 0 0 "length enc"] assms(1)
    by (cases "b64_scan p enc 0 0 (length enc)") auto
  then show ?thesis using assms(1) by (auto simp: base64_decode_def)
qed

end
