(* ===== verification/KeyFormat.thy ===== *)
theory KeyFormat
  imports Base64 CText TapeOps
begin

text \<open>
  The list of data keys in the LTFS specific format, \<open>kmi/key_format_ltfs.c\<close>, which the key manager plug-ins use:
  the check and the conversion of the list, the look-up of the key for a key alias, and the state machine
  \<open>kfl_state\<close> around them.  A list is the text of keys (base64) and key aliases (three printable characters and
  nine bytes in hexadecimal digits), a colon between the two and a slash between pairs.  The offsets are
  unsigned ints and wrap around at 32 bits; more keys than an int counts are undefined behaviour, \<open>C_UNDEFINED\<close>.
  Allocation succeeds.
\<close>

section \<open>The format\<close>

definition DK_LENGTH :: nat where "DK_LENGTH = 32"
definition DKI_LENGTH :: nat where "DKI_LENGTH = 12"
definition DKI_ASCII_LENGTH :: nat where "DKI_ASCII_LENGTH = 3"
definition SEPARATOR_LENGTH :: nat where "SEPARATOR_LENGTH = 1"

definition key_length :: nat where
  "key_length = ((DK_LENGTH * 8 + 5) div 6 + 3) div 4 * 4"

definition keyalias_length :: nat where
  "keyalias_length = DKI_ASCII_LENGTH + (DKI_LENGTH - DKI_ASCII_LENGTH) * 2"

record key =
  dk :: "byte list"
  dki :: "byte list"

record key_format_ltfs =
  num_of_keys :: nat
  dk_list :: "key list option"

datatype kfl_state = KFL_UNINITIALIZED | KFL_INITIALIZED | KFL_SET | KFL_CLEARED | KFL_DESTROYED

text \<open>The static state and the data of the handle, if there is one.\<close>

record kfl =
  state :: kfl_state
  kfl_data :: "key_format_ltfs option"

text \<open>The character classes of the C locale.\<close>

definition isalnum :: "byte \<Rightarrow> bool" where
  "isalnum c \<longleftrightarrow> 48 \<le> c \<and> c \<le> 57 \<or> 65 \<le> c \<and> c \<le> 90 \<or> 97 \<le> c \<and> c \<le> 122"

definition isprint :: "byte \<Rightarrow> bool" where
  "isprint c \<longleftrightarrow> 32 \<le> c \<and> c \<le> 126"

definition isxdigit :: "byte \<Rightarrow> bool" where
  "isxdigit c \<longleftrightarrow> 48 \<le> c \<and> c \<le> 57 \<or> 65 \<le> c \<and> c \<le> 70 \<or> 97 \<le> c \<and> c \<le> 102"

text \<open>The checks of a key and of an alias at the beginning of a text that is long enough for them.\<close>

definition is_key :: "byte list \<Rightarrow> bool" where
  "is_key t \<longleftrightarrow>
     (let n = (DK_LENGTH * 8 + 5) div 6 in
      list_all (\<lambda>c. isalnum c \<or> c = 43 \<or> c = 47) (take n t) \<and> list_all (\<lambda>c. c = 61) (take (key_length - n) (drop n t)))"

definition is_keyalias :: "byte list \<Rightarrow> bool" where
  "is_keyalias t \<longleftrightarrow>
     list_all isprint (take DKI_ASCII_LENGTH t) \<and>
     list_all isxdigit (take (keyalias_length - DKI_ASCII_LENGTH) (drop DKI_ASCII_LENGTH t))"

definition INT_MAX :: nat where "INT_MAX = 2147483647"

text \<open>
  The sum that is compared with the length begins with the unsigned int \<open>i + SEPARATOR_LENGTH\<close>; the other summands
  are of type size_t.  The character at the end of the text is the terminating zero.
\<close>

function keys_loop :: "byte list \<Rightarrow> nat \<Rightarrow> nat \<Rightarrow> error + nat \<times> nat" where
  "keys_loop t i num =
     (let i = (if num \<noteq> 0 then u32 (i + SEPARATOR_LENGTH) else i) in
      if \<not> is_key (drop i t) then Inl LTFS_BAD_ARG
      else
        let i = u32 (i + key_length) in
        if take 1 (drop i t) \<noteq> [58] then Inl LTFS_BAD_ARG
        else
          let i = u32 (i + SEPARATOR_LENGTH) in
          if \<not> is_keyalias (drop i t) then Inl LTFS_BAD_ARG
          else if INT_MAX \<le> num then Inl C_UNDEFINED
          else
            let i = u32 (i + keyalias_length); num = num + 1 in
            if u32 (i + SEPARATOR_LENGTH) + key_length + SEPARATOR_LENGTH + keyalias_length \<le> length t \<and> (t @ [0]) ! i = 47
            then keys_loop t i num
            else Inr (i, num))"
  by pat_completeness auto
termination
  by (relation "measure (\<lambda>(t, i, num). INT_MAX - num)") auto

declare keys_loop.simps [simp del]

definition get_num_of_keys :: "byte list \<Rightarrow> error + nat" where
  "get_num_of_keys t =
     (if key_length + SEPARATOR_LENGTH + keyalias_length \<le> length t then
        case keys_loop t 0 0 of
          Inl e \<Rightarrow> Inl e
        | Inr (i, num) \<Rightarrow> if i \<noteq> length t then Inl LTFS_BAD_ARG else Inr num
      else Inr 0)"

section \<open>Conversion\<close>

text \<open>
  A key that does not decode to the right number of bytes leaves the buffer as it is, filled with zeros.  The
  character before the key, which the decoder looks at for a key that begins with an equals sign, does not matter
  for the keys that passed the check.
\<close>

definition convert_key :: "byte list \<Rightarrow> byte list" where
  "convert_key enc =
     (case base64_decode 0 True (take key_length enc) of
        Inr dec \<Rightarrow> if length dec = DK_LENGTH then map the dec else replicate DK_LENGTH 0
      | Inl _ \<Rightarrow> replicate DK_LENGTH 0)"

text \<open>The number that two characters stand for in base 16, as strtoul reads it, cut to a byte.\<close>

definition hex_pair :: "byte \<Rightarrow> byte \<Rightarrow> byte" where
  "hex_pair a b = of_nat (fst (strtoull 16 (map (\<lambda>c. char_of (unat c)) (takeWhile (\<lambda>c. c \<noteq> 0) [a, b]))))"

fun hex_pairs :: "byte list \<Rightarrow> byte list" where
  "hex_pairs (a # b # t) = hex_pair a b # hex_pairs t"
| "hex_pairs _ = []"

definition convert_keyalias :: "byte list \<Rightarrow> byte list" where
  "convert_keyalias t =
     take DKI_ASCII_LENGTH t @ hex_pairs (take (keyalias_length - DKI_ASCII_LENGTH) (drop DKI_ASCII_LENGTH t))"

primrec convert_loop :: "nat \<Rightarrow> byte list \<Rightarrow> nat \<Rightarrow> key list" where
  "convert_loop 0 t offset = []"
| "convert_loop (Suc n) t offset =
     (let key = convert_key (drop offset t);
          offset = u32 (offset + (key_length + 1));
          keyalias = convert_keyalias (drop offset t);
          offset = u32 (offset + (keyalias_length + 1)) in
      \<lparr>dk = key, dki = keyalias\<rparr> # convert_loop n t offset)"

section \<open>The operations\<close>

definition key_format_ltfs_init :: "kfl \<Rightarrow> bool \<times> kfl" where
  "key_format_ltfs_init w =
     (if state w \<noteq> KFL_UNINITIALIZED then (False, w)
      else (True, w\<lparr>state := KFL_INITIALIZED, kfl_data := Some \<lparr>num_of_keys = 0, dk_list = None\<rparr>\<rparr>))"

definition key_format_ltfs_destroy :: "kfl \<Rightarrow> kfl" where
  "key_format_ltfs_destroy w = w\<lparr>state := KFL_DESTROYED, kfl_data := None\<rparr>"

definition set_dk_list :: "byte list option \<Rightarrow> kfl \<Rightarrow> (error + unit) \<times> kfl" where
  "set_dk_list list w =
     (case kfl_data w of
        None \<Rightarrow> (Inl LTFS_NULL_ARG, w)
      | Some priv \<Rightarrow>
          if state w \<noteq> KFL_INITIALIZED \<and> state w \<noteq> KFL_CLEARED then (Inl LTFS_INVALID_SEQUENCE, w)
          else
            case (case list of None \<Rightarrow> Inr 0 | Some t \<Rightarrow> get_num_of_keys t) of
              Inl e \<Rightarrow> (Inl e, w)
            | Inr num \<Rightarrow>
                let priv = (if num \<noteq> 0 then priv\<lparr>num_of_keys := num, dk_list := Some (convert_loop num (the list) 0)\<rparr>
                            else priv) in
                (Inr (), w\<lparr>state := KFL_SET, kfl_data := Some priv\<rparr>))"

text \<open>
  The look-up: the alias that was asked for or the one for formatting, and the key.  Without either of the
  two the cartridge is not encrypted.  The alias for formatting has not been checked; a text that is too short is read
  beyond its end.
\<close>

definition get_key ::
  "byte list option \<Rightarrow> key_format_ltfs \<Rightarrow> byte list option \<Rightarrow> (error + byte list option) \<times> byte list option" where
  "get_key keyalias priv dki_for_format =
     (case (case keyalias of
              Some a \<Rightarrow> Inr (Some a)
            | None \<Rightarrow>
                (case dki_for_format of
                   None \<Rightarrow> Inr None
                 | Some t \<Rightarrow>
                     if length (t @ [0]) < keyalias_length then Inl C_UNDEFINED else Inr (Some (convert_keyalias (t @ [0]))))) of
        Inl e \<Rightarrow> (Inl e, None)
      | Inr None \<Rightarrow> (Inr None, None)
      | Inr (Some a) \<Rightarrow>
          (case find (\<lambda>k. dki k = a) (take (num_of_keys priv) (case dk_list priv of None \<Rightarrow> [] | Some ks \<Rightarrow> ks)) of
             None \<Rightarrow> (Inl LTFS_KEY_NOT_FOUND, Some a)
           | Some k \<Rightarrow> (Inr (Some (dk k)), Some a)))"

definition clear :: "kfl \<Rightarrow> kfl" where
  "clear w =
     (let w = w\<lparr>kfl_data := map_option (\<lambda>_. \<lparr>num_of_keys = 0, dk_list = None\<rparr>) (kfl_data w)\<rparr> in
      if state w = KFL_SET then w\<lparr>state := KFL_CLEARED\<rparr> else w)"

definition key_format_ltfs_get_key ::
  "byte list option \<Rightarrow> byte list option \<Rightarrow> byte list option \<Rightarrow> kfl \<Rightarrow> (error + byte list option) \<times> byte list option \<times> kfl" where
  "key_format_ltfs_get_key keyalias list dki_for_format w =
     (if kfl_data w = None then (Inl LTFS_NULL_ARG, keyalias, w)
      else
        case set_dk_list list w of
          (Inl e, w) \<Rightarrow> (Inl e, keyalias, w)
        | (Inr _, w) \<Rightarrow>
            (case get_key keyalias (the (kfl_data w)) dki_for_format of
               (ret, keyalias) \<Rightarrow> (ret, keyalias, clear w)))"

section \<open>The text of a list\<close>

definition hex_text :: "byte \<Rightarrow> byte list" where
  "hex_text b = [of_char (digit_char (unat b div 16)), of_char (digit_char (unat b mod 16))]"

definition alias_text :: "byte list \<Rightarrow> byte list" where
  "alias_text a = take DKI_ASCII_LENGTH a @ concat (map hex_text (drop DKI_ASCII_LENGTH a))"

definition alias_ok :: "byte list \<Rightarrow> bool" where
  "alias_ok a \<longleftrightarrow> length a = DKI_LENGTH \<and> list_all isprint (take DKI_ASCII_LENGTH a)"

definition key_ok :: "key \<Rightarrow> bool" where
  "key_ok k \<longleftrightarrow> length (dk k) = DK_LENGTH \<and> alias_ok (dki k)"

definition key_text :: "key \<Rightarrow> byte list" where
  "key_text k = b64_encode (dk k) @ 58 # alias_text (dki k)"

definition list_text :: "key list \<Rightarrow> byte list" where
  "list_text ks = tl (concat (map (\<lambda>k. 47 # key_text k) ks))"

lemmas lengths = DK_LENGTH_def DKI_LENGTH_def DKI_ASCII_LENGTH_def SEPARATOR_LENGTH_def

lemma key_length [simp]: "key_length = 44"
  by (simp add: key_length_def lengths)

lemma keyalias_length [simp]: "keyalias_length = 21"
  by (simp add: keyalias_length_def lengths)

lemma digit_char_code: "d < 16 \<Longrightarrow> of_char (digit_char d) = (if d < 10 then 48 + d else 87 + d)"
  by (simp add: digit_char_def)

lemma of_char_byte: "of_char c = (of_nat (of_char c) :: byte)"
  by (simp add: of_nat_of_char)

lemma digit_byte:
  assumes "d < 16"
  shows "unat (of_char (digit_char d) :: byte) = of_char (digit_char d)"
proof -
  have "of_char (digit_char d) < (256 :: nat)" using assms by (simp add: digit_char_code)
  then show ?thesis by (simp add: of_char_byte unat_of_nat)
qed

lemma digit_xdigit: "d < 16 \<Longrightarrow> isxdigit (of_char (digit_char d))"
  by (auto simp: isxdigit_def word_le_nat_alt digit_byte digit_char_code)

lemma digit_nonzero: "d < 16 \<Longrightarrow> of_char (digit_char d) \<noteq> (0 :: byte)"
  using digit_byte [of d] by (auto simp: digit_char_code split: if_splits)

lemma strtoull_hex2:
  assumes "i < 16" "j < 16"
  shows "fst (strtoull 16 [digit_char i, digit_char j]) = 16 * i + j"
proof -
  have "\<not> isspace (digit_char i)" "digit_char i \<noteq> CHR ''-''" "digit_char i \<noteq> CHR ''+''"
    using assms(1) digit_char_code [of i] by (auto simp: isspace_def split: if_splits)
  moreover have "\<not> two64 \<le> 16 * i + j" using assms by (simp add: two64_def)
  ultimately show ?thesis using assms
    by (simp add: strtoull_def scan_number_def strip_sign_def strip_prefix_def is_digit_def digits_value_def)
qed

lemma hex_pair_text: "hex_pairs (hex_text b @ t) = b # hex_pairs t"
proof -
  let ?i = "unat b div 16" and ?j = "unat b mod 16"
  have "unat b < 256" using unsigned_less [of b] by simp
  then have ij: "?i < 16" "?j < 16" by simp_all
  have "hex_pair (of_char (digit_char ?i)) (of_char (digit_char ?j)) = of_nat (16 * ?i + ?j)"
    using strtoull_hex2 [OF ij] ij by (simp add: hex_pair_def digit_byte digit_nonzero)
  also have "\<dots> = b" by simp
  finally show ?thesis by (simp add: hex_text_def)
qed

lemma length_hex [simp]: "length (concat (map hex_text a)) = 2 * length a"
  by (induction a) (simp_all add: hex_text_def)

lemma hex_pairs_text: "hex_pairs (concat (map hex_text a)) = a"
  by (induction a) (simp_all add: hex_pair_text)

lemma hex_xdigits: "list_all isxdigit (concat (map hex_text a))"
proof (induction a)
  case (Cons b a)
  have "unat b < 256" using unsigned_less [of b] by simp
  then have "unat b div 16 < 16" "unat b mod 16 < 16" by simp_all
  then show ?case using Cons by (simp add: hex_text_def digit_xdigit)
qed simp

lemma alias_text_ok:
  assumes "alias_ok a"
  shows "length (alias_text a) = 21" "is_keyalias (alias_text a @ t)" "convert_keyalias (alias_text a @ t) = a"
proof -
  have len: "length a = 12" "list_all isprint (take 3 a)" using assms by (simp_all add: alias_ok_def lengths)
  let ?h = "concat (map hex_text (drop 3 a))"
  have h: "length ?h = 18" using len(1) by simp
  have parts: "take 3 (alias_text a @ t) = take 3 a" "take 18 (drop 3 (alias_text a @ t)) = ?h"
    using len(1) h by (simp_all add: alias_text_def lengths)
  show "length (alias_text a) = 21" using len(1) by (simp add: alias_text_def lengths)
  show "is_keyalias (alias_text a @ t)" using parts len(2) hex_xdigits by (simp add: is_keyalias_def lengths)
  show "convert_keyalias (alias_text a @ t) = a"
    using parts by (simp add: convert_keyalias_def lengths hex_pairs_text)
qed

lemma enc_key_chars: "c \<in> set base64_enc \<Longrightarrow> isalnum c \<or> c = 43 \<or> c = 47"
proof -
  have "list_all (\<lambda>c. isalnum c \<or> c = 43 \<or> c = 47) base64_enc" by (simp add: base64_enc_def isalnum_def)
  then show "c \<in> set base64_enc \<Longrightarrow> isalnum c \<or> c = 43 \<or> c = 47" by (simp add: list_all_iff)
qed

lemma encoded_key_ok:
  assumes "length d = DK_LENGTH"
  shows "length (b64_encode d) = 44" "is_key (b64_encode d @ t)" "convert_key (b64_encode d @ t) = d"
proof -
  obtain tb k where tb: "b64_encode d = tb @ replicate k 61" "set tb \<subseteq> set base64_enc" "length tb + k = 44" "32 + k = 33"
    using b64_encode_form [of d] assms by (auto simp: lengths)
  then have tb: "b64_encode d = tb @ [61]" "set tb \<subseteq> set base64_enc" "length tb = 43" by (simp_all add: eval_nat_numeral)
  then show len: "length (b64_encode d) = 44" by simp
  have "list_all (\<lambda>c. isalnum c \<or> c = 43 \<or> c = 47) tb" using tb(2) enc_key_chars by (auto simp: list_all_iff)
  then show "is_key (b64_encode d @ t)" using tb by (simp add: is_key_def lengths)
  have "d \<noteq> []" using assms by (auto simp: lengths)
  from b64_decode_encode [OF this] show "convert_key (b64_encode d @ t) = d"
    using len assms by (simp add: convert_key_def o_def)
qed

lemma length_key_text: "key_ok k \<Longrightarrow> length (key_text k) = 66"
  by (simp add: key_ok_def key_text_def encoded_key_ok(1) alias_text_ok(1))

definition key_tails :: "key list \<Rightarrow> byte list" where
  "key_tails ks = concat (map (\<lambda>k. 47 # key_text k) ks)"

lemma key_tails_simps [simp]: "key_tails [] = []" "key_tails (k # ks) = 47 # key_text k @ key_tails ks"
  by (simp_all add: key_tails_def)

lemma list_text_Cons: "list_text (k # ks) = key_text k @ key_tails ks"
  by (simp add: list_text_def key_tails_def)

lemma length_key_tails: "\<forall>k \<in> set ks. key_ok k \<Longrightarrow> length (key_tails ks) = 67 * length ks"
  by (induction ks) (simp_all add: length_key_text)

lemma keys_loop_step:
  assumes "key_ok k" "i + (if num \<noteq> 0 then 1 else 0) = length p" "t = p @ key_text k @ rest" "length t < two32" "num < INT_MAX"
  shows "keys_loop t i num =
    (if 67 \<le> length rest \<and> rest ! 0 = 47 then keys_loop t (length p + 66) (num + 1) else Inr (length p + 66, num + 1))"
proof -
  have k: "length (dk k) = DK_LENGTH" "alias_ok (dki k)" using assms(1) by (simp_all add: key_ok_def)
  let ?e = "b64_encode (dk k)" and ?a = "alias_text (dki k)"
  have len: "length ?e = 44" "length ?a = 21" using encoded_key_ok(1) [OF k(1)] alias_text_ok(1) [OF k(2)] by simp_all
  have t: "t = p @ ?e @ 58 # ?a @ rest" using assms(3) by (simp add: key_text_def)
  have lt: "length t = length p + 66 + length rest" using len by (simp add: t)
  have u: "u32 (length p + 44) = length p + 44" "u32 (length p + 44 + 1) = length p + 45" "u32 (length p + 45 + 21) = length p + 66"
    using lt assms(4) by (simp_all add: u32_id)
  have i: "(if num \<noteq> 0 then u32 (i + 1) else i) = length p" using assms(2,4) lt by (auto simp: u32_id)
  have d: "drop (length p) t = ?e @ 58 # ?a @ rest" "take 1 (drop (length p + 44) t) = [58]"
    "drop (length p + 45) t = ?a @ rest" using len by (simp_all add: t)
  have more: "u32 (length p + 66 + 1) + 44 + 1 + 21 \<le> length t \<and> (t @ [0]) ! (length p + 66) = 47 \<longleftrightarrow>
      67 \<le> length rest \<and> rest ! 0 = 47"
  proof (cases rest)
    case Nil
    then show ?thesis using len lt by (simp add: t nth_append)
  next
    case (Cons c r)
    then have "u32 (length p + 66 + 1) = length p + 67" using lt assms(4) by (simp add: u32_id)
    then show ?thesis using len lt Cons by (auto simp: t nth_append)
  qed
  have "keys_loop t i num =
      (if \<not> is_key (drop (length p) t) then Inl LTFS_BAD_ARG
       else if take 1 (drop (length p + 44) t) \<noteq> [58] then Inl LTFS_BAD_ARG
       else if \<not> is_keyalias (drop (length p + 45) t) then Inl LTFS_BAD_ARG
       else if INT_MAX \<le> num then Inl C_UNDEFINED
       else if u32 (length p + 66 + 1) + 44 + 1 + 21 \<le> length t \<and> (t @ [0]) ! (length p + 66) = 47
       then keys_loop t (length p + 66) (num + 1)
       else Inr (length p + 66, num + 1))"
    unfolding keys_loop.simps [of t i] Let_def key_length keyalias_length SEPARATOR_LENGTH_def i u by (rule refl)
  then show ?thesis unfolding d more using encoded_key_ok(2) [OF k(1)] alias_text_ok(2) [OF k(2)] assms(5) by simp
qed

lemma keys_loop_text:
  assumes "key_ok k" "\<forall>k \<in> set ks. key_ok k" "i + (if num \<noteq> 0 then 1 else 0) = length p" "t = p @ key_text k @ key_tails ks"
    and "length t < two32" "num + length ks < INT_MAX"
  shows "keys_loop t i num = Inr (length t, num + 1 + length ks)"
  using assms
proof (induction ks arbitrary: k i p num)
  case Nil
  from keys_loop_step [OF Nil.prems(1,3,4,5)] show ?case using Nil.prems length_key_text by simp
next
  case (Cons k' ks)
  have "67 \<le> length (key_tails (k' # ks))" using length_key_tails [of "k' # ks"] Cons.prems(2) by simp
  then have "keys_loop t i num = keys_loop t (length p + 66) (num + 1)"
    using keys_loop_step [OF Cons.prems(1,3,4,5)] Cons.prems(6) by simp
  also have "\<dots> = Inr (length t, num + 1 + 1 + length ks)"
    by (rule Cons.IH [of k' _ _ "p @ key_text k @ [47]"]) (use Cons.prems length_key_text [of k] in simp_all)
  finally show ?case by simp
qed

lemma length_list_text: "\<forall>k \<in> set (k # ks). key_ok k \<Longrightarrow> length (list_text (k # ks)) = 66 + 67 * length ks"
  by (simp add: list_text_Cons length_key_text length_key_tails)

lemma num_of_list_text:
  assumes "ks \<noteq> []" "\<forall>k \<in> set ks. key_ok k" "length (list_text ks) < two32"
  shows "get_num_of_keys (list_text ks) = Inr (length ks)"
proof -
  obtain k ks' where ks: "ks = k # ks'" using assms(1) by (cases ks) auto
  have "66 + 67 * length ks' < two32" using assms(2,3) length_list_text [of k ks'] ks by simp
  then have n: "0 + length ks' < INT_MAX" by (simp add: two32_def INT_MAX_def)
  have "keys_loop (list_text ks) 0 0 = Inr (length (list_text ks), 0 + 1 + length ks')"
    by (rule keys_loop_text [of k _ _ _ "[]"]) (use assms(2,3) ks n in \<open>simp_all add: list_text_Cons\<close>)
  then show ?thesis using length_key_text [of k] assms(2) ks by (simp add: get_num_of_keys_def list_text_Cons lengths)
qed

lemma convert_entry:
  assumes "key_ok k"
  shows "\<lparr>dk = convert_key (key_text k @ t), dki = convert_keyalias (drop 45 (key_text k @ t))\<rparr> = k"
proof -
  have k: "length (dk k) = DK_LENGTH" "alias_ok (dki k)" using assms by (simp_all add: key_ok_def)
  have "convert_key (key_text k @ t) = dk k" using encoded_key_ok(3) [OF k(1)] by (simp add: key_text_def)
  moreover have "drop 45 (key_text k @ t) = alias_text (dki k) @ t"
    using encoded_key_ok(1) [OF k(1)] by (simp add: key_text_def)
  ultimately show ?thesis using alias_text_ok(3) [OF k(2)] by simp
qed

lemma convert_list_text:
  assumes "key_ok k" "\<forall>k \<in> set ks. key_ok k" "t = p @ key_text k @ key_tails ks" "length t < two32"
  shows "convert_loop (length (k # ks)) t (length p) = k # ks"
  using assms
proof (induction ks arbitrary: k p)
  case Nil
  have "length t = length p + 66" using Nil.prems length_key_text [of k] by simp
  then have "u32 (length p + 45) = length p + 45" using Nil.prems(4) by (simp add: u32_id)
  then show ?case using convert_entry [OF Nil.prems(1), of "[]"] Nil.prems(3) by (simp add: Let_def add.commute [of "length p"] flip: drop_drop)
next
  case (Cons k' ks)
  have len: "length t = length p + 66 + 67 * (1 + length ks)"
    using Cons.prems length_key_text [of k] length_key_tails [of "k' # ks"] by simp
  then have u: "u32 (length p + 45) = length p + 45" "u32 (length p + 45 + 22) = length p + 67"
    using Cons.prems(4) by (simp_all add: u32_id)
  have "convert_loop (length (k' # ks)) t (length (p @ key_text k @ [47])) = k' # ks"
    by (rule Cons.IH) (use Cons.prems in simp_all)
  then have rest: "convert_loop (length (k' # ks)) t (length p + 67) = k' # ks"
    using length_key_text [OF Cons.prems(1)] by simp
  have "drop (length p) t = key_text k @ key_tails (k' # ks)" "drop (length p + 45) t = drop 45 (key_text k @ key_tails (k' # ks))"
    using Cons.prems(3) by simp_all
  then have "\<lparr>dk = convert_key (drop (length p) t), dki = convert_keyalias (drop (length p + 45) t)\<rparr> = k"
    using convert_entry [OF Cons.prems(1)] by simp
  then show ?case using rest u by (simp add: Let_def)
qed

section \<open>Properties\<close>

definition idle :: "kfl \<Rightarrow> bool" where
  "idle w \<longleftrightarrow> (state w = KFL_INITIALIZED \<or> state w = KFL_CLEARED) \<and> kfl_data w = Some \<lparr>num_of_keys = 0, dk_list = None\<rparr>"

lemma clear_set:
  "state w = KFL_SET \<Longrightarrow> kfl_data w \<noteq> None \<Longrightarrow>
    clear w = w\<lparr>state := KFL_CLEARED, kfl_data := Some \<lparr>num_of_keys = 0, dk_list = None\<rparr>\<rparr>"
  by (auto simp: clear_def)

text \<open>Whatever list and alias a call is made with, it leaves no key behind, and the next call can be made.\<close>

lemma get_key_idle:
  assumes "idle w" "key_format_ltfs_get_key keyalias list dki_for_format w = (ret, keyalias', w')"
  shows "idle w'"
proof (cases "set_dk_list list w")
  case (Pair r u)
  show ?thesis
  proof (cases r)
    case (Inl e)
    then have "u = w" using Pair assms(1)
      by (auto simp: set_dk_list_def idle_def Let_def split: if_splits sum.splits)
    then show ?thesis using assms Pair Inl by (auto simp: key_format_ltfs_get_key_def idle_def)
  next
    case (Inr x)
    then have "state u = KFL_SET" "kfl_data u \<noteq> None" using Pair assms(1)
      by (auto simp: set_dk_list_def idle_def Let_def split: if_splits sum.splits)
    moreover have "w' = clear u" using assms Pair Inr
      by (auto simp: key_format_ltfs_get_key_def idle_def split: prod.splits)
    ultimately show ?thesis by (simp add: clear_set idle_def)
  qed
qed

text \<open>C20.  From the text of a list of keys, shorter than 4 GB, the key that belongs to an alias is found: the first one in the list, or the
  error that there is none.  Afterwards no key is kept in memory, and the next call can be made.  The same holds
  when the alias is given as text for a cartridge to be formatted.\<close>

theorem get_key_from_list:
  assumes "idle w" "ks \<noteq> []" "\<forall>k \<in> set ks. key_ok k" "length (list_text ks) < two32" "alias_ok a"
    and "request = (Some a, t) \<or> request = (None, Some (alias_text a))"
  shows "key_format_ltfs_get_key (fst request) (Some (list_text ks)) (snd request) w =
    ((case find (\<lambda>k. dki k = a) ks of None \<Rightarrow> Inl LTFS_KEY_NOT_FOUND | Some k \<Rightarrow> Inr (Some (dk k))),
     Some a, w\<lparr>state := KFL_CLEARED\<rparr>)"
proof -
  obtain k ks' where ks: "ks = k # ks'" using assms(2) by (cases ks) auto
  have conv: "convert_loop (length ks) (list_text ks) 0 = ks"
    using convert_list_text [of k ks' "list_text ks" "[]"] assms(3,4) by (simp add: ks list_text_Cons)
  let ?priv = "\<lparr>num_of_keys = length ks, dk_list = Some ks\<rparr>"
  have set: "set_dk_list (Some (list_text ks)) w = (Inr (), w\<lparr>state := KFL_SET, kfl_data := Some ?priv\<rparr>)"
    using assms(1) num_of_list_text [OF assms(2,3,4)] conv assms(2)
    unfolding set_dk_list_def idle_def Let_def by (elim conjE disjE) simp_all
  have "\<not> length (alias_text a @ [0]) < keyalias_length" using alias_text_ok(1) [OF assms(5)] by simp
  then have "get_key (fst request) ?priv (snd request) =
      ((case find (\<lambda>k. dki k = a) ks of None \<Rightarrow> Inl LTFS_KEY_NOT_FOUND | Some k \<Rightarrow> Inr (Some (dk k))), Some a)"
    using assms(6) alias_text_ok(3) [OF assms(5), of "[0]"]
    by (elim disjE; cases "find (\<lambda>k. dki k = a) ks") (simp_all add: get_key_def)
  then show ?thesis using set assms(1)
    by (simp add: key_format_ltfs_get_key_def idle_def clear_set)
qed

definition sample_keys :: "key list" where
  "sample_keys = [\<lparr>dk = replicate 32 1, dki = [65, 66, 67] @ replicate 9 1\<rparr>,
    \<lparr>dk = replicate 32 2, dki = [65, 66, 67] @ replicate 9 2\<rparr>]"

theorem get_key_from_list_witness:
  "key_format_ltfs_get_key (Some ([65, 66, 67] @ replicate 9 2)) (Some (list_text sample_keys)) None
      \<lparr>state = KFL_INITIALIZED, kfl_data = Some \<lparr>num_of_keys = 0, dk_list = None\<rparr>\<rparr> =
    (Inr (Some (replicate 32 2)), Some ([65, 66, 67] @ replicate 9 2),
     \<lparr>state = KFL_CLEARED, kfl_data = Some \<lparr>num_of_keys = 0, dk_list = None\<rparr>\<rparr>)"
proof -
  let ?w = "\<lparr>state = KFL_INITIALIZED, kfl_data = Some \<lparr>num_of_keys = 0, dk_list = None\<rparr>\<rparr>"
    and ?a = "[65, 66, 67] @ replicate 9 2"
  have ok: "idle ?w" "sample_keys \<noteq> []" "\<forall>k \<in> set sample_keys. key_ok k" "alias_ok ?a"
    by (simp_all add: idle_def sample_keys_def key_ok_def alias_ok_def lengths isprint_def)
  have "length (list_text sample_keys) = 66 + 67"
    using length_list_text [of "hd sample_keys" "tl sample_keys"] ok(3) by (simp add: sample_keys_def)
  then have small: "length (list_text sample_keys) < two32" by (simp add: two32_def)
  have neq: "replicate 9 1 \<noteq> replicate 9 (2 :: byte)" by (simp add: numeral_eq_Suc)
  from get_key_from_list [OF ok(1-3) small ok(4), of "(Some ?a, None)" None] show ?thesis
    using neq by (simp add: sample_keys_def)
qed

end
