(* ===== verification/Spec2Isabelle.thy ===== *)
theory Spec2Isabelle
  imports DeviceProps FileTapeProps RsCrc XmlText Criteria CacheManager KeyFormat
begin

text \<open>
  Aurora LTFS, a development of its storage stack.
\<close>

end
